(* ===== verification/BG_Prelude.thy ===== *)
theory BG_Prelude
  imports Complex_Main "HOL-Library.AList" "HOL-Library.Signed_Division"
begin

text \<open>
  Shared vocabulary of the development: Go's fixed-width integers written out over
  \<^typ>\<open>int\<close>, Go maps as association lists with distinct keys, and the ASCII part of
  Go's \<^verbatim>\<open>strings\<close> package.

  \<^item> \<^verbatim>\<open>int64\<close> and \<^verbatim>\<open>int\<close> values are \<^typ>\<open>int\<close> with \<open>wrap64\<close> applied after every
    operation that may overflow; \<^verbatim>\<open>uint64\<close> values are reduced by \<open>u64\<close>.
  \<^item> a Go map is an association list used through \<open>map_of\<close>, \<open>AList.update\<close> and
    \<open>AList.delete\<close>; the order of the list is one possible iteration order of the map.
  \<^item> strings are lists of bytes; \<open>ToLower\<close> and \<open>ToUpper\<close> act on ASCII letters, which is
    all the sources compare against.
\<close>

section \<open>Collections of rewrite rules\<close>

named_theorems i64_simps \<open>rewriting of wrapped 64-bit arithmetic\<close>
named_theorems gomap_simps \<open>rewriting of map lookups after updates and deletions\<close>

section \<open>Fixed-width integers\<close>

definition wrap64 :: "int \<Rightarrow> int" where
  "wrap64 x = (x + 2 ^ 63) mod 2 ^ 64 - 2 ^ 63"

definition in64 :: "int \<Rightarrow> bool" where
  "in64 x \<longleftrightarrow> - (2 ^ 63) \<le> x \<and> x < 2 ^ 63"

definition u64 :: "int \<Rightarrow> int" where
  "u64 x = x mod 2 ^ 64"

definition low32 :: "int \<Rightarrow> int" where
  \<comment> \<open>\<^verbatim>\<open>x & 0xFFFFFFFF\<close> on a two's complement value\<close>
  "low32 x = x mod 2 ^ 32"

definition shr32 :: "int \<Rightarrow> int" where
  \<comment> \<open>the arithmetic shift \<^verbatim>\<open>x >> 32\<close>\<close>
  "shr32 x = x div 2 ^ 32"

definition shl32 :: "int \<Rightarrow> int" where
  \<comment> \<open>\<^verbatim>\<open>x << 32\<close>\<close>
  "shl32 x = wrap64 (x * 2 ^ 32)"

lemma wrap64_id [i64_simps]: "in64 x \<Longrightarrow> wrap64 x = x"
  by (simp add: wrap64_def in64_def)

lemma in64_wrap64 [simp]: "in64 (wrap64 x)"
  by (simp add: wrap64_def in64_def)

lemma wrap64_wrap64 [simp]: "wrap64 (wrap64 x) = wrap64 x"
  by (rule wrap64_id) simp

lemma in64_0 [simp]: "in64 0" and in64_1 [simp]: "in64 1"
  by (simp_all add: in64_def)

lemma wrap64_0 [simp]: "wrap64 0 = 0"
  by (simp add: wrap64_def)

lemma wrap64_mod_eq: "wrap64 x = wrap64 y \<longleftrightarrow> x mod 2 ^ 64 = y mod 2 ^ 64"
proof -
  have "wrap64 x = wrap64 y \<longleftrightarrow> (x + 2 ^ 63) mod 2 ^ 64 = (y + 2 ^ 63) mod 2 ^ 64"
    by (simp add: wrap64_def)
  also have "\<dots> \<longleftrightarrow> x mod 2 ^ 64 = y mod 2 ^ 64"
    by (simp only: mod_eq_dvd_iff add_diff_cancel_right)
  finally show ?thesis .
qed

lemma wrap64_mod: "wrap64 x mod 2 ^ 64 = x mod 2 ^ 64"
  using wrap64_mod_eq [of "wrap64 x" x] by simp

lemma wrap64_add_left [simp]: "wrap64 (wrap64 x + y) = wrap64 (x + y)"
  by (metis mod_add_left_eq wrap64_mod wrap64_mod_eq)

lemma wrap64_add_right [simp]: "wrap64 (x + wrap64 y) = wrap64 (x + y)"
  by (metis add.commute wrap64_add_left)

lemma wrap64_add_cong: "wrap64 a = wrap64 b \<Longrightarrow> wrap64 (a + x) = wrap64 (b + x)" "wrap64 a = wrap64 b \<Longrightarrow> wrap64 (x + a) = wrap64 (x + b)"
  by (metis wrap64_add_left, metis wrap64_add_right)

lemma wrap64_mult_left [simp]: "wrap64 (wrap64 x * y) = wrap64 (x * y)"
  by (metis mod_mult_left_eq wrap64_mod wrap64_mod_eq)

lemma wrap64_mult_right [simp]: "wrap64 (x * wrap64 y) = wrap64 (x * y)"
  by (metis mult.commute wrap64_mult_left)

lemma in64_between: "in64 a \<Longrightarrow> in64 b \<Longrightarrow> a \<le> x \<Longrightarrow> x \<le> b \<Longrightarrow> in64 x"
  by (simp add: in64_def)

lemma low32_bounds: "0 \<le> low32 x \<and> low32 x < 2 ^ 32"
  by (simp add: low32_def)

section \<open>Sums of wrapped values\<close>

text \<open>A loop \<^verbatim>\<open>total += f(x)\<close> over a slice, with the wrap-around of every addition.\<close>

fun sum64 :: "('a \<Rightarrow> int) \<Rightarrow> 'a list \<Rightarrow> int \<Rightarrow> int" where
  "sum64 f [] acc = acc"
| "sum64 f (x # xs) acc = sum64 f xs (wrap64 (acc + f x))"

lemma sum64_eq: "in64 acc \<Longrightarrow> sum64 f xs acc = wrap64 (acc + (\<Sum>x\<leftarrow>xs. f x))"
  by (induction xs arbitrary: acc) (simp_all add: i64_simps add.assoc)

lemma sum64_0: "sum64 f xs 0 = wrap64 (\<Sum>x\<leftarrow>xs. f x)"
  by (simp add: sum64_eq)

lemma in64_sum64: "in64 acc \<Longrightarrow> in64 (sum64 f xs acc)"
  by (simp add: sum64_eq)

section \<open>Go maps as association lists\<close>

abbreviation gokeys :: "('k \<times> 'v) list \<Rightarrow> 'k list" where
  "gokeys m \<equiv> map fst m"

definition has_key :: "('k \<times> 'v) list \<Rightarrow> 'k \<Rightarrow> bool" where
  "has_key m k \<longleftrightarrow> map_of m k \<noteq> None"

definition get_or :: "'v \<Rightarrow> ('k \<times> 'v) list \<Rightarrow> 'k \<Rightarrow> 'v" where
  \<comment> \<open>\<^verbatim>\<open>m[k]\<close> with the zero value of the element type for a missing key\<close>
  "get_or z m k = (case map_of m k of None \<Rightarrow> z | Some v \<Rightarrow> v)"

lemma map_of_update [gomap_simps]:
  "map_of (AList.update k v m) k' = (if k' = k then Some v else map_of m k')"
  by (simp add: update_conv')

lemma map_of_delete [gomap_simps]:
  "map_of (AList.delete k m) k' = (if k' = k then None else map_of m k')"
  by (simp add: delete_conv')

lemma has_key_update [gomap_simps]:
  "has_key (AList.update k v m) k' \<longleftrightarrow> k' = k \<or> has_key m k'"
  by (simp add: has_key_def gomap_simps)

lemma has_key_delete [gomap_simps]:
  "has_key (AList.delete k m) k' \<longleftrightarrow> k' \<noteq> k \<and> has_key m k'"
  by (simp add: has_key_def gomap_simps)

lemma get_or_update [gomap_simps]:
  "get_or z (AList.update k v m) k' = (if k' = k then v else get_or z m k')"
  by (simp add: get_or_def gomap_simps)

lemma get_or_delete [gomap_simps]:
  "get_or z (AList.delete k m) k' = (if k' = k then z else get_or z m k')"
  by (simp add: get_or_def gomap_simps)

lemma has_key_iff: "has_key m k \<longleftrightarrow> k \<in> set (gokeys m)"
  by (auto simp: has_key_def map_of_eq_None_iff)

lemma has_key_Nil [simp]: "\<not> has_key [] k"
  by (simp add: has_key_def)

lemma get_or_Nil [simp]: "get_or z [] k = z"
  by (simp add: get_or_def)

lemma get_or_no_key: "\<not> has_key m k \<Longrightarrow> get_or z m k = z"
  by (simp add: get_or_def has_key_def)

lemma distinct_gokeys_update [intro]: "distinct (gokeys m) \<Longrightarrow> distinct (gokeys (AList.update k v m))"
  by (rule distinct_update)

lemma distinct_gokeys_delete [intro]: "distinct (gokeys m) \<Longrightarrow> distinct (gokeys (AList.delete k m))"
  by (rule distinct_delete)

section \<open>Strings\<close>

definition lower_char :: "char \<Rightarrow> char" where
  "lower_char c = (let n = (of_char c :: nat) in if 65 \<le> n \<and> n \<le> 90 then char_of (n + 32) else c)"

definition upper_char :: "char \<Rightarrow> char" where
  "upper_char c = (let n = (of_char c :: nat) in if 97 \<le> n \<and> n \<le> 122 then char_of (n - 32) else c)"

definition ToLower :: "string \<Rightarrow> string" where
  "ToLower s = map lower_char s"

definition ToUpper :: "string \<Rightarrow> string" where
  "ToUpper s = map upper_char s"

fun HasPrefix :: "string \<Rightarrow> string \<Rightarrow> bool" where
  "HasPrefix s [] = True"
| "HasPrefix [] (p # ps) = False"
| "HasPrefix (c # cs) (p # ps) = (c = p \<and> HasPrefix cs ps)"

definition HasSuffix :: "string \<Rightarrow> string \<Rightarrow> bool" where
  "HasSuffix s suf = HasPrefix (rev s) (rev suf)"

definition TrimPrefix :: "string \<Rightarrow> string \<Rightarrow> string" where
  "TrimPrefix s p = (if HasPrefix s p then drop (length p) s else s)"

lemma HasPrefix_iff: "HasPrefix s p \<longleftrightarrow> (\<exists>r. s = p @ r)"
  by (induction s p rule: HasPrefix.induct) auto

lemma TrimPrefix_append [simp]: "TrimPrefix (p @ r) p = r"
  by (simp add: TrimPrefix_def HasPrefix_iff)

lemma filter_key_absent:
  "k \<notin> fst ` set xs \<Longrightarrow> filter (\<lambda>x. fst x \<noteq> k) xs = xs"
  "k \<notin> fst ` set xs \<Longrightarrow> filter (\<lambda>(a, r). a \<noteq> k) xs = xs"
  by (auto simp: filter_id_conv intro: rev_image_eqI)

lemma set_updateD: "x \<in> set (AList.update k v m) \<Longrightarrow> x = (k, v) \<or> x \<in> set m"
  by (induction m) (auto split: if_splits)

lemma ball_keys_update: "(\<forall>e \<in> set (AList.update k v m). P (fst e)) \<longleftrightarrow> P k \<and> (\<forall>e \<in> set m. P (fst e))"
  by (induction m) auto

end
