(* ===== verification/Shadow_Book.thy ===== *)
theory Shadow_Book
  imports BG_Prelude
begin

text \<open>
  The order book of the shadow validator, \<^verbatim>\<open>bot-fleet/shadow/validator.go\<close>: orders, fills,
  price levels, the per-symbol shard and its matching operations.

  \<^item> The price levels live in two red-black trees of the package
    \<^verbatim>\<open>github.com/emirpasic/gods\<close>, which is not part of the repository: the tree is the
    parameter \<open>T :: 't rbt_ops\<close> of every operation that uses it, and \<open>price_tree\<close> states the
    documented behaviour the code relies on.
  \<^item> A FIFO level is a \<^verbatim>\<open>container/list\<close> of pointers to orders. An element is the pair of its
    address (a number, fresh for every \<^verbatim>\<open>PushBack\<close>) and the order it points to; \<open>orderMap\<close>
    holds, for an order identifier, the address of its element with the two fields
    \<^verbatim>\<open>removeRestingOrder\<close> reads through the pointer, which never change after \<^verbatim>\<open>PushBack\<close>.
  \<^item> A level is changed in place through a pointer while the tree is iterated; the model
    stores the changed level back under its key.
\<close>

section \<open>Orders, fills and levels\<close>

record Order =
  ID :: int
  Type :: string
  Side :: string
  Price :: int
  Quantity :: int

record Fill =
  OrderID :: int
  FilledQty :: int
  FilledPrice :: int
  MatchedWith :: int

type_synonym element = "nat \<times> Order"

record PriceLevel =
  LevelPrice :: int
  Orders :: "element list"

record elem_ref =
  ref_addr :: nat
  ref_side :: string
  ref_price :: int

fun foldLoop :: "Fill \<Rightarrow> Fill list \<Rightarrow> Fill list \<Rightarrow> Fill list" where
  "foldLoop current [] folded = folded @ [current]"
| "foldLoop current (f # fs) folded =
     (if FilledPrice f = FilledPrice current \<and> MatchedWith f = MatchedWith current
      then foldLoop (current\<lparr>FilledQty := wrap64 (FilledQty current + FilledQty f)\<rparr>) fs folded
      else foldLoop f fs (folded @ [current]))"

definition foldPartials :: "Fill list \<Rightarrow> Fill list" where
  "foldPartials fills =
     (case fills of [] \<Rightarrow> fills | [_] \<Rightarrow> fills | f # g # fs \<Rightarrow> foldLoop f (g # fs) [])"

definition botID :: "int \<Rightarrow> int" where
  "botID orderID = shr32 orderID"

definition isSelfCross :: "int \<Rightarrow> int \<Rightarrow> bool" where
  "isSelfCross incomingID restingID \<longleftrightarrow>
     botID incomingID \<noteq> 0 \<and> botID incomingID = botID restingID"

section \<open>The red-black tree of price levels\<close>

record 't rbt_ops =
  Int64Comparator :: "int \<Rightarrow> int \<Rightarrow> int"
  NewWith :: "(int \<Rightarrow> int \<Rightarrow> int) \<Rightarrow> 't"
  Get :: "'t \<Rightarrow> int \<Rightarrow> PriceLevel option"
  Put :: "'t \<Rightarrow> int \<Rightarrow> PriceLevel \<Rightarrow> 't"
  Remove :: "'t \<Rightarrow> int \<Rightarrow> 't"
  Entries :: "'t \<Rightarrow> (int \<times> PriceLevel) list" \<comment> \<open>the keys and values an \<^verbatim>\<open>Iterator\<close> visits\<close>

definition int64DescComparator :: "'t rbt_ops \<Rightarrow> int \<Rightarrow> int \<Rightarrow> int" where
  "int64DescComparator T a b = - Int64Comparator T a b"

section \<open>The shard\<close>

record 't SymbolShard =
  pendingOrders :: "(int \<times> Order) list"
  orderMap :: "(int \<times> elem_ref) list"
  bids :: 't
  asks :: 't
  expectedFills :: "(int \<times> Fill list) list"
  actualFills :: "(int \<times> Fill list) list"
  expectedQty :: int
  actualQty :: int
  priceCorrectQty :: int
  priorityCorrectQty :: int
  expectedValue :: int
  valueDiff :: int
  phantomQty :: int
  missedFills :: int
  phantomFills :: int
  priorityViolations :: int
  ackViolations :: int
  duplicateOrders :: int
  unknownAcks :: int
  printedMismatches :: int
  nextAddr :: nat \<comment> \<open>the address the next \<^verbatim>\<open>PushBack\<close> allocates\<close>

definition NewSymbolShard :: "'t rbt_ops \<Rightarrow> 't SymbolShard" where
  "NewSymbolShard T =
     \<lparr>pendingOrders = [], orderMap = [],
      bids = NewWith T (int64DescComparator T), asks = NewWith T (Int64Comparator T),
      expectedFills = [], actualFills = [],
      expectedQty = 0, actualQty = 0, priceCorrectQty = 0, priorityCorrectQty = 0,
      expectedValue = 0, valueDiff = 0, phantomQty = 0,
      missedFills = 0, phantomFills = 0, priorityViolations = 0, ackViolations = 0,
      duplicateOrders = 0, unknownAcks = 0, printedMismatches = 0, nextAddr = 0\<rparr>"

definition fillValue :: "Fill \<Rightarrow> int" where
  "fillValue f = wrap64 (FilledQty f * FilledPrice f)"

definition sameFill :: "Fill \<Rightarrow> Fill \<Rightarrow> bool" where
  \<comment> \<open>the comparison of the loop in \<^verbatim>\<open>checkCleanup\<close>\<close>
  "sameFill e a \<longleftrightarrow> FilledQty e = FilledQty a \<and> FilledPrice e = FilledPrice a \<and>
     MatchedWith e = MatchedWith a"

definition checkCleanup :: "int \<Rightarrow> 't SymbolShard \<Rightarrow> 't SymbolShard" where
  "checkCleanup orderID s =
     (if has_key (pendingOrders s) orderID then s
      else if has_key (orderMap s) orderID then s
      else
        let expList = get_or [] (expectedFills s) orderID;
            actList = get_or [] (actualFills s) orderID;
            totalExpQty = sum64 FilledQty expList 0;
            totalActQty = sum64 FilledQty actList 0 in
        if totalExpQty \<noteq> totalActQty then s
        else
          let foldedExp = foldPartials expList; foldedAct = foldPartials actList in
          if length foldedExp \<noteq> length foldedAct then s
          else if \<not> list_all2 sameFill foldedExp foldedAct then s
          else s\<lparr>expectedQty := wrap64 (expectedQty s + totalExpQty),
                 actualQty := wrap64 (actualQty s + totalActQty),
                 priceCorrectQty := wrap64 (priceCorrectQty s + totalExpQty),
                 priorityCorrectQty := wrap64 (priorityCorrectQty s + totalExpQty),
                 expectedValue := wrap64 (expectedValue s + sum64 fillValue foldedExp 0),
                 expectedFills := AList.delete orderID (expectedFills s),
                 actualFills := AList.delete orderID (actualFills s)\<rparr>)"

definition recordExpectedFill :: "int \<Rightarrow> int \<Rightarrow> int \<Rightarrow> int \<Rightarrow> 't SymbolShard \<Rightarrow> 't SymbolShard" where
  "recordExpectedFill orderID qty price matchedWith s =
     s\<lparr>expectedFills := AList.update orderID
         (get_or [] (expectedFills s) orderID @
          [\<lparr>OrderID = orderID, FilledQty = qty, FilledPrice = price, MatchedWith = matchedWith\<rparr>])
         (expectedFills s)\<rparr>"

section \<open>Matching\<close>

text \<open>
  One price level: the inner loop of \<^verbatim>\<open>matchIncoming\<close>. \<open>kept\<close> are the visited elements that
  stay in the level. The result is the level's remaining elements, the remaining quantity
  of the incoming order and the shard.
\<close>

fun matchLevel :: "Order \<Rightarrow> int \<Rightarrow> element list \<Rightarrow> element list \<Rightarrow> int \<Rightarrow> 't SymbolShard \<Rightarrow>
    element list \<times> int \<times> 't SymbolShard" where
  "matchLevel order price [] kept remainingQty s = (kept, remainingQty, s)"
| "matchLevel order price ((e, restingOrder) # rest) kept remainingQty s =
     (if \<not> remainingQty > 0 then (kept @ (e, restingOrder) # rest, remainingQty, s)
      else if isSelfCross (ID order) (ID restingOrder)
        then matchLevel order price rest (kept @ [(e, restingOrder)]) remainingQty s
      else
        let tradeQty = (if Quantity restingOrder < remainingQty then Quantity restingOrder else remainingQty);
            s1 = recordExpectedFill (ID order) tradeQty price (ID restingOrder) s;
            s2 = recordExpectedFill (ID restingOrder) tradeQty price (ID order) s1;
            remainingQty' = wrap64 (remainingQty - tradeQty);
            restingOrder' = restingOrder\<lparr>Quantity := wrap64 (Quantity restingOrder - tradeQty)\<rparr> in
        if Quantity restingOrder' = 0
        then matchLevel order price rest kept remainingQty'
               (checkCleanup (ID restingOrder) (s2\<lparr>orderMap := AList.delete (ID restingOrder) (orderMap s2)\<rparr>))
        else matchLevel order price rest (kept @ [(e, restingOrder')]) remainingQty' s2)"

definition bookSide :: "bool \<Rightarrow> 't SymbolShard \<Rightarrow> 't" where
  "bookSide buy s = (if buy then bids s else asks s)"

definition setBookSide :: "bool \<Rightarrow> 't \<Rightarrow> 't SymbolShard \<Rightarrow> 't SymbolShard" where
  "setBookSide buy t s = (if buy then s\<lparr>bids := t\<rparr> else s\<lparr>asks := t\<rparr>)"

definition beyondLimit :: "bool \<Rightarrow> Order \<Rightarrow> int \<Rightarrow> bool" where
  \<comment> \<open>an incoming buy stops at asks above its price, a sell at bids below it\<close>
  "beyondLimit buy order price \<longleftrightarrow> (if buy then Price order < price else Price order > price)"

text \<open>The outer loop: the levels of the opposite side in iteration order.\<close>

fun matchLevels :: "'t rbt_ops \<Rightarrow> bool \<Rightarrow> Order \<Rightarrow> bool \<Rightarrow> (int \<times> PriceLevel) list \<Rightarrow> int list \<Rightarrow> int \<Rightarrow>
    't SymbolShard \<Rightarrow> int list \<times> int \<times> 't SymbolShard" where
  "matchLevels T buy order useLimitPrice [] emptyLevels remainingQty s = (emptyLevels, remainingQty, s)"
| "matchLevels T buy order useLimitPrice ((price, level) # iter) emptyLevels remainingQty s =
     (if \<not> remainingQty > 0 then (emptyLevels, remainingQty, s)
      else if useLimitPrice \<and> beyondLimit buy order price then (emptyLevels, remainingQty, s)
      else case matchLevel order price (Orders level) [] remainingQty s of
        (kept, remainingQty', s1) \<Rightarrow>
          let s2 = setBookSide (\<not> buy) (Put T (bookSide (\<not> buy) s1) price (level\<lparr>Orders := kept\<rparr>)) s1 in
          matchLevels T buy order useLimitPrice iter
            (if kept = [] then emptyLevels @ [price] else emptyLevels) remainingQty' s2)"

definition removeLevels :: "'t rbt_ops \<Rightarrow> bool \<Rightarrow> int list \<Rightarrow> 't SymbolShard \<Rightarrow> 't SymbolShard" where
  "removeLevels T buy prices s = setBookSide buy (foldl (Remove T) (bookSide buy s) prices) s"

definition matchSide :: "'t rbt_ops \<Rightarrow> bool \<Rightarrow> Order \<Rightarrow> bool \<Rightarrow> 't SymbolShard \<Rightarrow> int \<times> 't SymbolShard" where
  "matchSide T buy order useLimitPrice s =
     (case matchLevels T buy order useLimitPrice (Entries T (bookSide (\<not> buy) s)) [] (Quantity order) s of
        (emptyLevels, remainingQty, s1) \<Rightarrow> (remainingQty, removeLevels T (\<not> buy) emptyLevels s1))"

definition matchIncoming :: "'t rbt_ops \<Rightarrow> Order \<Rightarrow> bool \<Rightarrow> 't SymbolShard \<Rightarrow> int \<times> 't SymbolShard" where
  "matchIncoming T order useLimitPrice s =
     (let cleanSide = ToLower (Side order) in
      if cleanSide = ''buy'' then matchSide T True order useLimitPrice s
      else if cleanSide = ''sell'' then matchSide T False order useLimitPrice s
      else (Quantity order, s))"

definition addOrderToBook :: "'t rbt_ops \<Rightarrow> Order \<Rightarrow> bool \<Rightarrow> 't SymbolShard \<Rightarrow> 't SymbolShard" where
  "addOrderToBook T order buy s =
     (let tree = bookSide buy s;
          level = (case Get T tree (Price order) of
                     Some level \<Rightarrow> level
                   | None \<Rightarrow> \<lparr>LevelPrice = Price order, Orders = []\<rparr>);
          elem = nextAddr s;
          level' = level\<lparr>Orders := Orders level @ [(elem, order)]\<rparr> in
      setBookSide buy (Put T tree (Price order) level')
        (s\<lparr>nextAddr := Suc elem,
           orderMap := AList.update (ID order)
             \<lparr>ref_addr = elem, ref_side = Side order, ref_price = Price order\<rparr> (orderMap s)\<rparr>))"

definition matchLimitOrder :: "'t rbt_ops \<Rightarrow> Order \<Rightarrow> 't SymbolShard \<Rightarrow> 't SymbolShard" where
  "matchLimitOrder T order s =
     (case matchIncoming T order True s of
        (remainingQty, s1) \<Rightarrow>
          if remainingQty \<le> 0 then s1
          else
            let cleanSide = ToLower (Side order);
                order' = order\<lparr>Quantity := remainingQty\<rparr> in
            if cleanSide = ''buy'' then addOrderToBook T order' True s1
            else if cleanSide = ''sell'' then addOrderToBook T order' False s1
            else s1)"

definition matchMarketOrder :: "'t rbt_ops \<Rightarrow> Order \<Rightarrow> 't SymbolShard \<Rightarrow> 't SymbolShard" where
  "matchMarketOrder T order s = snd (matchIncoming T order False s)"

definition hasRestingOrder :: "int \<Rightarrow> 't SymbolShard \<Rightarrow> bool" where
  "hasRestingOrder orderID s = has_key (orderMap s) orderID"

definition removeRestingOrder :: "'t rbt_ops \<Rightarrow> int \<Rightarrow> 't SymbolShard \<Rightarrow> bool \<times> 't SymbolShard" where
  "removeRestingOrder T orderID s =
     (case map_of (orderMap s) orderID of
        None \<Rightarrow> (False, s)
      | Some elem \<Rightarrow>
          let buy = (ToLower (ref_side elem) = ''buy'');
              tree = bookSide buy s in
          case Get T tree (ref_price elem) of
            None \<Rightarrow> (False, s\<lparr>orderMap := AList.delete orderID (orderMap s)\<rparr>)
          | Some level \<Rightarrow>
              let level' = level\<lparr>Orders := filter (\<lambda>(a, _). a \<noteq> ref_addr elem) (Orders level)\<rparr>;
                  tree' = (if Orders level' = [] then Remove T tree (ref_price elem)
                           else Put T tree (ref_price elem) level') in
              (True, setBookSide buy tree' (s\<lparr>orderMap := AList.delete orderID (orderMap s)\<rparr>)))"

section \<open>The tree interface\<close>

definition strict_cmp :: "(int \<Rightarrow> int \<Rightarrow> int) \<Rightarrow> bool" where
  "strict_cmp c \<longleftrightarrow> (\<forall>a b. (c a b = 0) = (a = b)) \<and> (\<forall>a b. (c a b < 0) = (0 < c b a)) \<and>
     (\<forall>a b d. c a b < 0 \<longrightarrow> c b d < 0 \<longrightarrow> c a d < 0)"

locale price_tree =
  fixes T :: "'t rbt_ops"
    and ok :: "'t \<Rightarrow> bool" \<comment> \<open>trees built by the package\<close>
    and cmpOf :: "'t \<Rightarrow> int \<Rightarrow> int \<Rightarrow> int" \<comment> \<open>the comparator the tree was created with\<close>
  assumes comparator: "Int64Comparator T a b = (if a < b then - 1 else if b < a then 1 else 0)"
    and new_ok: "strict_cmp c \<Longrightarrow> ok (NewWith T c)"
    and new_entries: "Entries T (NewWith T c) = []"
    and new_cmp: "cmpOf (NewWith T c) = c"
    and ok_cmp: "ok t \<Longrightarrow> strict_cmp (cmpOf t)"
    and entries_sorted: "ok t \<Longrightarrow> sorted_wrt (\<lambda>a b. cmpOf t a b < 0) (map fst (Entries T t))"
    and get_entries: "ok t \<Longrightarrow> Get T t k = map_of (Entries T t) k"
    and put_ok: "ok t \<Longrightarrow> ok (Put T t k v)"
    and put_cmp: "ok t \<Longrightarrow> cmpOf (Put T t k v) = cmpOf t"
    and put_map: "ok t \<Longrightarrow> map_of (Entries T (Put T t k v)) = (map_of (Entries T t))(k \<mapsto> v)"
    and remove_ok: "ok t \<Longrightarrow> ok (Remove T t k)"
    and remove_cmp: "ok t \<Longrightarrow> cmpOf (Remove T t k) = cmpOf t"
    and remove_map: "ok t \<Longrightarrow> map_of (Entries T (Remove T t k)) = (map_of (Entries T t))(k := None)"

end
