(* ===== verification/Price_Tree.thy ===== *)
theory Price_Tree
  imports Shadow_Book
begin

text \<open>
  Consequences of the tree interface \<open>price_tree\<close> as equations on the list of entries, and
  an ordered map that satisfies it (a comparator with a list of entries sorted by it), on
  which the shadow book can be evaluated.
\<close>

section \<open>An executable ordered map\<close>

type_synonym alist_tree = "(int \<Rightarrow> int \<Rightarrow> int) \<times> (int \<times> PriceLevel) list"

fun put_sorted :: "(int \<Rightarrow> int \<Rightarrow> int) \<Rightarrow> int \<Rightarrow> 'v \<Rightarrow> (int \<times> 'v) list \<Rightarrow> (int \<times> 'v) list" where
  "put_sorted c k v [] = [(k, v)]"
| "put_sorted c k v ((k', v') # es) =
     (if c k k' < 0 then (k, v) # (k', v') # es
      else if k = k' then (k, v) # es
      else (k', v') # put_sorted c k v es)"

definition alist_ops :: "alist_tree rbt_ops" where
  "alist_ops =
     \<lparr>Int64Comparator = (\<lambda>a b. if a < b then - 1 else if b < a then 1 else 0),
      NewWith = (\<lambda>c. (c, [])),
      Get = (\<lambda>t k. map_of (snd t) k),
      Put = (\<lambda>t k v. (fst t, put_sorted (fst t) k v (snd t))),
      Remove = (\<lambda>t k. (fst t, filter (\<lambda>e. fst e \<noteq> k) (snd t))),
      Entries = snd\<rparr>"

definition alist_ok :: "alist_tree \<Rightarrow> bool" where
  "alist_ok t \<longleftrightarrow> strict_cmp (fst t) \<and> sorted_wrt (\<lambda>a b. fst t a b < 0) (map fst (snd t))"

section \<open>Sorted lists are determined by their elements\<close>

lemma sorted_wrt_unique:
  assumes "sorted_wrt R xs" "sorted_wrt R ys" "set xs = set ys"
    and asym: "\<And>a b. R a b \<Longrightarrow> \<not> R b a"
  shows "xs = ys"
  using assms(1-3)
proof (induction xs arbitrary: ys)
  case (Cons x xs)
  then obtain y ys' where ys: "ys = y # ys'" by (cases ys) auto
  have "x = y"
  proof (rule ccontr)
    assume "x \<noteq> y"
    then have "x \<in> set ys'" "y \<in> set xs" using Cons.prems(3) ys by auto
    then have "R y x" "R x y" using Cons.prems(1,2) ys by auto
    then show False using asym by blast
  qed
  moreover have "x \<notin> set xs" "y \<notin> set ys'" using Cons.prems(1,2) ys asym by (metis sorted_wrt.simps(2))+
  ultimately have "set xs = set ys'" using Cons.prems(3) ys by (metis insert_ident list.simps(15))
  then show ?case using Cons.IH [of ys'] Cons.prems ys \<open>x = y\<close> by simp
qed simp

lemma strict_cmp_asym: "strict_cmp c \<Longrightarrow> c a b < 0 \<Longrightarrow> \<not> c b a < 0"
  by (metis strict_cmp_def order_less_asym)

lemma strict_cmp_irrefl: "strict_cmp c \<Longrightarrow> \<not> c a a < 0"
  by (metis strict_cmp_asym)

lemma strict_cmp_trans: "strict_cmp c \<Longrightarrow> c a b < 0 \<Longrightarrow> c b d < 0 \<Longrightarrow> c a d < 0"
  by (metis strict_cmp_def)

lemma strict_cmp_total: "strict_cmp c \<Longrightarrow> a \<noteq> b \<Longrightarrow> c a b < 0 \<or> c b a < 0"
  by (metis strict_cmp_def linorder_neqE_linordered_idom)

lemma sorted_keys_distinct:
  assumes "strict_cmp c" "sorted_wrt (\<lambda>a b. c a b < 0) ks"
  shows "distinct ks"
  using assms(2) by (induction ks) (auto simp: strict_cmp_irrefl [OF assms(1)])

lemma entries_unique:
  assumes c: "strict_cmp c"
    and "sorted_wrt (\<lambda>a b. c a b < 0) (map fst es)" "sorted_wrt (\<lambda>a b. c a b < 0) (map fst es')"
    and m: "map_of es = map_of es'"
  shows "es = es'"
proof -
  have d: "distinct (map fst es)" "distinct (map fst es')"
    using assms sorted_keys_distinct by blast+
  have "fst ` set es = fst ` set es'" using m by (metis dom_map_of_conv_image_fst)
  then have k: "map fst es = map fst es'"
    using assms(2,3) strict_cmp_asym [OF c] by (intro sorted_wrt_unique [where R = "\<lambda>a b. c a b < 0"]) auto
  have "es = map (\<lambda>k. (k, the (map_of es k))) (map fst es)" if "distinct (map fst es)" for es :: "(int \<times> 'b) list"
    using that by (auto intro!: map_idI [symmetric] simp: comp_def)
  from this [OF d(1)] this [OF d(2)] show ?thesis using k m by metis
qed

lemma map_of_filter_ne: "map_of (filter (\<lambda>e. fst e \<noteq> k) es) = (map_of es)(k := None)"
  by (induction es) (auto simp: fun_eq_iff)

lemma map_of_replace:
  "k \<notin> fst ` set xs \<Longrightarrow> map_of (xs @ (k, v) # ys) = (map_of (xs @ (k, v0) # ys))(k \<mapsto> v)"
  by (induction xs) (auto simp: fun_eq_iff)

lemma map_of_insert_mid:
  "k \<notin> fst ` set xs \<Longrightarrow> map_of (xs @ (k, v) # ys) = (map_of (xs @ ys))(k \<mapsto> v)"
  by (induction xs) (auto simp: fun_eq_iff)

section \<open>Derived equations\<close>

context price_tree
begin

lemma desc_comparator: "int64DescComparator T a b = (if a < b then 1 else if b < a then - 1 else 0)"
  by (simp add: int64DescComparator_def comparator)

lemma strict_comparators: "strict_cmp (Int64Comparator T)" "strict_cmp (int64DescComparator T)"
  by (auto simp: strict_cmp_def comparator desc_comparator split: if_splits)

lemma keys_distinct: "ok t \<Longrightarrow> distinct (map fst (Entries T t))"
  using sorted_keys_distinct [OF ok_cmp entries_sorted] .

lemma entries_eqI:
  assumes "ok t" "sorted_wrt (\<lambda>a b. cmpOf t a b < 0) (map fst es)" "map_of (Entries T t) = map_of es"
  shows "Entries T t = es"
  using entries_unique [OF ok_cmp entries_sorted] assms by blast

lemma put_existing:
  assumes "ok t" "Entries T t = xs @ (k, v0) # ys"
  shows "Entries T (Put T t k v) = xs @ (k, v) # ys"
proof (rule entries_eqI)
  show "ok (Put T t k v)" using assms(1) by (rule put_ok)
  show "sorted_wrt (\<lambda>a b. cmpOf (Put T t k v) a b < 0) (map fst (xs @ (k, v) # ys))"
    using entries_sorted [OF assms(1)] assms by (simp add: put_cmp)
  have "k \<notin> fst ` set xs" using keys_distinct [OF assms(1)] assms(2) by auto
  then show "map_of (Entries T (Put T t k v)) = map_of (xs @ (k, v) # ys)"
    using assms map_of_replace [of k xs v ys v0] by (metis put_map)
qed

lemma remove_entries:
  assumes "ok t"
  shows "Entries T (Remove T t k) = filter (\<lambda>e. fst e \<noteq> k) (Entries T t)"
proof (rule entries_eqI)
  show "ok (Remove T t k)" using assms by (rule remove_ok)
  show "sorted_wrt (\<lambda>a b. cmpOf (Remove T t k) a b < 0) (map fst (filter (\<lambda>e. fst e \<noteq> k) (Entries T t)))"
    using entries_sorted [OF assms] assms by (simp add: remove_cmp sorted_wrt_map sorted_wrt_filter)
  show "map_of (Entries T (Remove T t k)) = map_of (filter (\<lambda>e. fst e \<noteq> k) (Entries T t))"
    using assms by (simp add: remove_map map_of_filter_ne)
qed

lemma put_new:
  assumes "ok t" "k \<notin> fst ` set (Entries T t)"
  obtains xs ys where "Entries T t = xs @ ys" "Entries T (Put T t k v) = xs @ (k, v) # ys"
    "\<And>p l. (p, l) \<in> set xs \<Longrightarrow> cmpOf t p k < 0" "\<And>p l. (p, l) \<in> set ys \<Longrightarrow> cmpOf t k p < 0"
proof -
  define xs where "xs = takeWhile (\<lambda>e. cmpOf t (fst e) k < 0) (Entries T t)"
  define ys where "ys = dropWhile (\<lambda>e. cmpOf t (fst e) k < 0) (Entries T t)"
  have split: "Entries T t = xs @ ys" by (simp add: xs_def ys_def)
  have s: "sorted_wrt (\<lambda>a b. cmpOf t a b < 0) (map fst xs @ map fst ys)"
    using entries_sorted [OF assms(1)] split by simp
  have before: "cmpOf t p k < 0" if "(p, l) \<in> set xs" for p l
    using set_takeWhileD [OF that [unfolded xs_def]] by simp
  have after: "cmpOf t k p < 0" if "(p, l) \<in> set ys" for p l
  proof -
    have ne: "ys \<noteq> []" using that by auto
    then obtain p0 l0 zs where ys: "ys = (p0, l0) # zs" by (metis neq_Nil_conv surj_pair)
    have "\<not> cmpOf t p0 k < 0" using hd_dropWhile [OF ne [unfolded ys_def]] ys by (simp add: ys_def)
    moreover have "p0 \<noteq> k" using assms(2) split ys by auto
    ultimately have 0: "cmpOf t k p0 < 0" using strict_cmp_total [OF ok_cmp [OF assms(1)]] by blast
    have "p = p0 \<or> cmpOf t p0 p < 0" using s that unfolding ys by (auto simp: sorted_wrt_append)
    then show ?thesis using 0 strict_cmp_trans [OF ok_cmp [OF assms(1)]] by blast
  qed
  have "Entries T (Put T t k v) = xs @ (k, v) # ys"
  proof (rule entries_eqI)
    show "ok (Put T t k v)" using assms(1) by (rule put_ok)
    show "sorted_wrt (\<lambda>a b. cmpOf (Put T t k v) a b < 0) (map fst (xs @ (k, v) # ys))"
      using s before after assms(1) by (auto simp: put_cmp sorted_wrt_append)
    have "k \<notin> fst ` set xs" using assms(2) split by auto
    then show "map_of (Entries T (Put T t k v)) = map_of (xs @ (k, v) # ys)"
      using assms(1) split map_of_insert_mid [of k xs v ys] by (metis put_map)
  qed
  then show thesis using that [of xs ys] split before after by metis
qed

end

section \<open>The executable map satisfies the interface\<close>

lemma map_of_put_sorted: "map_of (put_sorted c k v es) = (map_of es)(k \<mapsto> v)"
  by (induction es) (auto simp: fun_eq_iff)

lemma keys_put_sorted: "fst ` set (put_sorted c k v es) = insert k (fst ` set es)"
  by (simp add: dom_map_of_conv_image_fst [symmetric] map_of_put_sorted)

lemma sorted_put_sorted:
  assumes "strict_cmp c" "sorted_wrt (\<lambda>a b. c a b < 0) (map fst es)"
  shows "sorted_wrt (\<lambda>a b. c a b < 0) (map fst (put_sorted c k v es))"
  using assms(2)
proof (induction es)
  case (Cons e es)
  obtain k' v' where e: "e = (k', v')" by fastforce
  have ih: "sorted_wrt (\<lambda>a b. c a b < 0) (map fst (put_sorted c k v es))" using Cons by simp
  show ?case
  proof (cases "c k k' < 0")
    case True
    then show ?thesis using Cons.prems e strict_cmp_trans [OF assms(1) True] by auto
  next
    case False
    then show ?thesis
      using Cons.prems e ih strict_cmp_total [OF assms(1), of k k'] keys_put_sorted [of c k v es] by auto
  qed
qed simp

interpretation alist: price_tree alist_ops alist_ok fst
proof unfold_locales
  fix t :: alist_tree and k :: int and v :: PriceLevel
  assume ok: "alist_ok t"
  show "alist_ok (Put alist_ops t k v)"
    using ok by (simp add: alist_ok_def alist_ops_def sorted_put_sorted)
  show "alist_ok (Remove alist_ops t k)"
    using ok by (simp add: alist_ok_def alist_ops_def sorted_wrt_map sorted_wrt_filter)
  show "map_of (Entries alist_ops (Remove alist_ops t k)) = (map_of (Entries alist_ops t))(k := None)"
    by (simp add: alist_ops_def map_of_filter_ne)
qed (auto simp: alist_ops_def alist_ok_def map_of_put_sorted)

end
