(* ===== verification/Shadow_Match.thy ===== *)
theory Shadow_Match
  imports Price_Tree
begin

text \<open>
  The matching of the shadow book against its specification. The specification sees one
  side of the book as the list of its resting orders in price-time priority and matches an
  incoming order in one pass over it (\<open>sweep\<close>). \<open>matchSide_sweep\<close> shows that the loops over
  tree levels and level elements compute exactly that, and that the shard changes only by
  the recorded trades (\<open>applyTrades\<close>).
\<close>

section \<open>Specification: one pass over the resting orders\<close>

record trade =
  t_resting :: int
  t_qty :: int
  t_price :: int
  t_done :: bool \<comment> \<open>the resting order is filled completely\<close>

fun sweep :: "(Order \<Rightarrow> bool) \<Rightarrow> int \<Rightarrow> int \<Rightarrow> element list \<Rightarrow> element list \<times> int \<times> trade list" where
  "sweep stop inc remaining [] = ([], remaining, [])"
| "sweep stop inc remaining ((a, r) # rs) =
     (if remaining \<le> 0 \<or> stop r then ((a, r) # rs, remaining, [])
      else if isSelfCross inc (ID r)
        then (case sweep stop inc remaining rs of (bk, rm, ts) \<Rightarrow> ((a, r) # bk, rm, ts))
      else
        let q = min remaining (Quantity r);
            t = \<lparr>t_resting = ID r, t_qty = q, t_price = Price r, t_done = (q = Quantity r)\<rparr> in
        case sweep stop inc (remaining - q) rs of (bk, rm, ts) \<Rightarrow>
          (if q = Quantity r then bk else (a, r\<lparr>Quantity := Quantity r - q\<rparr>) # bk, rm, t # ts))"

definition applyTrade :: "int \<Rightarrow> trade \<Rightarrow> 't SymbolShard \<Rightarrow> 't SymbolShard" where
  "applyTrade inc t s =
     (let s2 = recordExpectedFill (t_resting t) (t_qty t) (t_price t) inc
                 (recordExpectedFill inc (t_qty t) (t_price t) (t_resting t) s) in
      if t_done t then checkCleanup (t_resting t) (s2\<lparr>orderMap := AList.delete (t_resting t) (orderMap s2)\<rparr>)
      else s2)"

definition applyTrades :: "int \<Rightarrow> trade list \<Rightarrow> 't SymbolShard \<Rightarrow> 't SymbolShard" where
  "applyTrades inc ts s = fold (applyTrade inc) ts s"

definition flat :: "(int \<times> PriceLevel) list \<Rightarrow> element list" where
  "flat es = concat (map (\<lambda>(p, l). Orders l) es)"

definition level_ok :: "bool \<Rightarrow> int \<times> PriceLevel \<Rightarrow> bool" where
  \<comment> \<open>what every level of a book side satisfies\<close>
  "level_ok buy e \<longleftrightarrow> LevelPrice (snd e) = fst e \<and> Orders (snd e) \<noteq> [] \<and>
     (\<forall>(a, r) \<in> set (Orders (snd e)). Price r = fst e \<and> 0 < Quantity r \<and> in64 (Quantity r) \<and>
        ToLower (Side r) = (if buy then ''buy'' else ''sell''))"

section \<open>Frame facts of the shard operations\<close>

named_theorems frame \<open>fields an operation leaves unchanged\<close>

lemma recordExpectedFill_frame [frame]:
  "bids (recordExpectedFill i q p m s) = bids s" "asks (recordExpectedFill i q p m s) = asks s"
  "orderMap (recordExpectedFill i q p m s) = orderMap s"
  "pendingOrders (recordExpectedFill i q p m s) = pendingOrders s"
  "nextAddr (recordExpectedFill i q p m s) = nextAddr s"
  "actualFills (recordExpectedFill i q p m s) = actualFills s"
  by (simp_all add: recordExpectedFill_def)

lemma checkCleanup_frame [frame]:
  "bids (checkCleanup i s) = bids s" "asks (checkCleanup i s) = asks s"
  "orderMap (checkCleanup i s) = orderMap s"
  "pendingOrders (checkCleanup i s) = pendingOrders s"
  "nextAddr (checkCleanup i s) = nextAddr s"
  by (simp_all add: checkCleanup_def Let_def)

lemma setBookSide_frame [frame]:
  "orderMap (setBookSide b t s) = orderMap s" "pendingOrders (setBookSide b t s) = pendingOrders s"
  "nextAddr (setBookSide b t s) = nextAddr s"
  "expectedFills (setBookSide b t s) = expectedFills s" "actualFills (setBookSide b t s) = actualFills s"
  by (simp_all add: setBookSide_def)

lemma bookSide_setBookSide [simp]:
  "bookSide b (setBookSide b' t s) = (if b = b' then t else bookSide b s)"
  by (auto simp: bookSide_def setBookSide_def)

lemma setBookSide_setBookSide [simp]: "setBookSide b t (setBookSide b t' s) = setBookSide b t s"
  by (simp add: setBookSide_def)

lemma setBookSide_id [simp]: "setBookSide b (bookSide b s) s = s"
  by (simp add: setBookSide_def bookSide_def)

lemma bookSide_frame [frame]:
  "bookSide b (recordExpectedFill i q p m s) = bookSide b s"
  "bookSide b (checkCleanup i s) = bookSide b s"
  "bookSide b (s\<lparr>orderMap := m'\<rparr>) = bookSide b s"
  "bookSide b (s\<lparr>nextAddr := a\<rparr>) = bookSide b s"
  by (simp_all add: bookSide_def frame)

text \<open>The fills side of a shard does not look at the books: the operations commute.\<close>

lemma setBookSide_commute:
  "recordExpectedFill i q p m (setBookSide b t s) = setBookSide b t (recordExpectedFill i q p m s)"
  "checkCleanup i (setBookSide b t s) = setBookSide b t (checkCleanup i s)"
  "(setBookSide b t s)\<lparr>orderMap := m'\<rparr> = setBookSide b t (s\<lparr>orderMap := m'\<rparr>)"
  by (simp_all add: setBookSide_def recordExpectedFill_def checkCleanup_def Let_def)

lemma applyTrade_setBookSide:
  "applyTrade inc t (setBookSide b tr s) = setBookSide b tr (applyTrade inc t s)"
  by (simp add: applyTrade_def Let_def setBookSide_commute frame)

lemma applyTrades_setBookSide:
  "applyTrades inc ts (setBookSide b tr s) = setBookSide b tr (applyTrades inc ts s)"
  unfolding applyTrades_def
  by (induction ts arbitrary: s) (simp_all add: applyTrade_setBookSide)

lemma applyTrade_bookSide [frame]: "bookSide b (applyTrade inc t s) = bookSide b s"
  by (simp add: applyTrade_def Let_def frame)

lemma applyTrades_bookSide [frame]: "bookSide b (applyTrades inc ts s) = bookSide b s"
  unfolding applyTrades_def by (induction ts arbitrary: s) (simp_all add: frame)

lemma applyTrades_simps [simp]:
  "applyTrades inc [] s = s"
  "applyTrades inc (t # ts) s = applyTrades inc ts (applyTrade inc t s)"
  "applyTrades inc (ts @ us) s = applyTrades inc us (applyTrades inc ts s)"
  by (simp_all add: applyTrades_def)

section \<open>One level\<close>

lemma sweep_stops: "remaining \<le> 0 \<Longrightarrow> sweep stop inc remaining els = (els, remaining, [])"
  by (cases els) auto

lemma sweep_ConsE [consumes 1, case_names stop self trade]:
  assumes "sweep stop inc rem0 ((a, r) # rs) = (bk, rm, ts)"
  obtains "rem0 \<le> 0 \<or> stop r" "bk = (a, r) # rs" "rm = rem0" "ts = []"
  | bk1 where "0 < rem0" "\<not> stop r" "isSelfCross inc (ID r)" "sweep stop inc rem0 rs = (bk1, rm, ts)"
      "bk = (a, r) # bk1"
  | q t bk1 ts1 where "0 < rem0" "\<not> stop r" "\<not> isSelfCross inc (ID r)" "q = min rem0 (Quantity r)"
      "t = \<lparr>t_resting = ID r, t_qty = q, t_price = Price r, t_done = (q = Quantity r)\<rparr>"
      "sweep stop inc (rem0 - q) rs = (bk1, rm, ts1)"
      "bk = (if q = Quantity r then bk1 else (a, r\<lparr>Quantity := Quantity r - q\<rparr>) # bk1)" "ts = t # ts1"
proof -
  consider "rem0 \<le> 0 \<or> stop r" | "0 < rem0" "\<not> stop r" "isSelfCross inc (ID r)"
    | "0 < rem0" "\<not> stop r" "\<not> isSelfCross inc (ID r)" by linarith
  then show thesis
  proof cases
    case 1
    then have "sweep stop inc rem0 ((a, r) # rs) = ((a, r) # rs, rem0, [])" by auto
    then show ?thesis using assms by (intro that(1) [OF 1]) simp_all
  next
    case 2
    obtain bk1 rm1 ts1 where sw: "sweep stop inc rem0 rs = (bk1, rm1, ts1)" by (metis prod_cases3)
    then have "sweep stop inc rem0 ((a, r) # rs) = ((a, r) # bk1, rm1, ts1)" using 2 by simp
    then have "bk = (a, r) # bk1" "rm = rm1" "ts = ts1" using assms by (simp_all del: sweep.simps)
    then show ?thesis using sw by (intro that(2) [OF 2]) simp_all
  next
    case 3
    obtain bk1 rm1 ts1 where sw: "sweep stop inc (rem0 - min rem0 (Quantity r)) rs = (bk1, rm1, ts1)" by (metis prod_cases3)
    then show ?thesis using assms 3 by (intro that(3) [OF 3 refl refl]) (auto simp: Let_def)
  qed
qed

definition posQty :: "element list \<Rightarrow> bool" where
  "posQty els \<longleftrightarrow> (\<forall>(a, r) \<in> set els. 0 < Quantity r \<and> in64 (Quantity r))"

lemma posQty_simps [simp]:
  "posQty []" "posQty ((a, r) # els) \<longleftrightarrow> 0 < Quantity r \<and> in64 (Quantity r) \<and> posQty els"
  "posQty (xs @ ys) \<longleftrightarrow> posQty xs \<and> posQty ys"
  by (auto simp: posQty_def)

lemma min_pos_sub:
  assumes "0 < (x::int)" "0 < y" "in64 x" "in64 y"
  shows "in64 (x - min x y)" "wrap64 (x - min x y) = x - min x y" "wrap64 (y - min x y) = y - min x y"
  using assms by (auto simp: in64_def min_def intro!: wrap64_id)

lemma matchLevel_sweep:
  fixes s :: "'t SymbolShard"
  assumes "posQty els" "\<forall>(a, r) \<in> set els. Price r = price" "in64 rem0"
    and "sweep (\<lambda>_. False) (ID order) rem0 els = (bk, rm, ts)"
  shows "matchLevel order price els kept rem0 s = (kept @ bk, rm, applyTrades (ID order) ts s)"
  using assms
proof (induction els arbitrary: kept rem0 s bk rm ts)
  case (Cons e els)
  obtain a r where e: "e = (a, r)" by fastforce
  have r: "Price r = price" "0 < Quantity r" "in64 (Quantity r)" using Cons.prems(1,2) e by auto
  have els: "posQty els" "\<forall>(a, r) \<in> set els. Price r = price" using Cons.prems(1,2) e by auto
  from Cons.prems(4) [unfolded e] show ?case
  proof (cases rule: sweep_ConsE)
    case stop
    then show ?thesis by (simp add: e)
  next
    case (self bk1)
    then show ?thesis using Cons.IH [OF els Cons.prems(3) self(4)] by (simp add: e)
  next
    case (trade q t bk1 ts1)
    note w = min_pos_sub [OF trade(1) r(2) Cons.prems(3) r(3), folded trade(4)]
    have tq: "(if Quantity r < rem0 then Quantity r else rem0) = q" by (auto simp: trade(4))
    show ?thesis
      using trade r(1) w Cons.IH [OF els w(1) trade(6)]
      by (auto simp: e tq Let_def applyTrade_def frame)
  qed
qed simp

lemma sweep_append:
  assumes "sweep stop inc rem0 xs = (bk1, rm1, ts1)" "\<forall>(a, r) \<in> set xs. \<not> stop r"
    and "sweep stop inc rm1 ys = (bk2, rm2, ts2)"
  shows "sweep stop inc rem0 (xs @ ys) = (bk1 @ bk2, rm2, ts1 @ ts2)"
  using assms
proof (induction xs arbitrary: rem0 bk1 ts1)
  case (Cons e xs)
  obtain a r where e: "e = (a, r)" by fastforce
  have ns: "\<forall>(a, r) \<in> set xs. \<not> stop r" "\<not> stop r" using Cons.prems(2) e by auto
  from Cons.prems(1) [unfolded e] show ?case
  proof (cases rule: sweep_ConsE)
    case stop
    then show ?thesis using ns Cons.prems(3) by (auto simp: e sweep_stops)
  next
    case (self bk1')
    then show ?thesis using Cons.IH [OF self(4) ns(1) Cons.prems(3)] by (simp add: e)
  next
    case (trade q t bk1' ts1')
    then show ?thesis using Cons.IH [OF trade(6) ns(1) Cons.prems(3)] by (auto simp: e Let_def)
  qed
qed simp

lemma sweep_cong:
  "\<forall>(a, r) \<in> set xs. stop r = stop' r \<Longrightarrow> sweep stop inc rem0 xs = sweep stop' inc rem0 xs"
  by (induction xs arbitrary: rem0) (auto simp: Let_def split: prod.splits)

lemma sweep_in64:
  assumes "sweep stop inc rem0 xs = (bk, rm, ts)" "posQty xs" "in64 rem0"
  shows "in64 rm \<and> rm \<le> rem0 \<and> (0 \<le> rem0 \<longrightarrow> 0 \<le> rm)"
  using assms
proof (induction xs arbitrary: rem0 bk ts)
  case (Cons e xs)
  obtain a r where e: "e = (a, r)" by fastforce
  from Cons.prems(1) [unfolded e] show ?case
  proof (cases rule: sweep_ConsE)
    case (trade q t bk1' ts1')
    have q: "in64 (rem0 - q)" "0 < q" "q \<le> rem0"
      using min_pos_sub(1) trade(1,4) Cons.prems(2,3) e by simp_all
    then show ?thesis using Cons.IH [OF trade(6)] Cons.prems(2) e by force
  qed (use Cons e in auto)
qed simp

lemma sweep_orders:
  assumes "sweep stop inc rem0 xs = (bk, rm, ts)" "posQty xs" "(a, r') \<in> set bk"
  shows "\<exists>r. (a, r) \<in> set xs \<and> r' = r\<lparr>Quantity := Quantity r'\<rparr> \<and> 0 < Quantity r' \<and> Quantity r' \<le> Quantity r"
  using assms
proof (induction xs arbitrary: rem0 bk ts)
  case (Cons e xs)
  obtain b r where e: "e = (b, r)" by fastforce
  have same: "\<exists>r. (a, r) \<in> set ys \<and> r' = r\<lparr>Quantity := Quantity r'\<rparr> \<and> 0 < Quantity r' \<and> Quantity r' \<le> Quantity r"
    if "(a, r') \<in> set ys" "posQty ys" for ys
    using that by (intro exI [of _ r']) (auto simp: posQty_def)
  have pos: "posQty xs" "0 < Quantity r" using Cons.prems(2) e by auto
  from Cons.prems(1) [unfolded e] show ?case
  proof (cases rule: sweep_ConsE)
    case stop
    then show ?thesis using same [of "e # xs"] Cons.prems e by simp
  next
    case (self bk1)
    then show ?thesis using Cons.IH [OF self(4) pos(1)] same [of "[e]"] Cons.prems(2,3) e by auto
  next
    case (trade q t bk1 ts1)
    show ?thesis
    proof (cases "(a, r') \<in> set bk1")
      case True
      then show ?thesis using Cons.IH [OF trade(6) pos(1)] by auto
    next
      case False
      then have "a = b" "r' = r\<lparr>Quantity := Quantity r - q\<rparr>" "q \<noteq> Quantity r"
        using trade(7) Cons.prems(3) by (auto split: if_splits)
      moreover have "0 < q" "q \<le> Quantity r" using trade(1,4) pos(2) by simp_all
      ultimately show ?thesis using e by (intro exI [of _ r]) auto
    qed
  qed
qed simp

lemma sweep_addrs:
  "sweep stop inc rem0 xs = (bk, rm, ts) \<Longrightarrow>
     set (map fst bk) \<subseteq> set (map fst xs) \<and> (distinct (map fst xs) \<longrightarrow> distinct (map fst bk))"
proof (induction xs arbitrary: rem0 bk ts)
  case (Cons e xs)
  obtain b r where e: "e = (b, r)" by fastforce
  from Cons.prems [unfolded e] show ?case
  proof (cases rule: sweep_ConsE)
    case stop
    then show ?thesis by (simp add: e)
  next
    case (self bk1)
    then show ?thesis using Cons.IH [OF self(4)] by (auto simp: e)
  next
    case (trade q t bk1 ts1)
    then show ?thesis using Cons.IH [OF trade(6)] by (auto simp: e)
  qed
qed simp

lemma level_ok_sweep:
  assumes "level_ok b (p, l)" "sweep stop inc rem0 (Orders l) = (bk, rm, ts)" "bk \<noteq> []"
  shows "level_ok b (p, l\<lparr>Orders := bk\<rparr>)"
proof -
  have pos: "posQty (Orders l)" using assms(1) by (auto simp: level_ok_def posQty_def)
  have "Price r' = p \<and> 0 < Quantity r' \<and> in64 (Quantity r') \<and>
      ToLower (Side r') = (if b then ''buy'' else ''sell'')" if "(a, r') \<in> set bk" for a r'
  proof -
    from sweep_orders [OF assms(2) pos that]
    obtain r where r: "(a, r) \<in> set (Orders l)" "r' = r\<lparr>Quantity := Quantity r'\<rparr>" "0 < Quantity r'" "Quantity r' \<le> Quantity r"
      by auto
    have "Price r' = Price r" "Side r' = Side r" by (subst r(2), simp)+
    moreover have "in64 (Quantity r)" using assms(1) r(1) by (auto simp: level_ok_def)
    then have "in64 (Quantity r')" using r(3,4) by (auto simp: in64_def)
    ultimately show ?thesis using assms(1) r(1,3) by (auto simp: level_ok_def)
  qed
  then show ?thesis using assms(1,3) by (auto simp: level_ok_def)
qed

lemma flat_simps [simp]: "flat [] = []" "flat ((p, l) # es) = Orders l @ flat es" "flat (xs @ ys) = flat xs @ flat ys"
  by (simp_all add: flat_def)

section \<open>All levels of a side\<close>

definition limitStop :: "bool \<Rightarrow> bool \<Rightarrow> Order \<Rightarrow> Order \<Rightarrow> bool" where
  "limitStop buy useLimitPrice order r \<longleftrightarrow> useLimitPrice \<and> beyondLimit buy order (Price r)"

context price_tree
begin

lemma matchLevels_sweep:
  assumes "ok (bookSide (\<not> buy) s)" "Entries T (bookSide (\<not> buy) s) = pre @ es"
    and "\<forall>e \<in> set es. level_ok (\<not> buy) e" and "in64 rem0"
    and "sweep (limitStop buy ul order) (ID order) rem0 (flat es) = (bk, rm, ts)"
  shows "\<exists>es' t'. matchLevels T buy order ul es empt rem0 s =
       (empt @ map fst (filter (\<lambda>e. Orders (snd e) = []) es'), rm,
        applyTrades (ID order) ts (setBookSide (\<not> buy) t' s)) \<and>
     ok t' \<and> cmpOf t' = cmpOf (bookSide (\<not> buy) s) \<and> Entries T t' = pre @ es' \<and>
     flat es' = bk \<and> (\<forall>e \<in> set es'. Orders (snd e) \<noteq> [] \<longrightarrow> level_ok (\<not> buy) e)"
  using assms
proof (induction es arbitrary: pre s rem0 empt bk ts)
  case Nil
  then show ?case by (intro exI [of _ "[]"] exI [of _ "bookSide (\<not> buy) s"]) auto
next
  case (Cons e es)
  obtain p l where e: "e = (p, l)" by fastforce
  define stop where "stop = limitStop buy ul order"
  have l: "level_ok (\<not> buy) (p, l)" using Cons.prems(3) e by simp
  have pos: "posQty (Orders l)" using l by (auto simp: level_ok_def posQty_def)
  have ne: "\<forall>e \<in> set (e # es). Orders (snd e) \<noteq> []" using Cons.prems(3) by (auto simp: level_ok_def)
  have stopl: "stop r \<longleftrightarrow> ul \<and> beyondLimit buy order p" if "(a, r) \<in> set (Orders l)" for a r
    using l that by (auto simp: level_ok_def stop_def limitStop_def)
  show ?case
  proof (cases "rem0 \<le> 0 \<or> (ul \<and> beyondLimit buy order p)")
    case True
    obtain a r os where os: "Orders l = (a, r) # os" using ne e by (metis list.exhaust list.set_intros(1) snd_conv surj_pair)
    have "sweep stop (ID order) rem0 (flat (e # es)) = (flat (e # es), rem0, [])"
      using True stopl [of a r] by (auto simp: e os sweep_stops)
    then have "bk = flat (e # es)" "rm = rem0" "ts = []" using Cons.prems(5) by (auto simp: stop_def)
    moreover have "filter (\<lambda>e. Orders (snd e) = []) (e # es) = []" using ne by (simp add: filter_empty_conv)
    moreover have "matchLevels T buy order ul (e # es) empt rem0 s = (empt, rem0, s)" using True by (auto simp: e)
    ultimately show ?thesis using Cons.prems
      by (intro exI [of _ "e # es"] exI [of _ "bookSide (\<not> buy) s"]) auto
  next
    case False
    obtain bk1 rm1 ts1 where sw1: "sweep stop (ID order) rem0 (Orders l) = (bk1, rm1, ts1)" by (metis prod_cases3)
    obtain bk2 rm2 ts2 where sw2: "sweep stop (ID order) rm1 (flat es) = (bk2, rm2, ts2)" by (metis prod_cases3)
    have nostop: "\<forall>(a, r) \<in> set (Orders l). \<not> stop r" using stopl False by auto
    have "bk = bk1 @ bk2" and rm: "rm = rm2" and ts: "ts = ts1 @ ts2"
      using sweep_append [OF sw1 nostop sw2] Cons.prems(5) by (auto simp: e stop_def)
    have sw1': "sweep (\<lambda>_. False) (ID order) rem0 (Orders l) = (bk1, rm1, ts1)"
      using sw1 nostop sweep_cong [of "Orders l" stop "\<lambda>_. False"] by simp
    have ml: "matchLevel order p (Orders l) [] rem0 s = (bk1, rm1, applyTrades (ID order) ts1 s)"
      using matchLevel_sweep [OF pos _ Cons.prems(4) sw1', of p "[]" s] l by (auto simp: level_ok_def)
    define t1 where "t1 = Put T (bookSide (\<not> buy) s) p (l\<lparr>Orders := bk1\<rparr>)"
    define s2 where "s2 = applyTrades (ID order) ts1 (setBookSide (\<not> buy) t1 s)"
    have b2: "bookSide (\<not> buy) s2 = t1" by (simp add: s2_def frame)
    have t1: "ok t1" "cmpOf t1 = cmpOf (bookSide (\<not> buy) s)" "Entries T t1 = (pre @ [(p, l\<lparr>Orders := bk1\<rparr>)]) @ es"
      using put_ok put_cmp put_existing Cons.prems(1,2) by (auto simp: t1_def e)
    have i1: "in64 rm1" using sweep_in64 [OF sw1 pos Cons.prems(4)] by simp
    obtain es' t' where ih: "matchLevels T buy order ul es (if bk1 = [] then empt @ [p] else empt) rm1 s2 =
          ((if bk1 = [] then empt @ [p] else empt) @ map fst (filter (\<lambda>e. Orders (snd e) = []) es'), rm2,
           applyTrades (ID order) ts2 (setBookSide (\<not> buy) t' s2))"
      and t': "ok t'" "cmpOf t' = cmpOf t1" "Entries T t' = (pre @ [(p, l\<lparr>Orders := bk1\<rparr>)]) @ es'"
        "flat es' = bk2" "\<forall>e \<in> set es'. Orders (snd e) \<noteq> [] \<longrightarrow> level_ok (\<not> buy) e"
      using Cons.IH [of s2 "pre @ [(p, l\<lparr>Orders := bk1\<rparr>)]" rm1 bk2 ts2 "if bk1 = [] then empt @ [p] else empt"]
        t1 b2 Cons.prems(3) i1 sw2 rm by (auto simp: stop_def)
    have "setBookSide (\<not> buy) (Put T (bookSide (\<not> buy) (applyTrades (ID order) ts1 s)) p (l\<lparr>Orders := bk1\<rparr>))
        (applyTrades (ID order) ts1 s) = s2"
      by (simp add: s2_def t1_def frame applyTrades_setBookSide)
    then have "matchLevels T buy order ul (e # es) empt rem0 s =
        matchLevels T buy order ul es (if bk1 = [] then empt @ [p] else empt) rm1 s2"
      using False ml by (auto simp: e Let_def)
    moreover have "applyTrades (ID order) ts2 (setBookSide (\<not> buy) t' s2) =
        applyTrades (ID order) ts (setBookSide (\<not> buy) t' s)"
      by (simp add: ts s2_def applyTrades_setBookSide)
    ultimately show ?thesis
      using ih t' t1 \<open>bk = bk1 @ bk2\<close> rm level_ok_sweep [OF l sw1]
      by (intro exI [of _ "(p, l\<lparr>Orders := bk1\<rparr>) # es'"] exI [of _ t']) auto
  qed
qed

lemma foldl_remove:
  "ok t \<Longrightarrow> ok (foldl (Remove T) t ps) \<and> cmpOf (foldl (Remove T) t ps) = cmpOf t \<and>
     Entries T (foldl (Remove T) t ps) = filter (\<lambda>e. fst e \<notin> set ps) (Entries T t)"
proof (induction ps arbitrary: t)
  case (Cons p ps)
  then show ?case
    using remove_ok remove_cmp remove_entries [OF Cons.prems, of p] Cons.IH [of "Remove T t p"]
    by (auto intro!: filter_cong)
qed simp

theorem matchSide_sweep:
  assumes "ok (bookSide (\<not> buy) s)" "\<forall>e \<in> set (Entries T (bookSide (\<not> buy) s)). level_ok (\<not> buy) e"
    and "in64 (Quantity order)"
    and "sweep (limitStop buy ul order) (ID order) (Quantity order) (flat (Entries T (bookSide (\<not> buy) s))) = (bk, rm, ts)"
  shows "\<exists>t'. matchSide T buy order ul s = (rm, applyTrades (ID order) ts (setBookSide (\<not> buy) t' s)) \<and>
     ok t' \<and> cmpOf t' = cmpOf (bookSide (\<not> buy) s) \<and> flat (Entries T t') = bk \<and>
     (\<forall>e \<in> set (Entries T t'). level_ok (\<not> buy) e)"
proof -
  obtain es' t1 where m: "matchLevels T buy order ul (Entries T (bookSide (\<not> buy) s)) [] (Quantity order) s =
       ([] @ map fst (filter (\<lambda>e. Orders (snd e) = []) es'), rm,
        applyTrades (ID order) ts (setBookSide (\<not> buy) t1 s))"
    and t1: "ok t1" "cmpOf t1 = cmpOf (bookSide (\<not> buy) s)" "Entries T t1 = [] @ es'" "flat es' = bk"
      "\<forall>e \<in> set es'. Orders (snd e) \<noteq> [] \<longrightarrow> level_ok (\<not> buy) e"
    using matchLevels_sweep [OF assms(1) _ assms(2,3,4), of "[]" "[]"] by auto
  define ps where "ps = map fst (filter (\<lambda>e. Orders (snd e) = []) es')"
  define t' where "t' = foldl (Remove T) t1 ps"
  have d: "distinct (map fst es')" using keys_distinct [OF t1(1)] t1(3) by simp
  have "filter (\<lambda>e. fst e \<notin> set ps) es' = filter (\<lambda>e. Orders (snd e) \<noteq> []) es'"
    using d by (intro filter_cong) (auto simp: ps_def dest: eq_key_imp_eq_value)
  then have t': "ok t'" "cmpOf t' = cmpOf (bookSide (\<not> buy) s)"
      "Entries T t' = filter (\<lambda>e. Orders (snd e) \<noteq> []) es'"
    using foldl_remove [OF t1(1), of ps] t1(2,3) by (simp_all add: t'_def)
  have "flat (filter (\<lambda>e. Orders (snd e) \<noteq> []) es') = flat es'" by (induction es') auto
  moreover have "matchSide T buy order ul s = (rm, applyTrades (ID order) ts (setBookSide (\<not> buy) t' s))"
    using m by (simp add: matchSide_def removeLevels_def t'_def ps_def [symmetric] frame applyTrades_setBookSide)
  ultimately show ?thesis using t' t1(4,5) by (intro exI [of _ t']) auto
qed

end

end
