(* ===== verification/Float64.thy ===== *)
theory Float64
  imports BG_Prelude "HOL-Library.Log_Nat"
begin

text \<open>
  Go's \<^verbatim>\<open>float64\<close> as the rational value it denotes, every operation being the exact
  result rounded to the nearest binary64 value, ties to even (\<open>fl\<close>). Gradual underflow
  is modelled (the unit in the last place never drops below \<open>2 ^ -1074\<close>); overflow to
  infinity and NaN are not: the sources only use magnitudes far below \<open>2 ^ 1023\<close> and guard
  every division whose divisor may be zero, or the model states what is assumed.
  Multiplication and addition are rounded separately, as the amd64 target of the
  deployment does (no fused multiply-add).

  The interface \<open>rounding\<close> states what the score computations need of it: monotone, exact
  on small integers. It is discharged for \<open>fl\<close> at the end of the theory.
\<close>

section \<open>Round to nearest, ties to even\<close>

definition rne :: "rat \<Rightarrow> int" where
  "rne x = (let f = \<lfloor>x\<rfloor>; r = x - of_int f in
     if r < 1 / 2 then f else if 1 / 2 < r then f + 1 else if even f then f else f + 1)"

definition fexp :: "rat \<Rightarrow> int" where
  \<comment> \<open>the binary exponent: \<open>2 ^ e \<le> \<bar>x\<bar> < 2 ^ (e + 1)\<close>\<close>
  "fexp x = (let (p, q) = quotient_of \<bar>x\<bar>; e = bitlen p - bitlen q in
     if 2 powi e \<le> \<bar>x\<bar> then e else e - 1)"

definition fulp :: "rat \<Rightarrow> int" where
  \<comment> \<open>exponent of the unit in the last place\<close>
  "fulp x = max (fexp x - 52) (- 1074)"

definition fl :: "rat \<Rightarrow> rat" where
  "fl x = (if x = 0 then 0 else of_int (rne (x / 2 powi fulp x)) * 2 powi fulp x)"

definition fadd :: "rat \<Rightarrow> rat \<Rightarrow> rat" where "fadd a b = fl (a + b)"
definition fsub :: "rat \<Rightarrow> rat \<Rightarrow> rat" where "fsub a b = fl (a - b)"
definition fmul :: "rat \<Rightarrow> rat \<Rightarrow> rat" where "fmul a b = fl (a * b)"
definition fdiv :: "rat \<Rightarrow> rat \<Rightarrow> rat" where "fdiv a b = fl (a / b)"

definition float64 :: "int \<Rightarrow> rat" where
  \<comment> \<open>the conversion \<^verbatim>\<open>float64(n)\<close>\<close>
  "float64 n = fl (of_int n)"

definition trunc64 :: "rat \<Rightarrow> int" where
  \<comment> \<open>the conversion \<^verbatim>\<open>int64(f)\<close>: towards zero\<close>
  "trunc64 x = (if 0 \<le> x then \<lfloor>x\<rfloor> else - \<lfloor>- x\<rfloor>)"

definition math_Round :: "rat \<Rightarrow> rat" where
  \<comment> \<open>\<^verbatim>\<open>math.Round\<close>: to the nearest integer, halves away from zero (exact)\<close>
  "math_Round x = of_int (if 0 \<le> x then \<lfloor>x + 1 / 2\<rfloor> else - \<lfloor>- x + 1 / 2\<rfloor>)"

section \<open>Integer rounding\<close>

lemma rne_bounds: "\<lfloor>x\<rfloor> \<le> rne x \<and> rne x \<le> \<lfloor>x\<rfloor> + 1"
  by (simp add: rne_def Let_def)

lemma rne_of_int [simp]: "rne (of_int n) = n"
  by (simp add: rne_def)

lemma rne_mono: "x \<le> y \<Longrightarrow> rne x \<le> rne y"
proof -
  assume le: "x \<le> y"
  show ?thesis
  proof (cases "\<lfloor>x\<rfloor> = \<lfloor>y\<rfloor>")
    case True
    with le show ?thesis by (auto simp: rne_def Let_def)
  next
    case False
    with le have "\<lfloor>x\<rfloor> + 1 \<le> \<lfloor>y\<rfloor>" using floor_mono [OF le] by linarith
    then show ?thesis using rne_bounds [of x] rne_bounds [of y] by linarith
  qed
qed

lemma rne_uminus: "rne (- x) = - rne x"
proof (cases "x = of_int \<lfloor>x\<rfloor>")
  case True
  then show ?thesis by (metis of_int_minus rne_of_int)
next
  case False
  then have c: "\<lceil>x\<rceil> = \<lfloor>x\<rfloor> + 1" by (metis ceiling_altdef)
  have f: "\<lfloor>- x\<rfloor> = - \<lfloor>x\<rfloor> - 1" using c by (simp add: floor_minus)
  have n: "of_int \<lfloor>x\<rfloor> \<le> x" "x < of_int \<lfloor>x\<rfloor> + 1" using floor_correct [of x] by auto
  show ?thesis unfolding rne_def Let_def f by (auto simp: field_simps)
qed

section \<open>The binary exponent\<close>

lemma two_powi_pos [simp]: "0 < (2 :: rat) powi e"
  by (simp add: zero_less_power_int)

lemma two_powi_le_iff: "(2 :: rat) powi a \<le> 2 powi b \<longleftrightarrow> a \<le> b"
proof
  assume "(2 :: rat) powi a \<le> 2 powi b"
  then show "a \<le> b" using power_int_strict_increasing [of b a "2 :: rat"] by force
next
  assume "a \<le> b"
  then show "(2 :: rat) powi a \<le> 2 powi b" by (intro power_int_increasing) auto
qed

lemma two_powi_nat: "0 \<le> e \<Longrightarrow> (2 :: rat) powi e = of_int (2 ^ nat e)"
  by (simp add: power_int_def)

lemma two_powi_div: "(2 :: rat) powi a / 2 powi b = 2 powi (a - b)"
  by (simp add: power_int_diff)

lemma bitlen_rat_bounds:
  assumes "0 < p"
  shows "(2 :: rat) powi (bitlen p - 1) \<le> of_int p" and "(of_int p :: rat) < 2 powi bitlen p"
proof -
  have b: "2 ^ nat (bitlen p - 1) \<le> p" "p < 2 ^ nat (bitlen p)"
    using bitlen_bounds [OF assms] by auto
  have n: "0 \<le> bitlen p - 1" "0 \<le> bitlen p"
    using bitlen_nonneg [of p] bitlen_eq_zero_iff [of p] assms by linarith+
  have "(of_int (2 ^ nat (bitlen p - 1)) :: rat) \<le> of_int p" using b(1) by (simp only: of_int_le_iff)
  then show "(2 :: rat) powi (bitlen p - 1) \<le> of_int p" using n by (simp add: two_powi_nat)
  have "(of_int p :: rat) < of_int (2 ^ nat (bitlen p))" using b(2) by (simp only: of_int_less_iff)
  then show "(of_int p :: rat) < 2 powi bitlen p" using n by (simp add: two_powi_nat)
qed

lemma fexp_bounds:
  assumes "x \<noteq> 0"
  shows "2 powi fexp x \<le> \<bar>x\<bar>" and "\<bar>x\<bar> < 2 powi (fexp x + 1)"
proof -
  obtain p q where pq: "quotient_of \<bar>x\<bar> = (p, q)" by fastforce
  have q: "0 < q" using quotient_of_denom_pos [OF pq] .
  have x: "\<bar>x\<bar> = of_int p / of_int q" using quotient_of_div [OF pq] .
  have p: "0 < p"
    using assms x q by (metis abs_le_zero_iff divide_eq_0_iff zero_less_divide_iff of_int_0_less_iff
        abs_ge_zero linorder_not_le of_int_le_0_iff order_less_le)
  define e where "e = bitlen p - bitlen q"
  have up: "\<bar>x\<bar> < 2 powi (e + 1)"
  proof -
    have "of_int p / of_int q < (2 powi bitlen p :: rat) / 2 powi (bitlen q - 1)"
      using bitlen_rat_bounds [OF p] bitlen_rat_bounds [OF q] q p
      by (intro frac_less) auto
    then show ?thesis by (simp add: x two_powi_div e_def algebra_simps)
  qed
  have lo: "2 powi (e - 1) \<le> \<bar>x\<bar>"
  proof -
    have "(2 powi (bitlen p - 1) :: rat) / 2 powi bitlen q \<le> of_int p / of_int q"
      using bitlen_rat_bounds [OF p] bitlen_rat_bounds [OF q] q p
      by (intro frac_le) auto
    then show ?thesis by (simp add: x two_powi_div e_def algebra_simps)
  qed
  have fe: "fexp x = (if 2 powi e \<le> \<bar>x\<bar> then e else e - 1)"
    by (simp add: fexp_def pq e_def)
  show "2 powi fexp x \<le> \<bar>x\<bar>" using fe lo by simp
  show "\<bar>x\<bar> < 2 powi (fexp x + 1)" using fe up by simp
qed

lemma fexp_uminus [simp]: "fexp (- x) = fexp x"
  by (simp add: fexp_def)

lemma fulp_uminus [simp]: "fulp (- x) = fulp x"
  by (simp add: fulp_def)

lemma fexp_mono:
  assumes "0 < x" "x \<le> y"
  shows "fexp x \<le> fexp y"
proof -
  have "(2 :: rat) powi fexp x < 2 powi (fexp y + 1)"
    using fexp_bounds [of x] fexp_bounds [of y] assms by simp
  then show ?thesis using two_powi_le_iff [of "fexp y + 1" "fexp x"] by linarith
qed

section \<open>Rounding to binary64\<close>

lemma fl_0 [simp]: "fl 0 = 0"
  by (simp add: fl_def)

lemma fl_uminus: "fl (- x) = - fl x"
  by (simp add: fl_def rne_uminus)

lemma fl_exact:
  assumes "x = of_int m * 2 powi fulp x"
  shows "fl x = x"
proof (cases "x = 0")
  case False
  have "x / 2 powi fulp x = of_int m" using assms by (simp add: nonzero_divide_eq_eq)
  then show ?thesis using False assms by (simp add: fl_def)
qed simp

lemma fl_two_powi_le:
  \<comment> \<open>a power of two between the operands separates their roundings\<close>
  assumes "0 < x" "x \<le> 2 powi k" "fulp x \<le> k"
  shows "fl x \<le> 2 powi k"
proof -
  have i: "(2 :: rat) powi k / 2 powi fulp x = of_int (2 ^ nat (k - fulp x))"
    using assms(3) by (simp add: two_powi_div two_powi_nat)
  have "x / 2 powi fulp x \<le> 2 powi k / 2 powi fulp x"
    using assms(2) by (simp add: divide_right_mono order_less_imp_le)
  then have "rne (x / 2 powi fulp x) \<le> 2 ^ nat (k - fulp x)"
    using rne_mono [of "x / 2 powi fulp x" "of_int (2 ^ nat (k - fulp x))"] i by (simp del: of_int_power)
  then have "(of_int (rne (x / 2 powi fulp x)) :: rat) \<le> of_int (2 ^ nat (k - fulp x))"
    by (simp only: of_int_le_iff)
  then have "of_int (rne (x / 2 powi fulp x)) \<le> (2 :: rat) powi k / 2 powi fulp x"
    using i by simp
  then show ?thesis using assms(1) by (simp add: fl_def pos_le_divide_eq)
qed

lemma fl_two_powi_ge:
  assumes "2 powi k \<le> x" "fulp x \<le> k"
  shows "2 powi k \<le> fl x"
proof -
  have x: "0 < x" using assms(1) two_powi_pos [of k] by linarith
  have i: "(2 :: rat) powi k / 2 powi fulp x = of_int (2 ^ nat (k - fulp x))"
    using assms(2) by (simp add: two_powi_div two_powi_nat)
  have "2 powi k / 2 powi fulp x \<le> x / 2 powi fulp x"
    using assms(1) by (simp add: divide_right_mono order_less_imp_le)
  then have "2 ^ nat (k - fulp x) \<le> rne (x / 2 powi fulp x)"
    using rne_mono [of "of_int (2 ^ nat (k - fulp x))" "x / 2 powi fulp x"] i by (simp del: of_int_power)
  then have "(of_int (2 ^ nat (k - fulp x)) :: rat) \<le> of_int (rne (x / 2 powi fulp x))"
    by (simp only: of_int_le_iff)
  then have "(2 :: rat) powi k / 2 powi fulp x \<le> of_int (rne (x / 2 powi fulp x))"
    using i by simp
  then show ?thesis using x by (simp add: fl_def pos_divide_le_eq)
qed

lemma fl_nonneg: "0 \<le> x \<Longrightarrow> 0 \<le> fl x"
  using rne_mono [of 0 "x / 2 powi fulp x"] rne_of_int [of 0]
  by (simp add: fl_def order_less_imp_le)

lemma fl_mono_pos:
  assumes "0 < x" "x \<le> y"
  shows "fl x \<le> fl y"
proof (cases "fulp x = fulp y")
  case True
  have "rne (x / 2 powi fulp x) \<le> rne (y / 2 powi fulp x)"
    using assms(2) by (intro rne_mono divide_right_mono) (auto intro: order_less_imp_le)
  then show ?thesis
    using assms True by (simp add: fl_def mult_right_mono order_less_imp_le)
next
  case False
  have e: "fexp x \<le> fexp y" using fexp_mono [OF assms] .
  then have u: "fulp x < fulp y" using False by (auto simp: fulp_def)
  then have uy: "fulp y = fexp y - 52" by (auto simp: fulp_def)
  have ey: "fexp x < fexp y" using u uy by (auto simp: fulp_def)
  have "x < 2 powi (fexp x + 1)" using fexp_bounds(2) [of x] assms(1) by simp
  also have "\<dots> \<le> 2 powi fexp y" using ey by (simp add: two_powi_le_iff)
  finally have xk: "x \<le> 2 powi fexp y" by simp
  have yk: "2 powi fexp y \<le> y" using fexp_bounds(1) [of y] assms by simp
  have "fl x \<le> 2 powi fexp y"
    using fl_two_powi_le [OF assms(1) xk] u uy by linarith
  also have "\<dots> \<le> fl y"
    using fl_two_powi_ge [OF yk] uy by linarith
  finally show ?thesis .
qed

lemma fl_mono: "x \<le> y \<Longrightarrow> fl x \<le> fl y"
proof -
  assume le: "x \<le> y"
  consider "0 < x" | "x \<le> 0" "0 \<le> y" | "y < 0" by linarith
  then show ?thesis
  proof cases
    case 1 then show ?thesis using fl_mono_pos le by blast
  next
    case 2
    then have "fl x \<le> 0" using fl_nonneg [of "- x"] by (simp add: fl_uminus)
    also have "0 \<le> fl y" using 2 fl_nonneg by blast
    finally show ?thesis .
  next
    case 3
    then show ?thesis using fl_mono_pos [of "- y" "- x"] le by (simp add: fl_uminus)
  qed
qed

lemma fl_int_exact:
  assumes "\<bar>n\<bar> \<le> 2 ^ 53"
  shows "fl (of_int n) = of_int n"
proof (cases "n = 0")
  case False
  let ?x = "of_int n :: rat"
  have lo: "2 powi fexp ?x \<le> \<bar>?x\<bar>" using fexp_bounds(1) [of ?x] False by simp
  have hi: "\<bar>?x\<bar> \<le> 2 powi 53"
  proof -
    have "(of_int \<bar>n\<bar> :: rat) \<le> of_int (2 ^ 53)" using assms by (simp only: of_int_le_iff)
    then show ?thesis by simp
  qed
  have e: "fexp ?x \<le> 53" using order_trans [OF lo hi] by (simp only: two_powi_le_iff)
  show ?thesis
  proof (cases "fexp ?x = 53")
    case True
    then have ax: "\<bar>?x\<bar> = 2 powi 53" using lo hi by simp
    have u: "fulp ?x = 1" using True by (simp add: fulp_def)
    have "\<bar>?x\<bar> = of_int (2 ^ 53)" using ax by simp
    then have "\<bar>n\<bar> = 2 ^ 53" by (metis of_int_abs of_int_eq_iff)
    then have "even n" by (metis abs_dvd_iff dvd_abs_iff even_numeral even_power zero_less_numeral)
    then obtain k where "n = 2 * k" by (elim evenE)
    then show ?thesis using fl_exact [of ?x k] u by simp
  next
    case False
    then have "fulp ?x \<le> 0" using e by (simp add: fulp_def)
    then have "?x = of_int (n * 2 ^ nat (- fulp ?x)) * 2 powi fulp ?x"
      by (simp add: power_int_def field_simps)
    then show ?thesis by (rule fl_exact)
  qed
qed simp

section \<open>The interface the score computations use\<close>

locale rounding =
  fixes rnd :: "rat \<Rightarrow> rat"
  assumes rnd_mono: "x \<le> y \<Longrightarrow> rnd x \<le> rnd y"
    and rnd_int: "\<bar>n\<bar> \<le> 2 ^ 53 \<Longrightarrow> rnd (of_int n) = of_int n"
begin

lemma rnd_num [simp]: "numeral w \<le> (2 ^ 53 :: int) \<Longrightarrow> rnd (numeral w) = numeral w"
  using rnd_int [of "numeral w"] by simp

lemma rnd_0 [simp]: "rnd 0 = 0" and rnd_1 [simp]: "rnd 1 = 1"
  using rnd_int [of 0] rnd_int [of 1] by simp_all

lemma rnd_nonneg: "0 \<le> x \<Longrightarrow> 0 \<le> rnd x"
  using rnd_mono [of 0 x] by simp

lemma rnd_le_int: "x \<le> of_int n \<Longrightarrow> \<bar>n\<bar> \<le> 2 ^ 53 \<Longrightarrow> rnd x \<le> of_int n"
  using rnd_mono [of x "of_int n"] rnd_int [of n] by simp

lemma rnd_ge_int: "of_int n \<le> x \<Longrightarrow> \<bar>n\<bar> \<le> 2 ^ 53 \<Longrightarrow> of_int n \<le> rnd x"
  using rnd_mono [of "of_int n" x] rnd_int [of n] by simp

lemma rnd_unit: "0 \<le> x \<Longrightarrow> x \<le> 1 \<Longrightarrow> 0 \<le> rnd x \<and> rnd x \<le> 1"
  using rnd_mono [of x 1] rnd_nonneg by simp

end

interpretation fl64: rounding fl
  by unfold_locales (auto intro: fl_mono fl_int_exact)

end
