(* ===== verification/Shadow_Validator.thy ===== *)
theory Shadow_Validator
  imports Shadow_Match Float64
begin

text \<open>
  The validator of \<^verbatim>\<open>bot-fleet/shadow/validator.go\<close>: routing of events to symbol shards, the
  handlers \<^verbatim>\<open>ProcessOrder\<close>, \<^verbatim>\<open>ProcessAck\<close> and \<^verbatim>\<open>ProcessFill\<close>, and the correctness score. A
  shard pointer is the symbol it is stored under (shards are never removed or replaced).
  Every handler is split into the routing and the part that runs under the shard's lock.
\<close>

section \<open>Handlers of one shard\<close>

definition shardOrder :: "int \<Rightarrow> string \<Rightarrow> string \<Rightarrow> int \<Rightarrow> int \<Rightarrow> 't SymbolShard \<Rightarrow> 't SymbolShard" where
  "shardOrder orderID orderType side price quantity shard =
     (if ToLower orderType = ''cancel'' then shard
      else
        let shard1 = (if has_key (pendingOrders shard) orderID
                      then shard\<lparr>duplicateOrders := wrap64 (duplicateOrders shard + 1)\<rparr> else shard);
            shard2 = (if has_key (orderMap shard1) orderID
                      then shard1\<lparr>duplicateOrders := wrap64 (duplicateOrders shard1 + 1)\<rparr> else shard1);
            shard3 = shard2\<lparr>pendingOrders := AList.update orderID
                       \<lparr>ID = orderID, Type = orderType, Side = side, Price = price, Quantity = quantity\<rparr>
                       (pendingOrders shard2)\<rparr> in
        checkCleanup orderID shard3)"

definition ackViolation :: "int \<Rightarrow> 't SymbolShard \<Rightarrow> 't SymbolShard" where
  "ackViolation orderID shard =
     checkCleanup orderID (shard\<lparr>ackViolations := wrap64 (ackViolations shard + 1)\<rparr>)"

definition shardAck :: "'t rbt_ops \<Rightarrow> int \<Rightarrow> string \<Rightarrow> 't SymbolShard \<Rightarrow> 't SymbolShard" where
  "shardAck T orderID status shard =
     (let cleanStatus = ToLower status in
      if cleanStatus = ''cancelled'' then
        let shard1 = (if hasRestingOrder orderID shard then snd (removeRestingOrder T orderID shard) else shard) in
        checkCleanup orderID shard1
      else
        case map_of (pendingOrders shard) orderID of
          None \<Rightarrow>
            (if cleanStatus = ''rejected'' then checkCleanup orderID shard
             else checkCleanup orderID (shard\<lparr>unknownAcks := wrap64 (unknownAcks shard + 1)\<rparr>))
        | Some order \<Rightarrow>
            let shard1 = shard\<lparr>pendingOrders := AList.delete orderID (pendingOrders shard)\<rparr>;
                cleanType = ToLower (Type order) in
            if cleanType = ''limit'' then
              (if cleanStatus \<noteq> ''accepted'' then ackViolation orderID shard1
               else checkCleanup orderID (matchLimitOrder T order shard1))
            else if cleanType = ''market'' then
              (if cleanStatus \<noteq> ''accepted'' then ackViolation orderID shard1
               else checkCleanup orderID (matchMarketOrder T order shard1))
            else
              (if cleanStatus \<noteq> ''rejected'' then ackViolation orderID shard1
               else checkCleanup orderID shard1))"

definition shardFill :: "int \<Rightarrow> int \<Rightarrow> int \<Rightarrow> int list \<Rightarrow> 't SymbolShard \<Rightarrow> 't SymbolShard" where
  "shardFill orderID filledQty filledPrice matchedWith shard =
     (let counterparty = (case matchedWith of [] \<Rightarrow> 0 | m # _ \<Rightarrow> m);
          actualFill = \<lparr>OrderID = orderID, FilledQty = filledQty, FilledPrice = filledPrice, MatchedWith = counterparty\<rparr> in
      checkCleanup orderID
        (shard\<lparr>actualFills := AList.update orderID (get_or [] (actualFills shard) orderID @ [actualFill]) (actualFills shard)\<rparr>))"

section \<open>The validator\<close>

record 't Validator =
  shards :: "(string \<times> 't SymbolShard) list"
  orderToShard :: "(int \<times> string) list"

definition NewValidator :: "'t Validator" where
  "NewValidator = \<lparr>shards = [], orderToShard = []\<rparr>"

definition getShard :: "'t rbt_ops \<Rightarrow> string \<Rightarrow> 't Validator \<Rightarrow> string \<times> 't Validator" where
  "getShard T symbol v =
     (symbol, if has_key (shards v) symbol then v
              else v\<lparr>shards := AList.update symbol (NewSymbolShard T) (shards v)\<rparr>)"

definition getShardForOrder :: "'t rbt_ops \<Rightarrow> int \<Rightarrow> 't Validator \<Rightarrow> string \<times> 't Validator" where
  "getShardForOrder T orderID v =
     (case map_of (orderToShard v) orderID of
        Some shard \<Rightarrow> (shard, v)
      | None \<Rightarrow> getShard T ''BTCUSD'' v)"

definition shardAt :: "'t rbt_ops \<Rightarrow> string \<Rightarrow> 't Validator \<Rightarrow> 't SymbolShard" where
  "shardAt T symbol v = get_or (NewSymbolShard T) (shards v) symbol"

definition onShard :: "'t rbt_ops \<Rightarrow> string \<Rightarrow> ('t SymbolShard \<Rightarrow> 't SymbolShard) \<Rightarrow> 't Validator \<Rightarrow> 't Validator" where
  \<comment> \<open>the work done under the lock of one shard\<close>
  "onShard T symbol f v = v\<lparr>shards := AList.update symbol (f (shardAt T symbol v)) (shards v)\<rparr>"

definition ProcessOrder :: "'t rbt_ops \<Rightarrow> int \<Rightarrow> string \<Rightarrow> string \<Rightarrow> int \<Rightarrow> int \<Rightarrow> 't Validator \<Rightarrow> 't Validator" where
  "ProcessOrder T orderID orderType side price quantity v =
     (case getShard T ''BTCUSD'' v of (shard, v1) \<Rightarrow>
        onShard T shard (shardOrder orderID orderType side price quantity)
          (v1\<lparr>orderToShard := AList.update orderID shard (orderToShard v1)\<rparr>))"

definition ProcessAck :: "'t rbt_ops \<Rightarrow> int \<Rightarrow> string \<Rightarrow> 't Validator \<Rightarrow> 't Validator" where
  "ProcessAck T orderID status v =
     (case getShardForOrder T orderID v of (shard, v1) \<Rightarrow> onShard T shard (shardAck T orderID status) v1)"

definition ProcessFill :: "'t rbt_ops \<Rightarrow> int \<Rightarrow> int \<Rightarrow> int \<Rightarrow> int list \<Rightarrow> 't Validator \<Rightarrow> 't Validator" where
  "ProcessFill T orderID filledQty filledPrice matchedWith v =
     (case getShardForOrder T orderID v of (shard, v1) \<Rightarrow>
        onShard T shard (shardFill orderID filledQty filledPrice matchedWith) v1)"

section \<open>The correctness score\<close>

definition minInt64 :: "int \<Rightarrow> int \<Rightarrow> int" where
  "minInt64 a b = (if a < b then a else b)"

definition absInt64 :: "int \<Rightarrow> int" where
  "absInt64 v = (if v < 0 then wrap64 (- v) else v)"

definition minFloat64 :: "rat \<Rightarrow> rat \<Rightarrow> rat" where
  "minFloat64 a b = (if a < b then a else b)"

definition maxFloat64 :: "rat \<Rightarrow> rat \<Rightarrow> rat" where
  "maxFloat64 a b = (if b < a then a else b)"

fun byPrice :: "Fill list \<Rightarrow> (int \<times> int) list \<Rightarrow> (int \<times> int) list" where
  "byPrice [] m = m"
| "byPrice (f # fs) m =
     byPrice fs (AList.update (FilledPrice f) (wrap64 (get_or 0 m (FilledPrice f) + FilledQty f)) m)"

definition matchingQtyByPrice :: "Fill list \<Rightarrow> Fill list \<Rightarrow> int" where
  "matchingQtyByPrice expectedList actualList =
     (let expectedByPrice = byPrice expectedList []; actualByPrice = byPrice actualList [] in
      sum64 (\<lambda>(price, expQty). minInt64 expQty (get_or 0 actualByPrice price)) expectedByPrice 0)"

fun priorityLoop :: "Fill list \<Rightarrow> Fill list \<Rightarrow> int \<Rightarrow> int \<Rightarrow> int \<times> int" where
  \<comment> \<open>accumulates the matched quantity and the number of violations\<close>
  "priorityLoop [] actual matched viol = (matched, viol)"
| "priorityLoop (e # es) [] matched viol = priorityLoop es [] matched (wrap64 (viol + 1))"
| "priorityLoop (e # es) (a # as) matched viol =
     (if FilledQty a \<noteq> FilledQty e \<or> FilledPrice a \<noteq> FilledPrice e
      then priorityLoop es as matched (wrap64 (viol + 1))
      else if MatchedWith a \<noteq> MatchedWith e then priorityLoop es as matched (wrap64 (viol + 1))
      else priorityLoop es as (wrap64 (matched + FilledQty e)) viol)"

definition priorityMatchedQty :: "Fill list \<Rightarrow> Fill list \<Rightarrow> 't SymbolShard \<Rightarrow> int \<times> 't SymbolShard" where
  "priorityMatchedQty expectedList actualList s =
     (case priorityLoop expectedList actualList 0 (priorityViolations s) of
        (matched, viol) \<Rightarrow>
          (matched,
           s\<lparr>priorityViolations :=
               (if length actualList > length expectedList
                then wrap64 (viol + int (length actualList - length expectedList)) else viol)\<rparr>))"

record tally =
  tl_expectedQty :: int
  tl_actualQty :: int
  tl_priceCorrectQty :: int
  tl_priorityCorrectQty :: int
  tl_expectedValue :: int
  tl_valueDiff :: int
  tl_phantomQty :: int
  tl_ackViolations :: int
  tl_duplicateOrders :: int
  tl_unknownAcks :: int

definition tally0 :: tally where
  "tally0 = \<lparr>tl_expectedQty = 0, tl_actualQty = 0, tl_priceCorrectQty = 0, tl_priorityCorrectQty = 0,
     tl_expectedValue = 0, tl_valueDiff = 0, tl_phantomQty = 0, tl_ackViolations = 0,
     tl_duplicateOrders = 0, tl_unknownAcks = 0\<rparr>"

definition tallyShard :: "'t SymbolShard \<Rightarrow> tally \<Rightarrow> tally" where
  \<comment> \<open>the counters accumulated for orders that were cleaned up\<close>
  "tallyShard s t = t\<lparr>
     tl_expectedQty := wrap64 (tl_expectedQty t + expectedQty s),
     tl_actualQty := wrap64 (tl_actualQty t + actualQty s),
     tl_priceCorrectQty := wrap64 (tl_priceCorrectQty t + priceCorrectQty s),
     tl_priorityCorrectQty := wrap64 (tl_priorityCorrectQty t + priorityCorrectQty s),
     tl_expectedValue := wrap64 (tl_expectedValue t + expectedValue s),
     tl_valueDiff := wrap64 (tl_valueDiff t + valueDiff s),
     tl_phantomQty := wrap64 (tl_phantomQty t + phantomQty s),
     tl_ackViolations := wrap64 (tl_ackViolations t + ackViolations s),
     tl_duplicateOrders := wrap64 (tl_duplicateOrders t + duplicateOrders s),
     tl_unknownAcks := wrap64 (tl_unknownAcks t + unknownAcks s)\<rparr>"

definition tallyOrder :: "int \<times> Fill list \<Rightarrow> tally \<times> 't SymbolShard \<Rightarrow> tally \<times> 't SymbolShard" where
  \<comment> \<open>one iteration of the loop over \<^verbatim>\<open>s.expectedFills\<close>\<close>
  "tallyOrder e acc = (case (e, acc) of ((orderID, expList), (t, s)) \<Rightarrow>
     let expectedList = foldPartials expList;
         actualList = (case map_of (actualFills s) orderID of None \<Rightarrow> [] | Some as \<Rightarrow> foldPartials as);
         totalExpQty = sum64 FilledQty expectedList 0;
         expValue = sum64 fillValue expectedList 0;
         totalActQty = sum64 FilledQty actualList 0;
         actValue = sum64 fillValue actualList 0;
         (prio, s1) = priorityMatchedQty expectedList actualList s;
         t1 = t\<lparr>
           tl_expectedQty := wrap64 (tl_expectedQty t + totalExpQty),
           tl_actualQty := wrap64 (tl_actualQty t + totalActQty),
           tl_expectedValue := wrap64 (tl_expectedValue t + expValue),
           tl_valueDiff := wrap64 (tl_valueDiff t + absInt64 (wrap64 (expValue - actValue))),
           tl_phantomQty := (if totalActQty > totalExpQty
                             then wrap64 (tl_phantomQty t + wrap64 (totalActQty - totalExpQty)) else tl_phantomQty t),
           tl_priceCorrectQty := wrap64 (tl_priceCorrectQty t + matchingQtyByPrice expectedList actualList),
           tl_priorityCorrectQty := wrap64 (tl_priorityCorrectQty t + prio)\<rparr>;
         s2 = (if (totalExpQty \<noteq> totalActQty \<or> expValue \<noteq> actValue) \<and> printedMismatches s1 < 50
               then s1\<lparr>printedMismatches := wrap64 (printedMismatches s1 + 1)\<rparr> else s1) in
     (t1, s2))"

definition tallyPhantom :: "'t SymbolShard \<Rightarrow> int \<times> Fill list \<Rightarrow> tally \<Rightarrow> tally" where
  \<comment> \<open>one iteration of the loop over \<^verbatim>\<open>s.actualFills\<close>\<close>
  "tallyPhantom s e t = (case e of (orderID, fills) \<Rightarrow>
     if has_key (expectedFills s) orderID then t
     else t\<lparr>tl_actualQty := sum64 FilledQty fills (tl_actualQty t),
            tl_phantomQty := sum64 FilledQty fills (tl_phantomQty t)\<rparr>)"

definition scoreShard :: "'t SymbolShard \<Rightarrow> tally \<Rightarrow> tally \<times> 't SymbolShard" where
  \<comment> \<open>the body of the loop over the shards\<close>
  "scoreShard s0 t =
     (let s = fold checkCleanup (gokeys (expectedFills s0)) s0;
          (t2, s2) = fold tallyOrder (expectedFills s) (tallyShard s t, s) in
      (fold (tallyPhantom s2) (actualFills s2) t2, s2))"

definition scoreOf :: "tally \<Rightarrow> rat" where
  \<comment> \<open>the formula applied to the totals\<close>
  "scoreOf t =
     (if tl_expectedQty t = 0 then
        (if tl_actualQty t > 0 \<or> tl_ackViolations t > 0 \<or> tl_duplicateOrders t > 0 \<or> tl_unknownAcks t > 0
         then 0 else 100)
      else
        let quantityScore = fmul (fdiv (float64 (minInt64 (tl_priceCorrectQty t) (tl_expectedQty t))) (float64 (tl_expectedQty t))) 70;
            priorityScore = fmul (fdiv (float64 (minInt64 (tl_priorityCorrectQty t) (tl_expectedQty t))) (float64 (tl_expectedQty t))) 20;
            valueScore = (if tl_expectedValue t > 0
                          then maxFloat64 0 (fmul 10 (fsub 1 (fdiv (float64 (tl_valueDiff t)) (float64 (tl_expectedValue t)))))
                          else 10);
            score0 = fadd (fadd quantityScore priorityScore) valueScore;
            score1 = (if tl_phantomQty t > 0
                      then fsub score0 (minFloat64 25 (fmul 25 (fdiv (float64 (tl_phantomQty t)) (float64 (tl_expectedQty t)))))
                      else score0);
            score2 = fsub score1 (fmul (float64 (tl_ackViolations t)) 2);
            score3 = fsub score2 (fmul (float64 (tl_duplicateOrders t)) 2);
            score4 = fsub score3 (fmul (float64 (tl_unknownAcks t)) 2);
            score5 = (if score4 < 0 then 0 else score4) in
        if score5 > 100 then 100 else score5)"

fun scoreShards :: "(string \<times> 't SymbolShard) list \<Rightarrow> tally \<Rightarrow> tally \<times> (string \<times> 't SymbolShard) list" where
  "scoreShards [] t = (t, [])"
| "scoreShards ((sy, s) # rest) t =
     (case scoreShard s t of (t1, s1) \<Rightarrow>
        case scoreShards rest t1 of (t2, rest') \<Rightarrow> (t2, (sy, s1) # rest'))"

definition GetCorrectnessScore :: "'t Validator \<Rightarrow> rat \<times> 't Validator" where
  "GetCorrectnessScore v =
     (case scoreShards (shards v) tally0 of (t, shs) \<Rightarrow> (scoreOf t, v\<lparr>shards := shs\<rparr>))"

definition GetPhantomFills :: "'t Validator \<Rightarrow> int" where
  "GetPhantomFills v = sum64 (\<lambda>(sy, s). phantomFills s) (shards v) 0"

definition GetPriorityViolations :: "'t Validator \<Rightarrow> int" where
  "GetPriorityViolations v = sum64 (\<lambda>(sy, s). priorityViolations s) (shards v) 0"

section \<open>Events\<close>

datatype vevent =
    EOrder int string string int int
  | EAck int string
  | EFill int int int "int list"
  | EScore

fun vstep :: "'t rbt_ops \<Rightarrow> vevent \<Rightarrow> 't Validator \<Rightarrow> 't Validator" where
  "vstep T (EOrder i ty sd p q) v = ProcessOrder T i ty sd p q v"
| "vstep T (EAck i st) v = ProcessAck T i st v"
| "vstep T (EFill i q p m) v = ProcessFill T i q p m v"
| "vstep T EScore v = snd (GetCorrectnessScore v)"

definition vrun :: "'t rbt_ops \<Rightarrow> vevent list \<Rightarrow> 't Validator" where
  "vrun T evs = fold (vstep T) evs NewValidator"

end
