(* ===== verification/Shadow_Inv.thy ===== *)
theory Shadow_Inv
  imports Shadow_Validator
begin

text \<open>
  The invariant of a shard and its preservation. \<open>shard_ok\<close> says that both books are
  well-formed trees of non-empty FIFO levels of positive orders on the right side, that
  element addresses are unique, that every entry of \<^verbatim>\<open>orderMap\<close> points to an element of the
  book it names, and that the two books do not cross except between orders of one bot.
\<close>

section \<open>The invariant\<close>

definition better :: "bool \<Rightarrow> int \<Rightarrow> int \<Rightarrow> bool" where
  \<comment> \<open>price \<open>p\<close> has priority over \<open>q\<close> on the given side\<close>
  "better buy p q \<longleftrightarrow> (if buy then q < p else p < q)"

definition resting :: "'t rbt_ops \<Rightarrow> bool \<Rightarrow> 't SymbolShard \<Rightarrow> element list" where
  "resting T buy s = flat (Entries T (bookSide buy s))"

definition book_ok :: "'t rbt_ops \<Rightarrow> ('t \<Rightarrow> bool) \<Rightarrow> ('t \<Rightarrow> int \<Rightarrow> int \<Rightarrow> int) \<Rightarrow> bool \<Rightarrow> 't SymbolShard \<Rightarrow> bool" where
  "book_ok T ok cmpOf buy s \<longleftrightarrow> ok (bookSide buy s) \<and>
     cmpOf (bookSide buy s) = (if buy then int64DescComparator T else Int64Comparator T) \<and>
     (\<forall>e \<in> set (Entries T (bookSide buy s)). level_ok buy e)"

definition refs_ok :: "'t rbt_ops \<Rightarrow> 't SymbolShard \<Rightarrow> bool" where
  "refs_ok T s \<longleftrightarrow> (\<forall>i r. map_of (orderMap s) i = Some r \<longrightarrow>
     (\<exists>ord. (ref_addr r, ord) \<in> set (resting T (ToLower (ref_side r) = ''buy'') s) \<and>
        ID ord = i \<and> Side ord = ref_side r \<and> Price ord = ref_price r))"

definition addrs_ok :: "'t rbt_ops \<Rightarrow> 't SymbolShard \<Rightarrow> bool" where
  "addrs_ok T s \<longleftrightarrow> distinct (map fst (resting T True s @ resting T False s)) \<and>
     (\<forall>a \<in> set (map fst (resting T True s @ resting T False s)). a < nextAddr s)"

definition pending_ok :: "'t SymbolShard \<Rightarrow> bool" where
  "pending_ok s \<longleftrightarrow> (\<forall>i ord. map_of (pendingOrders s) i = Some ord \<longrightarrow> ID ord = i \<and> in64 (Quantity ord))"

definition uncrossed :: "'t rbt_ops \<Rightarrow> 't SymbolShard \<Rightarrow> bool" where
  "uncrossed T s \<longleftrightarrow> (\<forall>(a, b) \<in> set (resting T True s). \<forall>(a', k) \<in> set (resting T False s).
     Price b < Price k \<or> isSelfCross (ID b) (ID k))"

definition shard_ok :: "'t rbt_ops \<Rightarrow> ('t \<Rightarrow> bool) \<Rightarrow> ('t \<Rightarrow> int \<Rightarrow> int \<Rightarrow> int) \<Rightarrow> 't SymbolShard \<Rightarrow> bool" where
  "shard_ok T ok cmpOf s \<longleftrightarrow> book_ok T ok cmpOf True s \<and> book_ok T ok cmpOf False s \<and>
     refs_ok T s \<and> addrs_ok T s \<and> pending_ok s \<and> uncrossed T s"

lemmas inv_defs = shard_ok_def book_ok_def refs_ok_def addrs_ok_def pending_ok_def uncrossed_def resting_def

lemma shard_ok_book: "shard_ok T ok cmpOf s \<Longrightarrow> book_ok T ok cmpOf b s"
  by (cases b) (simp_all add: shard_ok_def)

section \<open>Operations that leave the books alone\<close>

lemma bookSide_eqI: "bids s' = bids s \<Longrightarrow> asks s' = asks s \<Longrightarrow> bookSide b s' = bookSide b s"
  by (simp add: bookSide_def)

lemma shard_ok_cong:
  assumes "bids s' = bids s" "asks s' = asks s" "orderMap s' = orderMap s" "nextAddr s' = nextAddr s"
    "pendingOrders s' = pendingOrders s"
  shows "shard_ok T ok cmpOf s' \<longleftrightarrow> shard_ok T ok cmpOf s"
  using assms bookSide_eqI [OF assms(1,2)] by (simp add: inv_defs)

lemma checkCleanup_shard_ok [simp]: "shard_ok T ok cmpOf (checkCleanup i s) \<longleftrightarrow> shard_ok T ok cmpOf s"
  by (rule shard_ok_cong) (simp_all add: frame)

lemma fold_checkCleanup_frame [frame]:
  "bids (fold checkCleanup ks s) = bids s" "asks (fold checkCleanup ks s) = asks s"
  "orderMap (fold checkCleanup ks s) = orderMap s" "nextAddr (fold checkCleanup ks s) = nextAddr s"
  "pendingOrders (fold checkCleanup ks s) = pendingOrders s"
  by (induction ks arbitrary: s) (simp_all add: frame)

lemma shard_ok_pending:
  assumes "shard_ok T ok cmpOf s" "pending_ok (s\<lparr>pendingOrders := p\<rparr>)"
  shows "shard_ok T ok cmpOf (s\<lparr>pendingOrders := p\<rparr>)"
proof -
  have "bookSide b (s\<lparr>pendingOrders := p\<rparr>) = bookSide b s" for b by (rule bookSide_eqI) simp_all
  then show ?thesis using assms by (simp add: inv_defs)
qed

lemma pending_ok_eq: "pending_ok (s\<lparr>pendingOrders := p\<rparr>) \<longleftrightarrow>
    (\<forall>i ord. map_of p i = Some ord \<longrightarrow> ID ord = i \<and> in64 (Quantity ord))"
  by (simp add: pending_ok_def)

lemma ackViolation_shard_ok [simp]: "shard_ok T ok cmpOf (ackViolation i s) \<longleftrightarrow> shard_ok T ok cmpOf s"
  unfolding ackViolation_def by (simp, rule shard_ok_cong) simp_all

lemma shardOrder_shard_ok:
  fixes s :: "'t SymbolShard"
  assumes "shard_ok T ok cmpOf s" "in64 q"
  shows "shard_ok T ok cmpOf (shardOrder i ty sd p q s)"
proof -
  have upd: "shard_ok T ok cmpOf (s'\<lparr>pendingOrders := AList.update i
      \<lparr>ID = i, Type = ty, Side = sd, Price = p, Quantity = q\<rparr> (pendingOrders s')\<rparr>)"
    if "shard_ok T ok cmpOf s'" for s' :: "'t SymbolShard"
    using that assms(2)
    by (intro shard_ok_pending)
       (auto simp: pending_ok_eq gomap_simps shard_ok_def pending_ok_def split: if_splits)
  have dup: "shard_ok T ok cmpOf (s'\<lparr>duplicateOrders := d\<rparr>)"
    if "shard_ok T ok cmpOf s'" for d and s' :: "'t SymbolShard"
    using that by (subst shard_ok_cong [of _ s']) simp_all
  show ?thesis
    unfolding shardOrder_def Let_def using assms(1) by (simp only: checkCleanup_shard_ok upd dup simp_thms split: if_split)
qed

lemma shardFill_shard_ok: "shard_ok T ok cmpOf s \<Longrightarrow> shard_ok T ok cmpOf (shardFill i q p m s)"
  by (simp add: shardFill_def Let_def) (subst shard_ok_cong [of _ s], simp_all)

section \<open>Trades\<close>

lemma applyTrade_frame [frame]:
  "pendingOrders (applyTrade inc t s) = pendingOrders s" "nextAddr (applyTrade inc t s) = nextAddr s"
  "orderMap (applyTrade inc t s) = (if t_done t then AList.delete (t_resting t) (orderMap s) else orderMap s)"
  by (simp_all add: applyTrade_def Let_def frame)

lemma applyTrades_frame [frame]:
  "pendingOrders (applyTrades inc ts s) = pendingOrders s" "nextAddr (applyTrades inc ts s) = nextAddr s"
  by (induction ts arbitrary: s) (simp_all add: frame)

lemma applyTrades_orderMap:
  "map_of (orderMap (applyTrades inc ts s)) i =
     (if \<exists>t \<in> set ts. t_done t \<and> t_resting t = i then None else map_of (orderMap s) i)"
  by (induction ts arbitrary: s) (auto simp: frame gomap_simps)

lemma sweep_keeps:
  assumes "sweep stop inc rem0 xs = (bk, rm, ts)" "(a, r) \<in> set xs"
  shows "(\<exists>q. (a, r\<lparr>Quantity := q\<rparr>) \<in> set bk) \<or> (\<exists>t \<in> set ts. t_done t \<and> t_resting t = ID r)"
  using assms
proof (induction xs arbitrary: rem0 bk ts)
  case (Cons e xs)
  obtain b r' where e: "e = (b, r')" by fastforce
  have self: "(a, r) \<in> set ys \<Longrightarrow> \<exists>q. (a, r\<lparr>Quantity := q\<rparr>) \<in> set ys" for ys
    by (intro exI [of _ "Quantity r"]) simp
  from Cons.prems(1) [unfolded e] show ?case
  proof (cases rule: sweep_ConsE)
    case stop
    then show ?thesis using self Cons.prems(2) e by blast
  next
    case (self bk1)
    then show ?thesis using Cons.IH [OF self(4)] Cons.prems(2) e \<open>\<And>ys. (a, r) \<in> set ys \<Longrightarrow> _\<close> [of bk] by auto
  next
    case (trade q t bk1 ts1)
    then show ?thesis using Cons.IH [OF trade(6)] Cons.prems(2) e by (auto split: if_splits)
  qed
qed simp

lemma sweep_complete:
  \<comment> \<open>an order with quantity left has met every order it could trade with\<close>
  assumes "sweep stop inc rem0 xs = (bk, rm, ts)" "0 < rm" "(a, r) \<in> set bk"
    and "sorted_wrt (\<lambda>x y. stop (snd x) \<longrightarrow> stop (snd y)) xs"
  shows "stop r \<or> isSelfCross inc (ID r)"
  using assms
proof (induction xs arbitrary: rem0 bk ts)
  case (Cons e xs)
  obtain b r' where e: "e = (b, r')" by fastforce
  have s: "sorted_wrt (\<lambda>x y. stop (snd x) \<longrightarrow> stop (snd y)) xs" using Cons.prems(4) by simp
  from Cons.prems(1) [unfolded e] show ?case
  proof (cases rule: sweep_ConsE)
    case stop
    then show ?thesis using Cons.prems(2-4) e by auto
  next
    case (self bk1)
    then show ?thesis using Cons.IH [OF self(4) Cons.prems(2) _ s] Cons.prems(3) e by auto
  next
    case (trade q t bk1 ts1)
    show ?thesis
    proof (cases "(a, r) \<in> set bk1")
      case True
      then show ?thesis using Cons.IH [OF trade(6) Cons.prems(2) _ s] by simp
    next
      case False
      then have "q \<noteq> Quantity r'" using trade(7) Cons.prems(3) by (auto split: if_splits)
      then have "rem0 - q \<le> 0" using trade(4) by (auto simp: min_def split: if_splits)
      then have "rm \<le> 0" using trade(6) by (simp add: sweep_stops)
      then show ?thesis using Cons.prems(2) by simp
    qed
  qed
qed simp

section \<open>The books in priority order\<close>

lemma flat_level:
  assumes "\<forall>e \<in> set es. level_ok b e" "(a, r) \<in> set (flat es)"
  obtains l where "(Price r, l) \<in> set es" "(a, r) \<in> set (Orders l)"
proof -
  obtain p l where "(p, l) \<in> set es" "(a, r) \<in> set (Orders l)" using assms(2) by (auto simp: flat_def)
  moreover from this have "Price r = p" using assms(1) by (force simp: level_ok_def)
  ultimately show thesis using that by metis
qed

lemma flat_prices:
  assumes "\<forall>e \<in> set es. level_ok b e" "\<And>p l. (p, l) \<in> set es \<Longrightarrow> Q p"
  shows "\<forall>(a, r) \<in> set (flat es). Q (Price r)"
  using flat_level [OF assms(1)] assms(2) by (metis (no_types, lifting) case_prodI2)

lemma level_ok_price: "level_ok b (p, l) \<Longrightarrow> \<forall>(a, r) \<in> set (Orders l). Price r = p"
  by (auto simp: level_ok_def)

lemma better_asym: "better b p q \<Longrightarrow> \<not> better b q p"
  by (auto simp: better_def split: if_splits)

lemma level_ok_order:
  assumes "book_ok T ok cmpOf b s" "(a, r) \<in> set (resting T b s)"
  shows "0 < Quantity r" "in64 (Quantity r)" "ToLower (Side r) = (if b then ''buy'' else ''sell'')"
  using assms by (force simp: book_ok_def level_ok_def resting_def flat_def)+

lemma isSelfCross_sym: "isSelfCross a b = isSelfCross b a"
  by (auto simp: isSelfCross_def)

lemma addrs_ok_side:
  "addrs_ok T s \<longleftrightarrow> distinct (map fst (resting T b s)) \<and> distinct (map fst (resting T (\<not> b) s)) \<and>
     fst ` set (resting T b s) \<inter> fst ` set (resting T (\<not> b) s) = {} \<and>
     (\<forall>a \<in> fst ` set (resting T b s). a < nextAddr s) \<and> (\<forall>a \<in> fst ` set (resting T (\<not> b) s). a < nextAddr s)"
  by (cases b) (simp_all add: addrs_ok_def ball_Un Int_commute conj_ac)

lemma uncrossed_side:
  "uncrossed T s \<longleftrightarrow> (\<forall>x \<in> set (resting T b s). \<forall>y \<in> set (resting T (\<not> b) s).
     better b (Price (snd y)) (Price (snd x)) \<or> isSelfCross (ID (snd x)) (ID (snd y)))"
proof (cases b)
  case True
  then show ?thesis by (simp add: uncrossed_def better_def case_prod_beta)
next
  case False
  have "uncrossed T s \<longleftrightarrow> (\<forall>y \<in> set (resting T True s). \<forall>x \<in> set (resting T False s).
     Price (snd y) < Price (snd x) \<or> isSelfCross (ID (snd y)) (ID (snd x)))"
    by (simp add: uncrossed_def case_prod_beta)
  then show ?thesis using False isSelfCross_sym by (simp add: better_def) blast
qed

context price_tree
begin

lemma cmp_better:
  "book_ok T ok cmpOf b s \<Longrightarrow> cmpOf (bookSide b s) p q < 0 \<longleftrightarrow> better b p q"
  by (auto simp: book_ok_def better_def comparator desc_comparator)

lemma book_sorted:
  "book_ok T ok cmpOf b s \<Longrightarrow> sorted_wrt (better b) (map fst (Entries T (bookSide b s)))"
  using entries_sorted [of "bookSide b s"] cmp_better [of b s] by (simp add: book_ok_def)

lemma new_shard_ok: "shard_ok T ok cmpOf (NewSymbolShard T)"
proof -
  have "Entries T (bookSide b (NewSymbolShard T)) = []" for b
    by (simp add: bookSide_def NewSymbolShard_def new_entries)
  moreover have "book_ok T ok cmpOf b (NewSymbolShard T)" for b
    using new_ok strict_comparators calculation [of b]
    by (auto simp: book_ok_def bookSide_def NewSymbolShard_def new_cmp)
  ultimately show ?thesis
    by (simp add: shard_ok_def refs_ok_def addrs_ok_def pending_ok_def uncrossed_def resting_def)
       (simp add: NewSymbolShard_def)
qed

lemma put_book_ok:
  assumes "book_ok T ok cmpOf b s" "level_ok b (p, l)" "bookSide b s' = Put T (bookSide b s) p l"
  shows "book_ok T ok cmpOf b s'"
proof -
  have "ok (bookSide b s)" using assms(1) by (simp add: book_ok_def)
  note pm = put_map [OF this, of p l] put_ok [OF this, of p l] put_cmp [OF this, of p l]
  have "e \<in> set (Entries T (bookSide b s)) \<or> e = (p, l)" if "e \<in> set (Entries T (bookSide b s'))" for e
  proof -
    have "map_of (Entries T (bookSide b s')) (fst e) = Some (snd e)"
      using that keys_distinct [OF pm(2)] assms(3) by simp
    then have "(if fst e = p then Some l else map_of (Entries T (bookSide b s)) (fst e)) = Some (snd e)"
      using pm(1) assms(3) by simp
    then show ?thesis by (auto split: if_splits dest!: map_of_SomeD simp: prod_eq_iff)
  qed
  then show ?thesis using assms pm(2,3) by (auto simp: book_ok_def)
qed

lemma addOrderToBook_resting:
  assumes b: "book_ok T ok cmpOf b s" and o: "0 < Quantity order" "in64 (Quantity order)"
    "ToLower (Side order) = (if b then ''buy'' else ''sell'')"
  obtains xs ys where "resting T b s = xs @ ys"
    "resting T b (addOrderToBook T order b s) = xs @ (nextAddr s, order) # ys"
    "\<forall>(a, r) \<in> set xs. \<not> better b (Price order) (Price r)"
    "\<forall>(a, r) \<in> set ys. better b (Price order) (Price r)"
    "book_ok T ok cmpOf b (addOrderToBook T order b s)"
proof -
  define t where "t = bookSide b s"
  define s' where "s' = addOrderToBook T order b s"
  have t: "ok t" "\<forall>e \<in> set (Entries T t). level_ok b e" using b by (auto simp: book_ok_def t_def)
  have lok: "level_ok b (Price order, l\<lparr>Orders := Orders l @ [(nextAddr s, order)]\<rparr>)"
    if "level_ok b (Price order, l) \<or> l = \<lparr>LevelPrice = Price order, Orders = []\<rparr>" for l
    using that o by (auto simp: level_ok_def)
  note es = book_sorted [OF b, folded t_def]
  show thesis
  proof (cases "map_of (Entries T t) (Price order)")
    case None
    have nl: "level_ok b (Price order, \<lparr>LevelPrice = Price order, Orders = [(nextAddr s, order)]\<rparr>)"
      using lok [of "\<lparr>LevelPrice = Price order, Orders = []\<rparr>"] by simp
    have bs: "bookSide b s' = Put T t (Price order) \<lparr>LevelPrice = Price order, Orders = [(nextAddr s, order)]\<rparr>"
      using None by (simp add: s'_def addOrderToBook_def Let_def get_entries [OF t(1)] t_def [symmetric])
    have "Price order \<notin> fst ` set (Entries T t)" using None by (simp add: map_of_eq_None_iff)
    then obtain es1 es2 where e: "Entries T t = es1 @ es2"
      "Entries T (Put T t (Price order) \<lparr>LevelPrice = Price order, Orders = [(nextAddr s, order)]\<rparr>) =
        es1 @ (Price order, \<lparr>LevelPrice = Price order, Orders = [(nextAddr s, order)]\<rparr>) # es2"
      and c: "\<And>p l. (p, l) \<in> set es1 \<Longrightarrow> cmpOf t p (Price order) < 0" "\<And>p l. (p, l) \<in> set es2 \<Longrightarrow> cmpOf t (Price order) p < 0"
      by (rule put_new [OF t(1), where v = "\<lparr>LevelPrice = Price order, Orders = [(nextAddr s, order)]\<rparr>"]) (rule that)
    note e = e [folded bs] and c = c [unfolded t_def cmp_better [OF b]]
    show thesis
    proof (rule that [of "flat es1" "flat es2"])
      show "\<forall>(a, r) \<in> set (flat es1). \<not> better b (Price order) (Price r)"
        using t(2) e(1) c(1) by (intro flat_prices [where b = b] better_asym) auto
      show "\<forall>(a, r) \<in> set (flat es2). better b (Price order) (Price r)"
        using t(2) e(1) c(2) by (intro flat_prices [where b = b]) auto
      show "book_ok T ok cmpOf b (addOrderToBook T order b s)"
        using put_book_ok [OF b nl] bs by (simp add: s'_def t_def)
    qed (use e in \<open>simp_all add: resting_def t_def s'_def\<close>)
  next
    case (Some l)
    have l: "(Price order, l) \<in> set (Entries T t)" using Some by (rule map_of_SomeD)
    then obtain es1 es2 where e: "Entries T t = es1 @ (Price order, l) # es2" by (meson split_list)
    have nl: "level_ok b (Price order, l\<lparr>Orders := Orders l @ [(nextAddr s, order)]\<rparr>)"
      using lok [of l] t(2) l by blast
    have bs: "bookSide b s' = Put T t (Price order) (l\<lparr>Orders := Orders l @ [(nextAddr s, order)]\<rparr>)"
      using Some by (simp add: s'_def addOrderToBook_def Let_def get_entries [OF t(1)] t_def [symmetric])
    have e': "Entries T (bookSide b s') = es1 @ (Price order, l\<lparr>Orders := Orders l @ [(nextAddr s, order)]\<rparr>) # es2"
      using put_existing [OF t(1) e] bs by simp
    have keys: "\<And>p l. (p, l) \<in> set es1 \<Longrightarrow> better b p (Price order)" "\<And>p l. (p, l) \<in> set es2 \<Longrightarrow> better b (Price order) p"
      using es by (auto simp: e sorted_wrt_append)
    show thesis
    proof (rule that [of "flat es1 @ Orders l" "flat es2"])
      have "\<forall>(a, r) \<in> set (flat es1). \<not> better b (Price order) (Price r)"
        using t(2) e keys(1) by (intro flat_prices [where b = b] better_asym) auto
      moreover have "\<forall>(a, r) \<in> set (Orders l). Price r = Price order"
        using t(2) l level_ok_price by blast
      ultimately show "\<forall>(a, r) \<in> set (flat es1 @ Orders l). \<not> better b (Price order) (Price r)"
        by (auto simp: better_def)
      show "\<forall>(a, r) \<in> set (flat es2). better b (Price order) (Price r)"
        using t(2) e keys(2) by (intro flat_prices [where b = b]) auto
      show "book_ok T ok cmpOf b (addOrderToBook T order b s)"
        using put_book_ok [OF b nl] bs by (simp add: s'_def t_def)
    qed (use e e' in \<open>simp_all add: resting_def t_def s'_def\<close>)
  qed
qed

lemma addOrderToBook_shard_ok:
  assumes s: "shard_ok T ok cmpOf s" and o: "0 < Quantity order" "in64 (Quantity order)"
    "ToLower (Side order) = (if b then ''buy'' else ''sell'')"
    and cross: "\<forall>(a, r) \<in> set (resting T (\<not> b) s). better b (Price r) (Price order) \<or> isSelfCross (ID order) (ID r)"
  shows "shard_ok T ok cmpOf (addOrderToBook T order b s)"
proof -
  define s' where "s' = addOrderToBook T order b s"
  have b: "book_ok T ok cmpOf b s" "book_ok T ok cmpOf (\<not> b) s" using s by (simp_all add: shard_ok_book)
  obtain xs ys where r: "resting T b s = xs @ ys" "resting T b s' = xs @ (nextAddr s, order) # ys"
    and b': "book_ok T ok cmpOf b s'"
    using addOrderToBook_resting [OF b(1) o] by (metis s'_def)
  have f: "nextAddr s' = Suc (nextAddr s)" "pendingOrders s' = pendingOrders s" "bookSide (\<not> b) s' = bookSide (\<not> b) s"
    "orderMap s' = AList.update (ID order) \<lparr>ref_addr = nextAddr s, ref_side = Side order, ref_price = Price order\<rparr> (orderMap s)"
    by (simp_all add: s'_def addOrderToBook_def Let_def frame)
  have nb: "resting T (\<not> b) s' = resting T (\<not> b) s" "book_ok T ok cmpOf (\<not> b) s'"
    using f(3) b(2) by (simp_all add: resting_def book_ok_def)
  have "book_ok T ok cmpOf True s' \<and> book_ok T ok cmpOf False s'" using b' nb(2) by (cases b) simp_all
  moreover have "refs_ok T s'"
  proof -
    have sub: "set (resting T d s) \<subseteq> set (resting T d s')" for d using r nb(1) by (cases "d = b") auto
    have "(nextAddr s, order) \<in> set (resting T (ToLower (Side order) = ''buy'') s')" using o(3) r(2) by (cases b) auto
    then show ?thesis using s sub f(4) by (fastforce simp: shard_ok_def refs_ok_def gomap_simps split: if_splits)
  qed
  moreover have "addrs_ok T s'"
  proof -
    have "addrs_ok T s" using s by (simp add: shard_ok_def)
    then show ?thesis unfolding addrs_ok_side [of _ _ b] r nb(1) f(1) by (auto simp: less_Suc_eq ball_Un)
  qed
  moreover have "pending_ok s'" using s f(2) by (simp add: shard_ok_def pending_ok_def)
  moreover have "uncrossed T s'"
  proof -
    have "uncrossed T s" using s by (simp add: shard_ok_def)
    then show ?thesis using cross unfolding uncrossed_side [of _ _ b] r nb(1) by auto
  qed
  ultimately show ?thesis by (simp add: shard_ok_def s'_def)
qed

lemma removeRestingOrder_found:
  assumes s: "shard_ok T ok cmpOf s" and i: "map_of (orderMap s) i = Some e"
  defines "b \<equiv> (ToLower (ref_side e) = ''buy'')"
  obtains s' where "removeRestingOrder T i s = (True, s')" "book_ok T ok cmpOf b s'"
    "resting T b s' = filter (\<lambda>(a, r). a \<noteq> ref_addr e) (resting T b s)" "bookSide (\<not> b) s' = bookSide (\<not> b) s"
    "orderMap s' = AList.delete i (orderMap s)" "nextAddr s' = nextAddr s" "pendingOrders s' = pendingOrders s"
proof -
  define t where "t = bookSide b s"
  have bk: "book_ok T ok cmpOf b s" using s by (rule shard_ok_book)
  have t: "ok t" "\<forall>e \<in> set (Entries T t). level_ok b e" using bk by (auto simp: book_ok_def t_def)
  obtain ord where ord: "(ref_addr e, ord) \<in> set (flat (Entries T t))" "ID ord = i" "Price ord = ref_price e"
    using s i by (auto simp: shard_ok_def refs_ok_def resting_def t_def b_def)
  obtain l where l: "(ref_price e, l) \<in> set (Entries T t)" "(ref_addr e, ord) \<in> set (Orders l)"
    using flat_level [OF t(2) ord(1)] ord(3) by metis
  obtain es1 es2 where es: "Entries T t = es1 @ (ref_price e, l) # es2" using l(1) by (meson split_list)
  define os where "os = filter (\<lambda>(a, r). a \<noteq> ref_addr e) (Orders l)"
  define t' where "t' = (if os = [] then Remove T t (ref_price e) else Put T t (ref_price e) (l\<lparr>Orders := os\<rparr>))"
  define s' where "s' = setBookSide b t' (s\<lparr>orderMap := AList.delete i (orderMap s)\<rparr>)"
  have "Get T t (ref_price e) = Some l"
    using get_entries [OF t(1)] l(1) keys_distinct [OF t(1)] by simp
  then have "removeRestingOrder T i s = (True, s')"
    using i by (simp add: removeRestingOrder_def Let_def s'_def t'_def os_def t_def b_def)
  moreover have bs: "bookSide b s' = t'" "bookSide (\<not> b) s' = bookSide (\<not> b) s" by (simp_all add: s'_def frame)
  moreover have d: "distinct (map fst (flat (Entries T t)))"
    using s by (cases b) (auto simp: shard_ok_def addrs_ok_def resting_def t_def)
  have "ref_addr e \<notin> fst ` set (flat es1)" "ref_addr e \<notin> fst ` set (flat es2)"
    using d l(2) unfolding es by (force simp: image_iff)+
  then have "filter (\<lambda>(a, r). a \<noteq> ref_addr e) (flat (Entries T t)) = flat es1 @ os @ flat es2"
    by (simp add: es os_def filter_key_absent)
  moreover have k: "ref_price e \<notin> fst ` set es1" "ref_price e \<notin> fst ` set es2"
    using keys_distinct [OF t(1)] es by auto
  have "filter (\<lambda>x. fst x \<noteq> ref_price e) (Entries T t) = es1 @ es2"
    unfolding es using k by (simp add: filter_key_absent)
  then have "Entries T t' = (if os = [] then es1 @ es2 else es1 @ (ref_price e, l\<lparr>Orders := os\<rparr>) # es2)"
    using remove_entries [OF t(1), of "ref_price e"] put_existing [OF t(1) es] by (simp add: t'_def)
  moreover from this have "flat (Entries T t') = flat es1 @ os @ flat es2" by simp
  moreover have "os \<noteq> [] \<longrightarrow> level_ok b (ref_price e, l\<lparr>Orders := os\<rparr>)"
    using t(2) l(1) by (force simp: level_ok_def os_def)
  then have "book_ok T ok cmpOf b s'"
    using bk t bs(1) es \<open>Entries T t' = _\<close> remove_ok [OF t(1)] put_ok [OF t(1)] remove_cmp [OF t(1)] put_cmp [OF t(1)]
    by (auto simp: book_ok_def t'_def t_def)
  ultimately show thesis
    by (intro that [of s']) (simp_all add: resting_def s'_def frame t_def)
qed

lemma removeRestingOrder_shard_ok:
  assumes s: "shard_ok T ok cmpOf s"
  shows "shard_ok T ok cmpOf (snd (removeRestingOrder T i s))"
proof (cases "map_of (orderMap s) i")
  case None
  then show ?thesis using s by (simp add: removeRestingOrder_def)
next
  case (Some e)
  define b where "b = (ToLower (ref_side e) = ''buy'')"
  obtain s' where r: "removeRestingOrder T i s = (True, s')" "book_ok T ok cmpOf b s'"
    "resting T b s' = filter (\<lambda>(a, r). a \<noteq> ref_addr e) (resting T b s)" "bookSide (\<not> b) s' = bookSide (\<not> b) s"
    "orderMap s' = AList.delete i (orderMap s)" "nextAddr s' = nextAddr s" "pendingOrders s' = pendingOrders s"
    by (rule removeRestingOrder_found [OF s Some, folded b_def]) (rule that)
  have nb: "resting T (\<not> b) s' = resting T (\<not> b) s" "book_ok T ok cmpOf (\<not> b) s'"
    using r(4) s by (cases b; simp add: resting_def book_ok_def shard_ok_def)+
  have sub: "set (resting T d s') \<subseteq> set (resting T d s)" for d using r(3) nb(1) by (cases "d = b") auto
  have "book_ok T ok cmpOf True s' \<and> book_ok T ok cmpOf False s'" using r(2) nb(2) by (cases b) simp_all
  moreover have "addrs_ok T s'"
  proof -
    have "addrs_ok T s" using s by (simp add: shard_ok_def)
    then show ?thesis unfolding addrs_ok_side [of _ _ b] nb(1) r(3,6)
      by (auto simp: distinct_map_filter)
  qed
  moreover have "refs_ok T s'" unfolding refs_ok_def
  proof (intro allI impI)
    fix j r' assume j: "map_of (orderMap s') j = Some r'"
    then have "j \<noteq> i" "map_of (orderMap s) j = Some r'" using r(5) by (auto simp: gomap_simps split: if_splits)
    moreover obtain ord where o: "(ref_addr e, ord) \<in> set (resting T b s)" "ID ord = i"
      using s Some by (auto simp: shard_ok_def refs_ok_def b_def)
    moreover obtain ord' where o': "(ref_addr r', ord') \<in> set (resting T (ToLower (ref_side r') = ''buy'') s)"
      "ID ord' = j" "Side ord' = ref_side r'" "Price ord' = ref_price r'"
      using s calculation(2) by (auto simp: shard_ok_def refs_ok_def)
    moreover have "distinct (map fst (resting T b s))" using s by (cases b) (auto simp: shard_ok_def addrs_ok_def)
    then have "ref_addr r' \<noteq> ref_addr e" if "(ToLower (ref_side r') = ''buy'') = b"
      using o o' \<open>j \<noteq> i\<close> that by (auto dest: eq_key_imp_eq_value)
    ultimately show "\<exists>ord. (ref_addr r', ord) \<in> set (resting T (ToLower (ref_side r') = ''buy'') s') \<and>
        ID ord = j \<and> Side ord = ref_side r' \<and> Price ord = ref_price r'"
      using r(3) nb(1) by (intro exI [of _ ord']) (cases "(ToLower (ref_side r') = ''buy'') = b"; auto)
  qed
  moreover have "pending_ok s'" using s r(7) by (simp add: shard_ok_def pending_ok_def)
  moreover have "uncrossed T s'" using s sub by (fastforce simp: shard_ok_def uncrossed_def)
  ultimately show ?thesis by (simp add: shard_ok_def r(1))
qed

lemma flat_sorted:
  assumes "sorted_wrt (better b) (map fst es)" "\<forall>e \<in> set es. level_ok b e"
  shows "sorted_wrt (\<lambda>x y. \<not> better b (Price (snd y)) (Price (snd x))) (flat es)"
  using assms
proof (induction es)
  case (Cons e es)
  obtain p l where e: "e = (p, l)" by fastforce
  have l: "\<forall>x \<in> set (Orders l). Price (snd x) = p" using level_ok_price [of b p l] Cons.prems(2) e by fastforce
  have "\<forall>(a, r) \<in> set (flat es). \<not> better b (Price r) p"
    using Cons.prems e by (intro flat_prices [where b = b] better_asym) auto
  moreover have "sorted_wrt (\<lambda>x y. \<not> better b (Price (snd y)) (Price (snd x))) (Orders l)"
    using l by (intro sorted_wrt_mono_rel [OF _ sorted_wrt_true]) (auto simp: better_def)
  ultimately show ?case using Cons l by (auto simp: e sorted_wrt_append)
qed simp

lemma resting_sorted:
  "book_ok T ok cmpOf b s \<Longrightarrow> sorted_wrt (\<lambda>x y. \<not> better b (Price (snd y)) (Price (snd x))) (resting T b s)"
  using flat_sorted [OF book_sorted] by (simp add: book_ok_def resting_def)

lemma limitStop_sorted:
  assumes "book_ok T ok cmpOf (\<not> buy) s"
  shows "sorted_wrt (\<lambda>x y. limitStop buy ul order (snd x) \<longrightarrow> limitStop buy ul order (snd y)) (resting T (\<not> buy) s)"
  by (rule sorted_wrt_mono_rel [OF _ resting_sorted [OF assms]])
     (auto simp: limitStop_def beyondLimit_def better_def split: if_splits)

lemma resting_posQty: "book_ok T ok cmpOf b s \<Longrightarrow> posQty (resting T b s)"
  using level_ok_order [of T ok cmpOf b s] by (auto simp: posQty_def)

lemma matchSide_shard_ok:
  assumes s: "shard_ok T ok cmpOf s" and q: "in64 (Quantity order)"
    and sw: "sweep (limitStop buy ul order) (ID order) (Quantity order) (resting T (\<not> buy) s) = (bk, rm, ts)"
  obtains s' where "matchSide T buy order ul s = (rm, s')" "shard_ok T ok cmpOf s'"
    "resting T (\<not> buy) s' = bk" "resting T buy s' = resting T buy s"
proof -
  have nb: "book_ok T ok cmpOf (\<not> buy) s" and b: "book_ok T ok cmpOf buy s" using shard_ok_book [OF s] by simp_all
  note pos = resting_posQty [OF nb]
  have nb': "ok (bookSide (\<not> buy) s)" "\<forall>e \<in> set (Entries T (bookSide (\<not> buy) s)). level_ok (\<not> buy) e"
    using nb by (simp_all add: book_ok_def)
  obtain t' where m: "matchSide T buy order ul s = (rm, applyTrades (ID order) ts (setBookSide (\<not> buy) t' s))"
    and t': "ok t'" "cmpOf t' = cmpOf (bookSide (\<not> buy) s)" "flat (Entries T t') = bk"
       "\<forall>e \<in> set (Entries T t'). level_ok (\<not> buy) e"
    using matchSide_sweep [OF nb' q sw [unfolded resting_def]] by blast
  define s' where "s' = applyTrades (ID order) ts (setBookSide (\<not> buy) t' s)"
  have bs: "bookSide (\<not> buy) s' = t'" "bookSide buy s' = bookSide buy s" by (simp_all add: s'_def frame)
  have r: "resting T (\<not> buy) s' = bk" "resting T buy s' = resting T buy s" by (simp_all add: resting_def bs t')
  have bk: "book_ok T ok cmpOf (\<not> buy) s'" "book_ok T ok cmpOf buy s'"
    using b nb t' by (simp_all add: book_ok_def bs)
  have ra: "nextAddr s' = nextAddr s" "pendingOrders s' = pendingOrders s" by (simp_all add: s'_def frame)
  have "book_ok T ok cmpOf True s' \<and> book_ok T ok cmpOf False s'" using bk by (cases buy) simp_all
  moreover have "addrs_ok T s'"
  proof -
    have "addrs_ok T s" using s by (simp add: shard_ok_def)
    then show ?thesis using sweep_addrs [OF sw] unfolding addrs_ok_side [of _ _ "\<not> buy"] not_not r ra set_map
      by (elim conjE, intro conjI; blast)
  qed
  moreover have "refs_ok T s'" unfolding refs_ok_def
  proof (intro allI impI)
    fix i e assume "map_of (orderMap s') i = Some e"
    then have e: "\<not> (\<exists>t \<in> set ts. t_done t \<and> t_resting t = i)" "map_of (orderMap s) i = Some e"
      by (auto simp: s'_def applyTrades_orderMap frame split: if_splits)
    then obtain ord where o: "(ref_addr e, ord) \<in> set (resting T (ToLower (ref_side e) = ''buy'') s)"
      "ID ord = i" "Side ord = ref_side e" "Price ord = ref_price e"
      using s unfolding shard_ok_def refs_ok_def by blast
    show "\<exists>ord. (ref_addr e, ord) \<in> set (resting T (ToLower (ref_side e) = ''buy'') s') \<and>
        ID ord = i \<and> Side ord = ref_side e \<and> Price ord = ref_price e"
    proof (cases "(ToLower (ref_side e) = ''buy'') = buy")
      case True
      then show ?thesis using o r(2) by auto
    next
      case False
      then have side: "(ToLower (ref_side e) = ''buy'') = (\<not> buy)" by simp
      obtain q where "(ref_addr e, ord\<lparr>Quantity := q\<rparr>) \<in> set bk"
        using sweep_keeps [OF sw o(1) [unfolded side]] e(1) o(2) by auto
      then show ?thesis using o(2-4) by (intro exI [of _ "ord\<lparr>Quantity := q\<rparr>"]) (simp add: side r)
    qed
  qed
  moreover have "pending_ok s'" using s ra by (simp add: shard_ok_def pending_ok_def)
  moreover have "uncrossed T s'"
  proof -
    have u: "uncrossed T s" using s by (simp add: shard_ok_def)
    have "\<exists>y' \<in> set (resting T (\<not> buy) s). Price (snd y') = Price (snd y) \<and> ID (snd y') = ID (snd y)" if y: "y \<in> set bk" for y
    proof -
      obtain a r' where ar: "y = (a, r')" by fastforce
      obtain r0 where "(a, r0) \<in> set (resting T (\<not> buy) s)" and "r' = r0\<lparr>Quantity := Quantity r'\<rparr>"
        using sweep_orders [OF sw pos, of a r'] y ar by blast
      then show ?thesis using ar by (intro bexI [of _ "(a, r0)"]) (metis Order.select_convs(1,4) Order.surjective Order.update_convs(5) snd_conv)
    qed
    then show ?thesis using u unfolding uncrossed_side [of _ _ buy] r by (metis (no_types, lifting))
  qed
  ultimately have "shard_ok T ok cmpOf s'" by (simp add: shard_ok_def)
  then show thesis using that [of s'] m r s'_def by simp
qed

lemma sweep_ex:
  obtains bk rm ts where "sweep stop inc q xs = (bk, rm, ts)"
  by (metis prod_cases3)

lemma matchIncoming_shard_ok:
  assumes "shard_ok T ok cmpOf s" "in64 (Quantity order)"
  shows "shard_ok T ok cmpOf (snd (matchIncoming T order ul s))"
  using assms sweep_ex matchSide_shard_ok by (simp add: matchIncoming_def Let_def) (metis snd_conv)

lemma matchLimitOrder_shard_ok:
  assumes s: "shard_ok T ok cmpOf s" and q: "in64 (Quantity order)"
  shows "shard_ok T ok cmpOf (matchLimitOrder T order s)"
proof (cases "ToLower (Side order) = ''buy'' \<or> ToLower (Side order) = ''sell''")
  case True
  define buy where "buy = (ToLower (Side order) = ''buy'')"
  have side: "ToLower (Side order) = (if buy then ''buy'' else ''sell'')" using True by (auto simp: buy_def)
  obtain bk rm ts where sw: "sweep (limitStop buy True order) (ID order) (Quantity order) (resting T (\<not> buy) s) = (bk, rm, ts)"
    by (rule sweep_ex)
  obtain s' where m: "matchSide T buy order True s = (rm, s')" and s': "shard_ok T ok cmpOf s'"
    "resting T (\<not> buy) s' = bk" "resting T buy s' = resting T buy s"
    by (rule matchSide_shard_ok [OF s q sw]) (rule that)
  have mi: "matchIncoming T order True s = (rm, s')" using m side by (cases buy) (simp_all add: matchIncoming_def)
  note nb = shard_ok_book [OF s, of "\<not> buy"]
  have rm: "in64 rm" using sweep_in64 [OF sw resting_posQty [OF nb] q] by simp
  show ?thesis
  proof (cases "rm \<le> 0")
    case True
    then show ?thesis using s'(1) mi by (simp add: matchLimitOrder_def)
  next
    case False
    have cross: "\<forall>(a, r) \<in> set (resting T (\<not> buy) s'). better buy (Price r) (Price order) \<or> isSelfCross (ID order) (ID r)"
      using sweep_complete [OF sw _ _ limitStop_sorted [OF nb]] False s'(2)
      by (fastforce simp: limitStop_def beyondLimit_def better_def)
    have "shard_ok T ok cmpOf (addOrderToBook T (order\<lparr>Quantity := rm\<rparr>) buy s')"
      using False rm side cross s'(1) by (intro addOrderToBook_shard_ok) simp_all
    then show ?thesis using False mi side by (cases buy) (simp_all add: matchLimitOrder_def Let_def)
  qed
next
  case False
  then show ?thesis using s by (simp add: matchLimitOrder_def matchIncoming_def)
qed

lemma shardAck_shard_ok:
  assumes s: "shard_ok T ok cmpOf s"
  shows "shard_ok T ok cmpOf (shardAck T i st s)"
proof (cases "ToLower st = ''cancelled''")
  case True
  then show ?thesis using s removeRestingOrder_shard_ok [OF s] by (simp add: shardAck_def)
next
  case False
  show ?thesis
  proof (cases "map_of (pendingOrders s) i")
    case None
    have "shard_ok T ok cmpOf (s\<lparr>unknownAcks := k\<rparr>)" for k using s by (subst shard_ok_cong [of _ s]) simp_all
    then show ?thesis using False None s by (simp add: shardAck_def)
  next
    case (Some order)
    define s1 where "s1 = s\<lparr>pendingOrders := AList.delete i (pendingOrders s)\<rparr>"
    have q: "in64 (Quantity order)" using s Some by (auto simp: shard_ok_def pending_ok_def)
    have s1: "shard_ok T ok cmpOf s1" unfolding s1_def
      using s by (intro shard_ok_pending) (auto simp: pending_ok_eq gomap_simps shard_ok_def pending_ok_def split: if_splits)
    show ?thesis
      using False Some matchLimitOrder_shard_ok [OF s1 q] matchIncoming_shard_ok [OF s1 q, of False] s1
      by (simp add: shardAck_def Let_def s1_def [symmetric] matchMarketOrder_def)
  qed
qed

end

section \<open>Every reachable validator\<close>

definition validator_ok :: "'t rbt_ops \<Rightarrow> ('t \<Rightarrow> bool) \<Rightarrow> ('t \<Rightarrow> int \<Rightarrow> int \<Rightarrow> int) \<Rightarrow> 't Validator \<Rightarrow> bool" where
  "validator_ok T ok cmpOf v \<longleftrightarrow> (\<forall>x \<in> set (shards v). shard_ok T ok cmpOf (snd x))"

fun event_in64 :: "vevent \<Rightarrow> bool" where
  \<comment> \<open>quantities arrive as \<^verbatim>\<open>int64\<close>\<close>
  "event_in64 (EOrder i ty sd p q) = in64 q"
| "event_in64 _ = True"

lemma tallyOrder_frame:
  "tallyOrder e (t, s) = (t', s') \<Longrightarrow> bids s' = bids s \<and> asks s' = asks s \<and> orderMap s' = orderMap s \<and>
     nextAddr s' = nextAddr s \<and> pendingOrders s' = pendingOrders s"
  by (auto simp: tallyOrder_def priorityMatchedQty_def Let_def split: prod.splits if_splits)

lemma fold_tallyOrder_frame:
  "fold tallyOrder es (t, s) = (t', s') \<Longrightarrow> bids s' = bids s \<and> asks s' = asks s \<and> orderMap s' = orderMap s \<and>
     nextAddr s' = nextAddr s \<and> pendingOrders s' = pendingOrders s"
proof (induction es arbitrary: t s)
  case (Cons e es)
  obtain t1 s1 where 1: "tallyOrder e (t, s) = (t1, s1)" by fastforce
  then show ?case using Cons.IH [of t1 s1] Cons.prems tallyOrder_frame [OF 1] by simp
qed simp

lemma scoreShard_shard_ok:
  assumes "shard_ok T ok cmpOf s"
  shows "shard_ok T ok cmpOf (snd (scoreShard s t))"
proof -
  define s1 where "s1 = fold checkCleanup (gokeys (expectedFills s)) s"
  obtain t2 s2 where 2: "fold tallyOrder (expectedFills s1) (tallyShard s1 t, s1) = (t2, s2)" by fastforce
  show ?thesis
    using assms fold_tallyOrder_frame [OF 2]
    by (simp add: scoreShard_def Let_def s1_def [symmetric] 2) (simp add: shard_ok_cong [of s2 s] s1_def frame)
qed

lemma scoreShards_map:
  "snd (scoreShards ((sy, s) # rest) t) = (sy, snd (scoreShard s t)) # snd (scoreShards rest (fst (scoreShard s t)))"
  by (simp add: case_prod_beta)

lemma scoreShards_ok:
  "\<forall>x \<in> set shs. shard_ok T ok cmpOf (snd x) \<Longrightarrow> \<forall>x \<in> set (snd (scoreShards shs t)). shard_ok T ok cmpOf (snd x)"
proof (induction shs arbitrary: t)
  case (Cons e shs)
  obtain sy s where "e = (sy, s)" by fastforce
  then show ?case using Cons scoreShard_shard_ok [of T ok cmpOf s t] by (simp only: scoreShards_map) simp
qed simp

lemma validator_ok_onShard:
  assumes "validator_ok T ok cmpOf v" "shard_ok T ok cmpOf (NewSymbolShard T)"
    and "\<And>s. shard_ok T ok cmpOf s \<Longrightarrow> shard_ok T ok cmpOf (f s)"
  shows "validator_ok T ok cmpOf (onShard T sy f v)"
proof -
  have "shard_ok T ok cmpOf (shardAt T sy v)"
    using assms(1,2) by (auto simp: shardAt_def get_or_def validator_ok_def split: option.splits dest!: map_of_SomeD)
  then show ?thesis
    using assms(1,3) by (auto simp: validator_ok_def onShard_def dest!: set_updateD)
qed

lemma validator_ok_getShard:
  assumes "validator_ok T ok cmpOf v" "shard_ok T ok cmpOf (NewSymbolShard T)"
  shows "validator_ok T ok cmpOf (snd (getShard T sy v))" "validator_ok T ok cmpOf (snd (getShardForOrder T i v))"
  using assms by (auto simp: validator_ok_def getShardForOrder_def getShard_def split: option.splits dest!: set_updateD)

context price_tree
begin

lemma vstep_validator_ok:
  assumes v: "validator_ok T ok cmpOf v" and e: "event_in64 e"
  shows "validator_ok T ok cmpOf (vstep T e v)"
proof (cases e)
  case (EOrder i ty sd p q)
  obtain sh v1 where g: "getShard T ''BTCUSD'' v = (sh, v1)" by fastforce
  have "validator_ok T ok cmpOf (v1\<lparr>orderToShard := o'\<rparr>)" for o'
    using validator_ok_getShard(1) [OF v new_shard_ok, of "''BTCUSD''"] g by (simp add: validator_ok_def)
  then show ?thesis using e EOrder g
    by (simp add: ProcessOrder_def) (intro validator_ok_onShard new_shard_ok shardOrder_shard_ok; simp)
next
  case (EAck i st)
  obtain sh v1 where g: "getShardForOrder T i v = (sh, v1)" by fastforce
  have "validator_ok T ok cmpOf v1" using validator_ok_getShard(2) [OF v new_shard_ok, of i] g by simp
  then show ?thesis using EAck g
    by (simp add: ProcessAck_def) (intro validator_ok_onShard new_shard_ok shardAck_shard_ok; simp)
next
  case (EFill i q p m)
  obtain sh v1 where g: "getShardForOrder T i v = (sh, v1)" by fastforce
  have "validator_ok T ok cmpOf v1" using validator_ok_getShard(2) [OF v new_shard_ok, of i] g by simp
  then show ?thesis using EFill g
    by (simp add: ProcessFill_def) (intro validator_ok_onShard new_shard_ok shardFill_shard_ok; simp)
next
  case EScore
  then show ?thesis using v scoreShards_ok [of "shards v" T ok cmpOf tally0]
    by (simp add: GetCorrectnessScore_def validator_ok_def case_prod_beta)
qed

lemma vrun_validator_ok:
  assumes "\<forall>e \<in> set evs. event_in64 e"
  shows "validator_ok T ok cmpOf (vrun T evs)"
proof -
  have "validator_ok T ok cmpOf (fold (vstep T) evs v)" if "validator_ok T ok cmpOf v" for v
    using assms that by (induction evs arbitrary: v) (simp_all add: vstep_validator_ok)
  moreover have "validator_ok T ok cmpOf NewValidator" by (simp add: validator_ok_def NewValidator_def)
  ultimately show ?thesis by (simp add: vrun_def)
qed

end

end
