(* ===== verification/Shadow_Priority.thy ===== *)
theory Shadow_Priority
  imports Shadow_Inv
begin

text \<open>
  What one matching pass does with quantities and priorities: the closed form of \<open>sweep\<close>
  (every order ahead of the last one touched is filled completely or belongs to the same
  bot), conservation of quantity, and the fills that \<^verbatim>\<open>checkCleanup\<close> and the score compare
  (\<^verbatim>\<open>foldPartials\<close>).
\<close>

section \<open>The shape of a matching pass\<close>

definition fullTrade :: "Order \<Rightarrow> trade" where
  "fullTrade r = \<lparr>t_resting = ID r, t_qty = Quantity r, t_price = Price r, t_done = True\<rparr>"

definition partTrade :: "Order \<Rightarrow> int \<Rightarrow> trade" where
  "partTrade r q = \<lparr>t_resting = ID r, t_qty = q, t_price = Price r, t_done = False\<rparr>"

definition totalQty :: "element list \<Rightarrow> int" where
  "totalQty els = sum_list (map (\<lambda>x. Quantity (snd x)) els)"

lemma totalQty_simps [simp]:
  "totalQty [] = 0" "totalQty ((a, r) # els) = Quantity r + totalQty els"
  "totalQty (xs @ ys) = totalQty xs + totalQty ys"
  by (simp_all add: totalQty_def)

definition own :: "int \<Rightarrow> element \<Rightarrow> bool" where
  "own inc x \<longleftrightarrow> isSelfCross inc (ID (snd x))"

definition fills_prefix :: "(Order \<Rightarrow> bool) \<Rightarrow> int \<Rightarrow> int \<Rightarrow> element list \<Rightarrow> element list \<times> int \<times> trade list \<Rightarrow>
    element list \<Rightarrow> element list \<Rightarrow> bool" where
  \<comment> \<open>the orders of other bots in the prefix \<open>pre\<close> are filled completely, in order; after them at
    most one order is filled in part, and then nothing of the incoming order is left\<close>
  "fills_prefix stop inc rem0 xs res pre suf \<longleftrightarrow> (case res of (bk, rm, ts) \<Rightarrow>
     xs = pre @ suf \<and> (\<forall>x \<in> set pre. \<not> stop (snd x)) \<and>
     ((bk = filter (own inc) pre @ suf \<and> ts = map (fullTrade \<circ> snd) (filter (\<lambda>x. \<not> own inc x) pre) \<and>
       (rm \<le> 0 \<or> suf = [] \<or> stop (snd (hd suf)))) \<or>
      (\<exists>a r q suf'. suf = (a, r) # suf' \<and> \<not> stop r \<and> \<not> own inc (a, r) \<and> 0 < q \<and> q < Quantity r \<and> rm = 0 \<and>
         bk = filter (own inc) pre @ (a, r\<lparr>Quantity := Quantity r - q\<rparr>) # suf' \<and>
         ts = map (fullTrade \<circ> snd) (filter (\<lambda>x. \<not> own inc x) pre) @ [partTrade r q])))"

lemma sweep_shape:
  assumes "sweep stop inc rem0 xs = (bk, rm, ts)" "posQty xs"
  shows "\<exists>pre suf. fills_prefix stop inc rem0 xs (bk, rm, ts) pre suf"
  using assms
proof (induction xs arbitrary: rem0 bk ts)
  case Nil
  then show ?case by (auto simp: fills_prefix_def)
next
  case (Cons e xs)
  obtain a r where e: "e = (a, r)" by fastforce
  have pos: "posQty xs" "0 < Quantity r" using Cons.prems(2) e by auto
  from Cons.prems(1) [unfolded e] show ?case
  proof (cases rule: sweep_ConsE)
    case stop
    then have "fills_prefix stop inc rem0 (e # xs) (bk, rm, ts) [] (e # xs)" by (auto simp: fills_prefix_def e)
    then show ?thesis by blast
  next
    case (self bk1)
    obtain pre suf where "fills_prefix stop inc rem0 xs (bk1, rm, ts) pre suf" using Cons.IH [OF self(4) pos(1)] by blast
    then have "fills_prefix stop inc rem0 (e # xs) (bk, rm, ts) (e # pre) suf"
      using self by (auto simp: fills_prefix_def e own_def)
    then show ?thesis by blast
  next
    case (trade q t bk1 ts1)
    show ?thesis
    proof (cases "q = Quantity r")
      case True
      obtain pre suf where "fills_prefix stop inc (rem0 - q) xs (bk1, rm, ts1) pre suf"
        using Cons.IH [OF trade(6) pos(1)] by blast
      then have "fills_prefix stop inc rem0 (e # xs) (bk, rm, ts) (e # pre) suf"
        using trade True by (auto simp: fills_prefix_def e own_def fullTrade_def)
      then show ?thesis by blast
    next
      case False
      then have q: "q = rem0" "q < Quantity r" using trade(4) by (auto simp: min_def split: if_splits)
      then have "bk1 = xs" "rm = 0" "ts1 = []" using trade(6) by (simp_all add: sweep_stops)
      then have "fills_prefix stop inc rem0 (e # xs) (bk, rm, ts) [] (e # xs)"
        using trade q False by (auto simp: fills_prefix_def e own_def partTrade_def)
      then show ?thesis by blast
    qed
  qed
qed

lemma sweep_conserves:
  assumes "sweep stop inc rem0 xs = (bk, rm, ts)" "posQty xs"
  shows "totalQty xs = totalQty bk + (rem0 - rm) \<and> sum_list (map t_qty ts) = rem0 - rm \<and> (\<forall>t \<in> set ts. 0 < t_qty t)"
  using assms
proof (induction xs arbitrary: rem0 bk ts)
  case (Cons e xs)
  obtain a r where e: "e = (a, r)" by fastforce
  have pos: "posQty xs" "0 < Quantity r" using Cons.prems(2) e by auto
  from Cons.prems(1) [unfolded e] show ?case
  proof (cases rule: sweep_ConsE)
    case stop
    then show ?thesis by (simp add: e)
  next
    case (self bk1)
    then show ?thesis using Cons.IH [OF self(4) pos(1)] by (simp add: e)
  next
    case (trade q t bk1 ts1)
    have "0 < q" using trade(1,4) pos(2) by simp
    then show ?thesis using trade(5,7,8) Cons.IH [OF trade(6) pos(1)] by (auto simp: e)
  qed
qed simp

lemma sweep_trades:
  assumes "sweep stop inc rem0 xs = (bk, rm, ts)" "t \<in> set ts"
  shows "\<exists>(a, r) \<in> set xs. t_resting t = ID r \<and> t_price t = Price r \<and> \<not> stop r \<and> \<not> isSelfCross inc (ID r)"
  using assms
proof (induction xs arbitrary: rem0 bk ts)
  case (Cons e xs)
  obtain a r where e: "e = (a, r)" by fastforce
  from Cons.prems(1) [unfolded e] show ?case
  proof (cases rule: sweep_ConsE)
    case stop
    then show ?thesis using Cons.prems(2) by simp
  next
    case (self bk1)
    then show ?thesis using Cons.IH [OF self(4) Cons.prems(2)] by (auto simp: e)
  next
    case (trade q t' bk1 ts1)
    then show ?thesis using Cons.IH [OF trade(6)] Cons.prems(2) by (auto simp: e)
  qed
qed simp

section \<open>Folding partial fills\<close>

definition mergeable :: "Fill \<Rightarrow> Fill \<Rightarrow> bool" where
  "mergeable f g \<longleftrightarrow> FilledPrice g = FilledPrice f \<and> MatchedWith g = MatchedWith f"

definition keyQty :: "int \<Rightarrow> int \<Rightarrow> Fill list \<Rightarrow> int" where
  \<comment> \<open>the quantity filled at one price against one counterparty\<close>
  "keyQty p m fs = sum_list (map FilledQty (filter (\<lambda>f. FilledPrice f = p \<and> MatchedWith f = m) fs))"

fun unmergeable :: "Fill list \<Rightarrow> bool" where
  "unmergeable (f # g # fs) \<longleftrightarrow> \<not> mergeable f g \<and> unmergeable (g # fs)"
| "unmergeable _ \<longleftrightarrow> True"

lemma foldLoop_acc: "foldLoop c fs (acc @ acc') = acc @ foldLoop c fs acc'"
  by (induction fs arbitrary: c acc') simp_all

lemma foldLoop_Cons:
  "foldLoop c (f # fs) [] = (if mergeable c f then foldLoop (c\<lparr>FilledQty := wrap64 (FilledQty c + FilledQty f)\<rparr>) fs []
     else c # foldLoop f fs [])"
  using foldLoop_acc [of f fs "[c]" "[]"] by (simp add: mergeable_def)

lemma foldLoop_head: "\<exists>c' fs'. foldLoop c fs [] = c' # fs' \<and> FilledPrice c' = FilledPrice c \<and> MatchedWith c' = MatchedWith c"
  by (induction fs arbitrary: c) (simp, simp add: foldLoop_Cons del: foldLoop.simps, fastforce)

lemma foldLoop_unmergeable: "unmergeable (foldLoop c fs [])"
proof (induction fs arbitrary: c)
  case (Cons f fs)
  show ?case
  proof (cases "mergeable c f")
    case True
    then show ?thesis using Cons.IH by (simp add: foldLoop_Cons del: foldLoop.simps)
  next
    case False
    obtain c' fs' where h: "foldLoop f fs [] = c' # fs'" "FilledPrice c' = FilledPrice f" "MatchedWith c' = MatchedWith f"
      using foldLoop_head by blast
    then show ?thesis using False Cons.IH [of f] unfolding foldLoop_Cons by (auto simp: mergeable_def)
  qed
qed simp

lemma foldPartials_Cons: "foldPartials (f # fs) = foldLoop f fs []"
  by (cases fs) (simp_all add: foldPartials_def)

lemma foldPartials_unmergeable: "unmergeable (foldPartials fs)"
  by (cases fs) (simp add: foldPartials_def, simp add: foldPartials_Cons foldLoop_unmergeable)

lemma foldPartials_fixed: "unmergeable fs \<Longrightarrow> foldPartials fs = fs"
proof (cases fs)
  case (Cons f gs)
  moreover have "unmergeable (f # gs) \<Longrightarrow> foldLoop f gs [] = f # gs"
    by (induction gs arbitrary: f) (auto simp: foldLoop_Cons simp del: foldLoop.simps(2))
  ultimately show "unmergeable fs \<Longrightarrow> ?thesis" by (simp add: foldPartials_Cons)
qed (simp add: foldPartials_def)

lemma foldLoop_total:
  "wrap64 (sum_list (map FilledQty (foldLoop c fs []))) = wrap64 (FilledQty c + sum_list (map FilledQty fs))"
proof (induction fs arbitrary: c)
  case (Cons f fs)
  have "wrap64 (FilledQty c + sum_list (map FilledQty (foldLoop f fs []))) =
      wrap64 (FilledQty c + wrap64 (sum_list (map FilledQty (foldLoop f fs []))))" by (simp add: i64_simps)
  then show ?case using Cons.IH by (simp add: foldLoop_Cons i64_simps add.assoc del: foldLoop.simps(2))
qed simp

end
