(* ===== verification/Shadow_Perfect.thy ===== *)
theory Shadow_Perfect
  imports Shadow_Score
begin

text \<open>
  An engine whose fills agree with the shadow book: the tally of a shard in which every
  order agrees, and the score 100.
\<close>

section \<open>Sums over folded fills\<close>

lemma foldLoop_weighted:
  "wrap64 (\<Sum>f\<leftarrow>foldLoop c fs []. FilledQty f * w (FilledPrice f)) =
     wrap64 (FilledQty c * w (FilledPrice c) + (\<Sum>f\<leftarrow>fs. FilledQty f * w (FilledPrice f)))"
proof (induction fs arbitrary: c)
  case (Cons f fs)
  let ?g = "\<lambda>f. FilledQty f * w (FilledPrice f)"
  show ?case
  proof (cases "mergeable c f")
    case True
    let ?c = "c\<lparr>FilledQty := wrap64 (FilledQty c + FilledQty f)\<rparr>"
    have "wrap64 (?g ?c) = wrap64 (?g c + ?g f)"
      using True by (simp add: mergeable_def distrib_right)
    then have "wrap64 (?g ?c + x) = wrap64 (?g c + ?g f + x)" for x by (rule wrap64_add_cong)
    then show ?thesis using True Cons.IH [of ?c] by (simp add: foldLoop_Cons add.assoc del: foldLoop.simps(2))
  next
    case False
    have "wrap64 (?g c + sum_list (map ?g (foldLoop f fs []))) = wrap64 (?g c + wrap64 (sum_list (map ?g (foldLoop f fs []))))"
      by (simp add: i64_simps)
    then show ?thesis using False Cons.IH [of f] by (simp add: foldLoop_Cons i64_simps del: foldLoop.simps(2))
  qed
qed simp

lemma foldPartials_weighted:
  "wrap64 (\<Sum>f\<leftarrow>foldPartials fs. FilledQty f * w (FilledPrice f)) = wrap64 (\<Sum>f\<leftarrow>fs. FilledQty f * w (FilledPrice f))"
  by (cases fs) (simp add: foldPartials_def, simp add: foldPartials_Cons foldLoop_weighted)

lemma foldPartials_qty: "sum64 FilledQty (foldPartials fs) 0 = sum64 FilledQty fs 0"
  using foldPartials_weighted [of "\<lambda>_. 1" fs] by (simp add: sum64_0)

lemma sum64_fillValue: "sum64 fillValue fs 0 = wrap64 (\<Sum>f\<leftarrow>fs. FilledQty f * FilledPrice f)"
proof -
  have "wrap64 (sum_list (map fillValue fs)) = wrap64 (\<Sum>f\<leftarrow>fs. FilledQty f * FilledPrice f)"
  proof (induction fs)
    case (Cons f fs)
    have "wrap64 (fillValue f + sum_list (map fillValue fs)) =
      wrap64 (FilledQty f * FilledPrice f + wrap64 (sum_list (map fillValue fs)))" by (simp add: fillValue_def i64_simps)
    then show ?case using Cons by (simp add: i64_simps)
  qed simp
  then show ?thesis by (simp add: sum64_0)
qed

lemma foldPartials_value: "sum64 fillValue (foldPartials fs) 0 = sum64 fillValue fs 0"
  using foldPartials_weighted [of "\<lambda>p. p" fs] by (simp add: sum64_fillValue)

section \<open>Agreeing lists of fills\<close>

lemma list_all2_sameFill:
  assumes "list_all2 sameFill es as"
  shows "sum64 FilledQty es acc = sum64 FilledQty as acc" "sum64 fillValue es acc = sum64 fillValue as acc"
    "byPrice es m = byPrice as m" "priorityLoop es as acc viol = (sum64 FilledQty es acc, viol)"
  using assms
  by (induction es as arbitrary: acc m rule: list_all2_induct) (auto simp: sameFill_def fillValue_def)

lemma byPrice_sum:
  "wrap64 (\<Sum>(p, q)\<leftarrow>byPrice fs m. q) = wrap64 ((\<Sum>(p, q)\<leftarrow>m. q) + (\<Sum>f\<leftarrow>fs. FilledQty f))"
proof (induction fs arbitrary: m)
  case (Cons f fs)
  have "wrap64 (\<Sum>(p, q)\<leftarrow>AList.update k (wrap64 (get_or 0 m k + x)) m. q) = wrap64 ((\<Sum>(p, q)\<leftarrow>m. q) + x)" for k x
  proof (induction m)
    case (Cons e m)
    then show ?case using wrap64_add_cong(2) [OF Cons, of "snd e"]
      by (auto simp: get_or_def add_ac split: prod.splits)
  qed (simp add: get_or_def)
  note u = wrap64_add_cong(1) [OF this]
  show ?case
    using Cons.IH [of "AList.update (FilledPrice f) (wrap64 (get_or 0 m (FilledPrice f) + FilledQty f)) m"]
      u [of "FilledPrice f" "FilledQty f" "\<Sum>f\<leftarrow>fs. FilledQty f"]
    by (simp add: add.assoc)
qed simp

lemma byPrice_distinct: "distinct (gokeys m) \<Longrightarrow> distinct (gokeys (byPrice fs m))"
  by (induction fs arbitrary: m) (simp_all add: distinct_update)

lemma sum64_cong: "(\<And>x. x \<in> set xs \<Longrightarrow> f x = g x) \<Longrightarrow> sum64 f xs acc = sum64 g xs acc"
  by (induction xs arbitrary: acc) simp_all

lemma matchingQtyByPrice_same:
  assumes "list_all2 sameFill es as"
  shows "matchingQtyByPrice es as = sum64 FilledQty es 0"
proof -
  let ?m = "byPrice es []"
  have "minInt64 q (get_or 0 ?m p) = q" if "(p, q) \<in> set ?m" for p q
    using that byPrice_distinct [of "[]" es] by (simp add: get_or_def minInt64_def)
  then have "matchingQtyByPrice es as = sum64 (\<lambda>(p, q). q) ?m 0"
    unfolding matchingQtyByPrice_def Let_def list_all2_sameFill(3) [OF assms, symmetric]
    by (intro sum64_cong) auto
  then show ?thesis using byPrice_sum [of es "[]"] by (simp add: sum64_0)
qed

section \<open>The tally of a shard that agrees\<close>

definition agree :: "'t SymbolShard \<Rightarrow> int \<Rightarrow> bool" where
  "agree s i \<longleftrightarrow> list_all2 sameFill (foldPartials (get_or [] (expectedFills s) i)) (foldPartials (get_or [] (actualFills s) i))"

definition balanced :: "tally \<Rightarrow> bool" where
  "balanced t \<longleftrightarrow> tl_actualQty t = tl_expectedQty t \<and> tl_priceCorrectQty t = tl_expectedQty t \<and>
     tl_priorityCorrectQty t = tl_expectedQty t \<and> tl_valueDiff t = 0 \<and> tl_phantomQty t = 0 \<and>
     tl_ackViolations t = 0 \<and> tl_duplicateOrders t = 0 \<and> tl_unknownAcks t = 0"

definition no_violations :: "'t SymbolShard \<Rightarrow> bool" where
  "no_violations s \<longleftrightarrow> ackViolations s = 0 \<and> duplicateOrders s = 0 \<and> unknownAcks s = 0"

lemma foldPartials_Nil [simp]: "foldPartials [] = []" "foldPartials fs = [] \<longleftrightarrow> fs = []"
proof -
  show "foldPartials [] = []" by (simp add: foldPartials_def)
  then show "foldPartials fs = [] \<longleftrightarrow> fs = []" using foldLoop_head by (cases fs) (simp, metis foldPartials_Cons list.distinct(1))
qed

lemma checkCleanup_agree: "agree s i \<Longrightarrow> agree (checkCleanup j s) i"
  by (simp add: agree_def checkCleanup_def Let_def get_or_def gomap_simps)

lemma checkCleanup_no_violations [simp]: "no_violations (checkCleanup j s) = no_violations s"
  by (simp add: no_violations_def checkCleanup_def Let_def)

lemma cleanups_agree:
  "agree s i \<Longrightarrow> agree (fold checkCleanup ks s) i" "no_violations (fold checkCleanup ks s) = no_violations s"
  by (induction ks arbitrary: s) (simp_all add: checkCleanup_agree)

lemma tallyOrder_agree:
  assumes "agree s i" "map_of (expectedFills s) i = Some es" "balanced t"
  obtains t' where "tallyOrder (i, es) (t, s) = (t', s)" "balanced t'"
proof -
  define el where "el = foldPartials es"
  define al where "al = (case map_of (actualFills s) i of None \<Rightarrow> [] | Some as \<Rightarrow> foldPartials as)"
  have "al = foldPartials (get_or [] (actualFills s) i)" by (simp add: al_def get_or_def split: option.split)
  then have same: "list_all2 sameFill el al" using assms(1,2) by (simp add: agree_def get_or_def el_def)
  note eqs = list_all2_sameFill [OF same] matchingQtyByPrice_same [OF same]
  have len: "length al = length el" using same by (simp add: list_all2_lengthD)
  show thesis
  proof (rule that)
    show "tallyOrder (i, es) (t, s) = (fst (tallyOrder (i, es) (t, s)), s)"
      by (simp add: tallyOrder_def priorityMatchedQty_def Let_def al_def [symmetric] el_def [symmetric] eqs len)
    show "balanced (fst (tallyOrder (i, es) (t, s)))"
      using assms(3)
      by (simp add: tallyOrder_def priorityMatchedQty_def Let_def al_def [symmetric] el_def [symmetric] eqs len balanced_def absInt64_def)
  qed
qed

lemma fold_tallyOrder_agree:
  assumes "\<forall>i. agree s i" "\<forall>(i, es) \<in> set efs. map_of (expectedFills s) i = Some es" "balanced t"
  shows "\<exists>t'. fold tallyOrder efs (t, s) = (t', s) \<and> balanced t'"
  using assms(2,3)
proof (induction efs arbitrary: t)
  case (Cons e efs)
  obtain i es where e: "e = (i, es)" by fastforce
  obtain t' where "tallyOrder (i, es) (t, s) = (t', s)" "balanced t'"
    using tallyOrder_agree [of s i es t] assms(1) Cons.prems e by auto
  then show ?case using Cons.IH [of t'] Cons.prems e by simp
qed simp

lemma fold_tallyPhantom_agree:
  assumes "\<forall>i. agree s i" "\<forall>(i, fs) \<in> set afs. map_of (actualFills s) i = Some fs"
  shows "fold (tallyPhantom s) afs t = t"
  using assms(2)
proof (induction afs arbitrary: t)
  case (Cons e afs)
  obtain i fs where e: "e = (i, fs)" by fastforce
  have "fs = []" if "\<not> has_key (expectedFills s) i"
    using that assms(1) [rule_format, of i] Cons.prems e by (simp add: agree_def has_key_def get_or_def)
  then have "tallyPhantom s e t = t" by (auto simp: e tallyPhantom_def)
  then show ?case using Cons by simp
qed simp

lemma scoreShard_agree:
  assumes "\<forall>i. agree s i" "no_violations s" "counters_ok s" "maps_ok s" "balanced t"
  shows "balanced (fst (scoreShard s t))"
proof -
  define s1 where "s1 = fold checkCleanup (gokeys (expectedFills s)) s"
  have s1: "\<forall>i. agree s1 i" "no_violations s1" "counters_ok s1" "maps_ok s1"
    using assms by (simp_all add: s1_def cleanups_agree counters.cleanups_inv maps.cleanups_inv)
  have "balanced (tallyShard s1 t)"
    using s1(2,3) assms(5) by (simp add: balanced_def tallyShard_def no_violations_def counters_ok_def)
  moreover have "\<forall>(i, es) \<in> set (expectedFills s1). map_of (expectedFills s1) i = Some es"
    using s1(4) by (auto simp: maps_ok_def)
  ultimately obtain t2 where t2: "fold tallyOrder (expectedFills s1) (tallyShard s1 t, s1) = (t2, s1)" "balanced t2"
    using fold_tallyOrder_agree [OF s1(1)] by metis
  have "fold (tallyPhantom s1) (actualFills s1) t2 = t2"
    using s1(4) by (intro fold_tallyPhantom_agree s1(1)) (auto simp: maps_ok_def)
  then show ?thesis using t2 by (simp add: scoreShard_def Let_def s1_def [symmetric])
qed

lemma scoreShards_agree:
  assumes "\<forall>x \<in> set shs. (\<forall>i. agree (snd x) i) \<and> no_violations (snd x) \<and> counters_ok (snd x) \<and> maps_ok (snd x)"
    and "balanced t"
  shows "balanced (fst (scoreShards shs t))"
  using assms
proof (induction shs arbitrary: t)
  case (Cons e shs)
  obtain sy s where e: "e = (sy, s)" by fastforce
  then show ?case using Cons.IH [of "fst (scoreShard s t)"] Cons.prems scoreShard_agree [of s t]
    by (simp add: case_prod_beta)
qed simp

section \<open>The formula\<close>

lemma float64_pos: "0 < n \<Longrightarrow> 1 \<le> float64 n"
  unfolding float64_def using fl64.rnd_ge_int [of 1 "of_int n"] by simp

lemma float64_nonneg: "0 \<le> n \<Longrightarrow> 0 \<le> float64 n"
  unfolding float64_def by (simp add: fl_nonneg)

lemma float64_mono: "m \<le> n \<Longrightarrow> float64 m \<le> float64 n"
  unfolding float64_def by (simp add: fl_mono)

lemma float64_0 [simp]: "float64 0 = 0"
  by (simp add: float64_def)

lemma float64_nonzero: "n \<noteq> 0 \<Longrightarrow> float64 n \<noteq> 0"
proof (cases "0 < n")
  case False
  assume "n \<noteq> 0"
  then have "1 \<le> float64 (- n)" using False by (intro float64_pos) simp
  then show ?thesis by (simp add: float64_def fl_uminus)
qed (use float64_pos in fastforce)

lemma scoreOf_balanced:
  assumes "balanced t"
  shows "scoreOf t = 100"
proof (cases "tl_expectedQty t = 0")
  case True
  then show ?thesis using assms by (simp add: scoreOf_def balanced_def)
next
  case False
  then have "fdiv (float64 (tl_expectedQty t)) (float64 (tl_expectedQty t)) = 1"
    using float64_nonzero by (simp add: fdiv_def)
  then show ?thesis using assms False
    by (simp add: scoreOf_def balanced_def Let_def minInt64_def maxFloat64_def fmul_def fadd_def fsub_def fdiv_def)
qed

text \<open>The score of totals that make sense: what the violations cost.\<close>

lemma scaled_unit:
  assumes "0 < e" "x \<le> e" "0 \<le> k" "k \<le> 100"
  shows "fmul (fdiv (float64 x) (float64 e)) (of_int k) \<le> of_int k"
proof -
  have "float64 x / float64 e \<le> 1" using float64_mono [OF assms(2)] float64_pos [OF assms(1)] by simp
  then have "fdiv (float64 x) (float64 e) \<le> 1" unfolding fdiv_def using fl64.rnd_le_int [of _ 1] by simp
  then have "fdiv (float64 x) (float64 e) * of_int k \<le> of_int k" using assms(3) mult_right_mono [of _ 1 "of_int k :: rat"] by simp
  then show ?thesis unfolding fmul_def using assms(3,4) by (intro fl64.rnd_le_int) simp_all
qed

lemma fsub_violations:
  assumes "x \<le> of_int c" "0 \<le> k" "\<bar>c\<bar> \<le> 1000"
  shows "fsub x (fmul (float64 k) 2) \<le> of_int (if 0 < k then c - 2 else c)"
proof -
  have "(if 0 < k then 2 else 0) \<le> fmul (float64 k) 2"
    using float64_pos [of k] float64_nonneg [OF assms(2)] fl64.rnd_ge_int [of 2 "float64 k * 2"]
    by (auto simp: fmul_def fl_nonneg)
  then have "x - fmul (float64 k) 2 \<le> of_int (if 0 < k then c - 2 else c)" using assms(1) by (auto split: if_splits)
  then show ?thesis unfolding fsub_def using assms(3) by (intro fl64.rnd_le_int) auto
qed

definition violationKinds :: "tally \<Rightarrow> int" where
  "violationKinds t = (if 0 < tl_ackViolations t then 1 else 0) + (if 0 < tl_duplicateOrders t then 1 else 0) +
     (if 0 < tl_unknownAcks t then 1 else 0)"

lemma scoreOf_violations:
  assumes e: "0 < tl_expectedQty t" and d: "0 \<le> tl_valueDiff t"
    and k: "0 \<le> tl_ackViolations t" "0 \<le> tl_duplicateOrders t" "0 \<le> tl_unknownAcks t"
  shows "scoreOf t \<le> of_int (100 - 2 * violationKinds t)"
proof -
  define qs where "qs = fmul (fdiv (float64 (minInt64 (tl_priceCorrectQty t) (tl_expectedQty t))) (float64 (tl_expectedQty t))) 70"
  define ps where "ps = fmul (fdiv (float64 (minInt64 (tl_priorityCorrectQty t) (tl_expectedQty t))) (float64 (tl_expectedQty t))) 20"
  define vs where "vs = (if tl_expectedValue t > 0
     then maxFloat64 0 (fmul 10 (fsub 1 (fdiv (float64 (tl_valueDiff t)) (float64 (tl_expectedValue t))))) else 10)"
  define s0 where "s0 = fadd (fadd qs ps) vs"
  define s1 where "s1 = (if tl_phantomQty t > 0
     then fsub s0 (minFloat64 25 (fmul 25 (fdiv (float64 (tl_phantomQty t)) (float64 (tl_expectedQty t))))) else s0)"
  have min: "minInt64 x y \<le> y" for x y by (simp add: minInt64_def)
  have "qs \<le> 70" "ps \<le> 20"
    using scaled_unit [OF e min, of 70] scaled_unit [OF e min, of 20] by (simp_all add: qs_def ps_def)
  then have qp: "fadd qs ps \<le> 90" unfolding fadd_def using fl64.rnd_le_int [of "qs + ps" 90] by simp
  have "vs \<le> 10"
  proof (cases "tl_expectedValue t > 0")
    case True
    have "0 \<le> fdiv (float64 (tl_valueDiff t)) (float64 (tl_expectedValue t))"
      using float64_nonneg [OF d] float64_pos [OF True] by (simp add: fdiv_def fl_nonneg)
    then have "fsub 1 (fdiv (float64 (tl_valueDiff t)) (float64 (tl_expectedValue t))) \<le> 1"
      unfolding fsub_def using fl64.rnd_le_int [of _ 1] by simp
    then show ?thesis using True fl64.rnd_le_int [of _ 10] by (simp add: vs_def fmul_def maxFloat64_def)
  qed (simp add: vs_def)
  then have s0: "s0 \<le> 100" unfolding s0_def fadd_def using qp [unfolded fadd_def] fl64.rnd_le_int [of _ 100] by simp
  have s1: "s1 \<le> of_int 100"
  proof (cases "tl_phantomQty t > 0")
    case True
    have "0 \<le> fmul 25 (fdiv (float64 (tl_phantomQty t)) (float64 (tl_expectedQty t)))"
      using float64_pos [OF True] float64_pos [OF e] by (simp add: fmul_def fdiv_def fl_nonneg)
    then have "s0 - minFloat64 25 (fmul 25 (fdiv (float64 (tl_phantomQty t)) (float64 (tl_expectedQty t)))) \<le> 100"
      using s0 by (simp add: minFloat64_def)
    then show ?thesis using True fl64.rnd_le_int [of _ 100] by (simp add: s1_def fsub_def)
  qed (use s0 in \<open>simp add: s1_def\<close>)
  note v2 = fsub_violations [OF s1 k(1)]
  note v3 = fsub_violations [OF v2 k(2)]
  note v4 = fsub_violations [OF v3 k(3)]
  have 4: "fsub (fsub (fsub s1 (fmul (float64 (tl_ackViolations t)) 2)) (fmul (float64 (tl_duplicateOrders t)) 2))
      (fmul (float64 (tl_unknownAcks t)) 2) \<le> of_int (100 - 2 * violationKinds t)"
    using v4 by (auto simp: violationKinds_def split: if_splits)
  moreover have "0 \<le> 100 - 2 * violationKinds t" by (simp add: violationKinds_def)
  then have "(0::rat) \<le> of_int (100 - 2 * violationKinds t)" by (simp only: of_int_0_le_iff)
  ultimately show ?thesis
    unfolding scoreOf_def Let_def qs_def [symmetric] ps_def [symmetric] vs_def [symmetric] s0_def [symmetric] s1_def [symmetric]
    using e by auto
qed

lemma scoreOf_range: "0 \<le> scoreOf t \<and> scoreOf t \<le> 100"
  by (simp add: scoreOf_def Let_def)

end
