(* ===== verification/Shadow_Props.thy ===== *)
theory Shadow_Props
  imports Shadow_Perfect
begin

text \<open>
  The properties of the shadow validator. The red-black tree of the package
  \<^verbatim>\<open>gods\<close> is any \<open>T\<close> with \<open>price_tree T ok cmpOf\<close>; the witnesses take the sorted association
  list of \<open>Price_Tree\<close> for it.
\<close>

section \<open>Concrete inputs of the witnesses\<close>

definition ask1 :: Order where
  "ask1 = \<lparr>ID = 4294967297, Type = ''limit'', Side = ''sell'', Price = 100, Quantity = 5\<rparr>"

definition buy2 :: Order where
  "buy2 = \<lparr>ID = 8589934593, Type = ''limit'', Side = ''buy'', Price = 101, Quantity = 3\<rparr>"

definition shard1 :: "alist_tree SymbolShard" where
  "shard1 = matchLimitOrder alist_ops ask1 (NewSymbolShard alist_ops)"

definition events1 :: "vevent list" where
  "events1 = [EOrder 4294967297 ''limit'' ''sell'' 100 5, EAck 4294967297 ''accepted'',
     EOrder 8589934593 ''limit'' ''buy'' 101 3, EAck 8589934593 ''accepted'',
     EFill 8589934593 3 100 [4294967297], EFill 4294967297 3 100 [8589934593]]"

lemma shard1_ok: "shard_ok alist_ops alist_ok fst shard1"
  unfolding shard1_def
  by (rule alist.matchLimitOrder_shard_ok [OF alist.new_shard_ok]) (simp add: ask1_def in64_def)

lemma buy2_in64: "in64 (Quantity buy2)"
  by (simp add: buy2_def in64_def)

section \<open>Reachable validators\<close>

text \<open>C2: every validator reached from \<^verbatim>\<open>NewValidator\<close> by any sequence of orders, acks, fills and
  score requests satisfies the shard invariant: well-formed FIFO levels of positive orders on the
  right side, unique elements, no dangling reference in \<^verbatim>\<open>orderMap\<close>, uncrossed books.\<close>

theorem reachable_validator_ok:
  assumes "price_tree T ok cmpOf" "\<forall>e \<in> set evs. event_in64 e"
  shows "validator_ok T ok cmpOf (vrun T evs)"
  using price_tree.vrun_validator_ok [OF assms] .

theorem reachable_validator_ok_witness:
  "validator_ok alist_ops alist_ok fst (vrun alist_ops events1)"
  by (rule reachable_validator_ok [OF alist.price_tree_axioms]) (simp add: events1_def in64_def)

text \<open>C6: in every reachable shard the resting orders of each side are in price priority, and a
  bid never reaches the price of an ask unless both orders belong to one bot.\<close>

theorem reachable_books_sorted_uncrossed:
  assumes "price_tree T ok cmpOf" "\<forall>e \<in> set evs. event_in64 e" "(sy, s) \<in> set (shards (vrun T evs))"
  shows "sorted_wrt (\<lambda>x y. Price (snd y) \<le> Price (snd x)) (resting T True s) \<and>
     sorted_wrt (\<lambda>x y. Price (snd x) \<le> Price (snd y)) (resting T False s) \<and>
     (\<forall>b k. b \<in> set (resting T True s) \<and> k \<in> set (resting T False s) \<and> Price (snd k) \<le> Price (snd b) \<longrightarrow>
        botID (ID (snd b)) \<noteq> 0 \<and> botID (ID (snd b)) = botID (ID (snd k)))"
proof -
  have s: "shard_ok T ok cmpOf s"
    using price_tree.vrun_validator_ok [OF assms(1,2)] assms(3) by (force simp: validator_ok_def)
  have "sorted_wrt (\<lambda>x y. \<not> better b (Price (snd y)) (Price (snd x))) (resting T b s)" for b
    by (rule price_tree.resting_sorted [OF assms(1) shard_ok_book [OF s]])
  from this [of True] this [of False]
  have "sorted_wrt (\<lambda>x y. Price (snd y) \<le> Price (snd x)) (resting T True s)"
    "sorted_wrt (\<lambda>x y. Price (snd x) \<le> Price (snd y)) (resting T False s)"
    by (simp_all add: better_def not_less)
  moreover have "uncrossed T s" using s by (simp add: shard_ok_def)
  ultimately show ?thesis by (auto simp: uncrossed_side [of _ _ True] better_def isSelfCross_def) fastforce+
qed

theorem reachable_books_sorted_uncrossed_witness:
  "sorted_wrt (\<lambda>x y. Price (snd x) \<le> Price (snd y))
     (resting alist_ops False (shardAt alist_ops ''BTCUSD'' (vrun alist_ops events1)))"
proof -
  have "map fst (shards (vrun alist_ops events1)) = [''BTCUSD'']" by code_simp
  then obtain s where s: "shards (vrun alist_ops events1) = [(''BTCUSD'', s)]" by (auto simp: map_eq_Cons_conv)
  then have "shardAt alist_ops ''BTCUSD'' (vrun alist_ops events1) = s" by (simp add: shardAt_def get_or_def)
  then show ?thesis
    using reachable_books_sorted_uncrossed [OF alist.price_tree_axioms, of events1 "''BTCUSD''" s] s
    by (simp add: events1_def in64_def)
qed

section \<open>Matching\<close>

text \<open>C3: matching an incoming order against the levels of the opposite book refines the single
  pass over the flat list of resting orders: the same remaining quantity, the same book, the
  expected fills of exactly its trades, and the own side untouched.\<close>

theorem matchSide_refines_sweep:
  assumes "price_tree T ok cmpOf" "shard_ok T ok cmpOf s" "in64 (Quantity order)"
    and "sweep (limitStop buy ul order) (ID order) (Quantity order) (resting T (\<not> buy) s) = (bk, rm, ts)"
  shows "\<exists>t'. matchSide T buy order ul s = (rm, applyTrades (ID order) ts (setBookSide (\<not> buy) t' s)) \<and>
     flat (Entries T t') = bk \<and> (\<forall>e \<in> set (Entries T t'). level_ok (\<not> buy) e)"
proof -
  have "ok (bookSide (\<not> buy) s)" "\<forall>e \<in> set (Entries T (bookSide (\<not> buy) s)). level_ok (\<not> buy) e"
    using shard_ok_book [OF assms(2), of "\<not> buy"] by (simp_all add: book_ok_def)
  from price_tree.matchSide_sweep [OF assms(1) this assms(3) assms(4) [unfolded resting_def]] show ?thesis by blast
qed

theorem matchSide_refines_sweep_witness:
  "\<exists>bk ts t'. matchSide alist_ops True buy2 True shard1 = (0, applyTrades (ID buy2) ts (setBookSide False t' shard1)) \<and>
     flat (Entries alist_ops t') = bk \<and> totalQty bk = 2"
proof -
  obtain bk rm ts where sw: "sweep (limitStop True True buy2) (ID buy2) (Quantity buy2) (resting alist_ops False shard1) = (bk, rm, ts)"
    by (metis prod_cases3)
  moreover have "(case sweep (limitStop True True buy2) (ID buy2) (Quantity buy2) (resting alist_ops False shard1) of
     (bk, rm, ts) \<Rightarrow> totalQty bk = 2 \<and> rm = 0)" by code_simp
  ultimately show ?thesis
    using matchSide_refines_sweep [OF alist.price_tree_axioms shard1_ok buy2_in64, of True True bk rm ts] by auto
qed

text \<open>C4: price-time priority. There is a prefix of the resting orders in priority order whose
  orders of other bots are all filled completely, in that order, none beyond the limit price;
  after it at most one order is filled in part, and only when the incoming order is used up; if
  quantity is left, the next resting order is beyond the limit or there is none.\<close>

theorem match_price_time_priority:
  assumes "price_tree T ok cmpOf" "shard_ok T ok cmpOf s" "in64 (Quantity order)"
  shows "\<exists>ts t' pre suf. matchSide T buy order ul s =
       (fst (matchSide T buy order ul s), applyTrades (ID order) ts (setBookSide (\<not> buy) t' s)) \<and>
     fills_prefix (limitStop buy ul order) (ID order) (Quantity order) (resting T (\<not> buy) s)
       (resting T (\<not> buy) (snd (matchSide T buy order ul s)), fst (matchSide T buy order ul s), ts) pre suf"
proof -
  obtain bk rm ts where sw: "sweep (limitStop buy ul order) (ID order) (Quantity order) (resting T (\<not> buy) s) = (bk, rm, ts)"
    by (metis prod_cases3)
  have bo: "book_ok T ok cmpOf (\<not> buy) s" using shard_ok_book [OF assms(2)] .
  then have "ok (bookSide (\<not> buy) s)" "\<forall>e \<in> set (Entries T (bookSide (\<not> buy) s)). level_ok (\<not> buy) e"
    by (simp_all add: book_ok_def)
  then obtain t' where m: "matchSide T buy order ul s = (rm, applyTrades (ID order) ts (setBookSide (\<not> buy) t' s))"
    "flat (Entries T t') = bk"
    using price_tree.matchSide_sweep [OF assms(1) _ _ assms(3) sw [unfolded resting_def]] by blast
  moreover obtain pre suf where "fills_prefix (limitStop buy ul order) (ID order) (Quantity order) (resting T (\<not> buy) s)
      (bk, rm, ts) pre suf"
    using sweep_shape [OF sw price_tree.resting_posQty [OF assms(1) bo]] by blast
  moreover have "resting T (\<not> buy) (snd (matchSide T buy order ul s)) = bk" using m by (simp add: resting_def frame)
  ultimately show ?thesis by auto
qed

theorem match_price_time_priority_witness:
  "\<exists>ts pre suf. fills_prefix (limitStop True True buy2) (ID buy2) 3 (resting alist_ops False shard1)
       (resting alist_ops False (snd (matchSide alist_ops True buy2 True shard1)), fst (matchSide alist_ops True buy2 True shard1), ts) pre suf"
  using match_price_time_priority [OF alist.price_tree_axioms shard1_ok buy2_in64, of True True]
  by (auto simp: buy2_def)

text \<open>C7: matching conserves quantity. What the incoming order loses is what the opposite side of
  the book loses, and the incoming order is never overfilled.\<close>

theorem match_conserves_quantity:
  assumes "price_tree T ok cmpOf" "shard_ok T ok cmpOf s" "in64 (Quantity order)" "0 \<le> Quantity order"
    and "matchSide T buy order ul s = (rm, s')"
  shows "0 \<le> rm \<and> rm \<le> Quantity order \<and>
     totalQty (resting T (\<not> buy) s) = totalQty (resting T (\<not> buy) s') + (Quantity order - rm) \<and>
     resting T buy s' = resting T buy s"
proof -
  obtain bk rm1 ts where sw: "sweep (limitStop buy ul order) (ID order) (Quantity order) (resting T (\<not> buy) s) = (bk, rm1, ts)"
    by (metis prod_cases3)
  note pos = price_tree.resting_posQty [OF assms(1) shard_ok_book [OF assms(2)], of "\<not> buy"]
  obtain s1 where "matchSide T buy order ul s = (rm1, s1)" "resting T (\<not> buy) s1 = bk" "resting T buy s1 = resting T buy s"
    by (rule price_tree.matchSide_shard_ok [OF assms(1,2,3) sw])
  then show ?thesis using sweep_conserves [OF sw pos] sweep_in64 [OF sw pos assms(3)] assms(4,5) by simp
qed

theorem match_conserves_quantity_witness:
  "totalQty (resting alist_ops False shard1) =
     totalQty (resting alist_ops False (snd (matchSide alist_ops True buy2 True shard1))) +
     (3 - fst (matchSide alist_ops True buy2 True shard1))"
  using match_conserves_quantity [OF alist.price_tree_axioms shard1_ok buy2_in64, of True True "fst (matchSide alist_ops True buy2 True shard1)"
      "snd (matchSide alist_ops True buy2 True shard1)"]
  by (simp add: buy2_def)

text \<open>C8: an order that is added to a book is placed behind every resting order of the same or a
  better price and in front of every order of a worse price; nothing else moves.\<close>

theorem order_rests_in_price_time_position:
  assumes "price_tree T ok cmpOf" "shard_ok T ok cmpOf s" "0 < Quantity order" "in64 (Quantity order)"
    and "ToLower (Side order) = (if buy then ''buy'' else ''sell'')"
  shows "\<exists>xs ys. resting T buy s = xs @ ys \<and>
     resting T buy (addOrderToBook T order buy s) = xs @ (nextAddr s, order) # ys \<and>
     (\<forall>(a, r) \<in> set xs. \<not> better buy (Price order) (Price r)) \<and>
     (\<forall>(a, r) \<in> set ys. better buy (Price order) (Price r)) \<and>
     map_of (orderMap (addOrderToBook T order buy s)) (ID order) =
       Some \<lparr>ref_addr = nextAddr s, ref_side = Side order, ref_price = Price order\<rparr>"
proof -
  have "map_of (orderMap (addOrderToBook T order buy s)) (ID order) =
      Some \<lparr>ref_addr = nextAddr s, ref_side = Side order, ref_price = Price order\<rparr>"
    by (simp add: addOrderToBook_def Let_def frame gomap_simps)
  then show ?thesis
    by (rule_tac price_tree.addOrderToBook_resting [OF assms(1) shard_ok_book [OF assms(2)] assms(3-5)]) blast
qed

theorem order_rests_in_price_time_position_witness:
  "\<exists>xs ys. resting alist_ops False shard1 = xs @ ys \<and>
     resting alist_ops False (addOrderToBook alist_ops ask1 False shard1) = xs @ (nextAddr shard1, ask1) # ys"
proof -
  have "ToLower (Side ask1) = ''sell''" "0 < Quantity ask1 \<and> in64 (Quantity ask1)" by code_simp+
  then show ?thesis using order_rests_in_price_time_position [OF alist.price_tree_axioms shard1_ok, of ask1 False] by auto
qed

text \<open>C9: cancelling a resting order succeeds, removes exactly its element from its side of the
  book and leaves every other order in place; the second cancel of the same order is refused and
  changes nothing.\<close>

theorem cancel_removes_exactly:
  assumes "price_tree T ok cmpOf" "shard_ok T ok cmpOf s" "map_of (orderMap s) i = Some e"
  shows "fst (removeRestingOrder T i s) \<and>
     (let b = (ToLower (ref_side e) = ''buy''); s' = snd (removeRestingOrder T i s) in
       resting T b s' = filter (\<lambda>(a, r). a \<noteq> ref_addr e) (resting T b s) \<and>
       length (resting T b s) = Suc (length (resting T b s')) \<and>
       resting T (\<not> b) s' = resting T (\<not> b) s \<and>
       removeRestingOrder T i s' = (False, s'))"
proof -
  define b where "b = (ToLower (ref_side e) = ''buy'')"
  obtain s' where r: "removeRestingOrder T i s = (True, s')"
    "resting T b s' = filter (\<lambda>(a, r). a \<noteq> ref_addr e) (resting T b s)" "bookSide (\<not> b) s' = bookSide (\<not> b) s"
    "orderMap s' = AList.delete i (orderMap s)"
    by (rule price_tree.removeRestingOrder_found [OF assms, folded b_def]) (rule that)
  have d: "distinct (map fst (resting T b s))" using assms(2) by (simp add: shard_ok_def addrs_ok_side [of _ _ b])
  obtain ord where "(ref_addr e, ord) \<in> set (resting T b s)"
    using assms(2,3) unfolding shard_ok_def refs_ok_def b_def by blast
  then obtain xs ys where xy: "resting T b s = xs @ (ref_addr e, ord) # ys" by (meson split_list)
  then have "length (resting T b s) = Suc (length (resting T b s'))"
    using d r(2) by (simp add: filter_key_absent)
  moreover have "removeRestingOrder T i s' = (False, s')" using r(4) by (simp add: removeRestingOrder_def gomap_simps)
  ultimately show ?thesis using r by (simp add: resting_def b_def)
qed

theorem cancel_removes_exactly_witness:
  "fst (removeRestingOrder alist_ops 4294967297 shard1)"
proof -
  have "map_of (orderMap shard1) 4294967297 = Some \<lparr>ref_addr = 0, ref_side = ''sell'', ref_price = 100\<rparr>" by code_simp
  from cancel_removes_exactly [OF alist.price_tree_axioms shard1_ok this] show ?thesis by blast
qed

section \<open>Fills and the score\<close>


text \<open>C5: an engine that is right scores 100. If after any run the reported fills of every order,
  partial fills merged, are those of the shadow book and no acknowledgement, duplicate or unknown
  violation was counted, the correctness score is exactly 100.\<close>

theorem perfect_engine_scores_100:
  assumes "\<forall>x \<in> set (shards (vrun T evs)). (\<forall>i. agree (snd x) i) \<and> no_violations (snd x)"
  shows "fst (GetCorrectnessScore (vrun T evs)) = 100"
proof -
  have "\<forall>x \<in> set (shards (vrun T evs)). (\<forall>i. agree (snd x) i) \<and> no_violations (snd x) \<and> counters_ok (snd x) \<and> maps_ok (snd x)"
    using assms counters.vrun_inv maps.vrun_inv by metis
  moreover have "balanced tally0" by (simp add: balanced_def tally0_def)
  ultimately have "balanced (fst (scoreShards (shards (vrun T evs)) tally0))" by (rule scoreShards_agree)
  then show ?thesis by (simp add: GetCorrectnessScore_def case_prod_beta scoreOf_balanced)
qed

theorem perfect_engine_scores_100_witness:
  "fst (GetCorrectnessScore (vrun alist_ops events1)) = 100"
proof (rule perfect_engine_scores_100)
  have sh: "map fst (shards (vrun alist_ops events1)) = [''BTCUSD'']" by code_simp
  have "map (\<lambda>x. (expectedFills (snd x), actualFills (snd x), ackViolations (snd x), duplicateOrders (snd x), unknownAcks (snd x)))
      (shards (vrun alist_ops events1)) =
    [([(4294967297, [\<lparr>OrderID = 4294967297, FilledQty = 3, FilledPrice = 100, MatchedWith = 8589934593\<rparr>])],
      [(4294967297, [\<lparr>OrderID = 4294967297, FilledQty = 3, FilledPrice = 100, MatchedWith = 8589934593\<rparr>])], 0, 0, 0)]"
    by code_simp
  then show "\<forall>x \<in> set (shards (vrun alist_ops events1)). (\<forall>i. agree (snd x) i) \<and> no_violations (snd x)"
    using sh by (auto simp: map_eq_Cons_conv agree_def no_violations_def get_or_def foldPartials_def sameFill_def)
qed

text \<open>the score of totals with a positive expected quantity is within 0 and 100, and every kind
  of violation that occurred (rejected valid orders, duplicates, unknown acknowledgements) costs at
  least two points, in binary64 arithmetic.\<close>

lemma violations_cost_points:
  assumes "0 < tl_expectedQty t" "0 \<le> tl_valueDiff t"
    and "0 \<le> tl_ackViolations t" "0 \<le> tl_duplicateOrders t" "0 \<le> tl_unknownAcks t"
  shows "0 \<le> scoreOf t \<and> scoreOf t \<le> of_int (100 - 2 * violationKinds t)"
  using scoreOf_range scoreOf_violations [OF assms] by blast

lemma violations_cost_points_witness:
  "scoreOf (tally0\<lparr>tl_expectedQty := 10, tl_priceCorrectQty := 10, tl_unknownAcks := 1\<rparr>) \<le> 98"
  using violations_cost_points [of "tally0\<lparr>tl_expectedQty := 10, tl_priceCorrectQty := 10, tl_unknownAcks := 1\<rparr>"]
  by (simp add: tally0_def violationKinds_def)

text \<open>\<^verbatim>\<open>GetPhantomFills\<close> returns 0 after every run, whatever fills the engine invents: no
  statement of the validator increments \<^verbatim>\<open>phantomFills\<close>.\<close>

lemma phantom_fills_never_counted:
  "GetPhantomFills (vrun T evs) = 0"
proof -
  have "phantomFills (snd x) = 0" if "x \<in> set (shards (vrun T evs))" for x
    using counters.vrun_inv [OF that] by (simp add: counters_ok_def)
  then have "sum64 (\<lambda>(sy, s). phantomFills s) (shards (vrun T evs)) 0 = sum64 (\<lambda>_. 0) (shards (vrun T evs)) 0"
    by (intro sum64_cong) auto
  also have "\<dots> = 0" by (simp add: sum64_0)
  finally show ?thesis by (simp add: GetPhantomFills_def)
qed

end
