(* ===== verification/Bots.thy ===== *)
theory Bots
  imports Float64
begin

text \<open>
  \<^verbatim>\<open>bot-fleet/bot.go\<close>: the ring buffer of cancellable orders, bots and the orders they produce.
  The random generator of \<^verbatim>\<open>math/rand\<close> is the parameter \<open>R :: 'r rng_ops\<close>; \<open>rng_source\<close>
  states the documented ranges. \<^verbatim>\<open>Int63n\<close> and \<^verbatim>\<open>Intn\<close> panic for a bound that is not positive and an
  index outside \<^verbatim>\<open>SendTimes\<close> panics: a panic is \<open>None\<close>.
\<close>

unbundle bit_operations_syntax

section \<open>Messages and configuration\<close>

type_synonym StrategyType = string
type_synonym OrderType = string

definition MarketMaker :: StrategyType where "MarketMaker = ''MARKET_MAKER''"
definition MomentumTrader :: StrategyType where "MomentumTrader = ''MOMENTUM_TRADER''"
definition NoiseTrader :: StrategyType where "NoiseTrader = ''NOISE_TRADER''"
definition Limit :: OrderType where "Limit = ''LIMIT''"
definition Market :: OrderType where "Market = ''MARKET''"
definition Cancel :: OrderType where "Cancel = ''CANCEL''"
definition Buy :: string where "Buy = ''BUY''"
definition Sell :: string where "Sell = ''SELL''"

lemmas message_consts = MarketMaker_def MomentumTrader_def NoiseTrader_def Limit_def Market_def Cancel_def Buy_def Sell_def

record OrderMessage =
  BotID :: string
  MsgOrderID :: int
  MsgType :: OrderType
  MsgSide :: string
  MsgPrice :: int
  MsgQuantity :: int

record BotConfig =
  NumericID :: int
  StringID :: string
  StrategyOf :: StrategyType
  MidPrice :: int
  Spread :: int
  OrdersToSend :: int
  RatePerSec :: rat
  Seed :: int

section \<open>The ring buffer\<close>

record ringBuf =
  buf :: "int list"
  head :: nat
  tail :: nat
  rsize :: nat

definition newRingBuf :: "int \<Rightarrow> ringBuf" where
  "newRingBuf capacity =
     (let c = (if capacity \<le> 0 then 1024 else capacity) in
      \<lparr>buf = replicate (nat c) 0, head = 0, tail = 0, rsize = 0\<rparr>)"

definition push :: "int \<Rightarrow> ringBuf \<Rightarrow> ringBuf" where
  "push val r =
     (let r1 = r\<lparr>buf := (buf r)[tail r := val], tail := (tail r + 1) mod length (buf r)\<rparr> in
      if rsize r1 < length (buf r1) then r1\<lparr>rsize := rsize r1 + 1\<rparr>
      else r1\<lparr>head := (head r1 + 1) mod length (buf r1)\<rparr>)"

definition pop :: "ringBuf \<Rightarrow> int option \<times> ringBuf" where
  "pop r =
     (if rsize r = 0 then (None, r)
      else (Some (buf r ! head r), r\<lparr>head := (head r + 1) mod length (buf r), rsize := rsize r - 1\<rparr>))"

definition ringLen :: "ringBuf \<Rightarrow> nat" where
  "ringLen r = rsize r"

section \<open>Random numbers\<close>

record 'r rng_ops =
  NewSource :: "int \<Rightarrow> 'r"
  rngInt63n :: "int \<Rightarrow> 'r \<Rightarrow> int \<times> 'r"
  rngIntn :: "int \<Rightarrow> 'r \<Rightarrow> int \<times> 'r"
  rngFloat64 :: "'r \<Rightarrow> rat \<times> 'r"

definition Int63n :: "'r rng_ops \<Rightarrow> int \<Rightarrow> 'r \<Rightarrow> (int \<times> 'r) option" where
  "Int63n R n r = (if n \<le> 0 then None else Some (rngInt63n R n r))"

definition Intn :: "'r rng_ops \<Rightarrow> int \<Rightarrow> 'r \<Rightarrow> (int \<times> 'r) option" where
  "Intn R n r = (if n \<le> 0 then None else Some (rngIntn R n r))"

section \<open>Bots\<close>

record 'r Bot =
  config :: BotConfig
  rng :: 'r
  seqNum :: int
  ordersSent :: int
  activeRing :: ringBuf
  SendTimes :: "int list"

definition initRingBuffer :: "BotConfig \<Rightarrow> ringBuf" where
  "initRingBuffer cfg =
     (let rate = (if RatePerSec cfg \<le> 0 then 100 else RatePerSec cfg);
          timeoutSec = 5;
          capacity = trunc64 (fmul (fmul rate timeoutSec) 2);
          capacity1 = (if capacity < 1024 then 1024 else capacity);
          capacity2 = (if capacity1 > 65536 then 65536 else capacity1) in
      newRingBuf capacity2)"

definition NewBot :: "'r rng_ops \<Rightarrow> BotConfig \<Rightarrow> 'r Bot option" where
  \<comment> \<open>\<^verbatim>\<open>make\<close> panics on a negative length\<close>
  "NewBot R cfg =
     (if OrdersToSend cfg + 1 < 0 then None
      else Some \<lparr>config = cfg, rng = NewSource R (Seed cfg), seqNum = 0, ordersSent = 0,
                 activeRing = initRingBuffer cfg, SendTimes = replicate (nat (OrdersToSend cfg + 1)) 0\<rparr>)"

definition progressBasedOrder :: "'r rng_ops \<Rightarrow> int \<Rightarrow> int \<Rightarrow> 'r Bot \<Rightarrow> (OrderMessage \<times> 'r Bot) option" where
  "progressBasedOrder R orderID seq b =
     (let cfg = config b;
          progress = fdiv (float64 (ordersSent b)) (float64 (OrdersToSend cfg)) in
      if progress < fl (60 / 100) then
        case Intn R 10 (rng b) of None \<Rightarrow> None | Some (v1, r1) \<Rightarrow>
        case Intn R 2 r1 of None \<Rightarrow> None | Some (coin, r2) \<Rightarrow>
        let buyPrice = wrap64 (wrap64 (MidPrice cfg - 1) - v1) in
        case (if coin = 0
              then (case Intn R 10 r2 of None \<Rightarrow> None
                    | Some (v2, r3) \<Rightarrow> Some (Sell, wrap64 (wrap64 (MidPrice cfg + 1) + v2), r3))
              else Some (Buy, buyPrice, r2)) of
          None \<Rightarrow> None
        | Some (side, price, r4) \<Rightarrow>
            Some (\<lparr>BotID = StringID cfg, MsgOrderID = orderID, MsgType = Limit, MsgSide = side, MsgPrice = price, MsgQuantity = 100\<rparr>,
                  b\<lparr>rng := r4, activeRing := push orderID (activeRing b)\<rparr>)
      else if progress < fl (80 / 100) then
        case Intn R 2 (rng b) of None \<Rightarrow> None | Some (coin, r1) \<Rightarrow>
          Some (\<lparr>BotID = StringID cfg, MsgOrderID = orderID, MsgType = Market, MsgSide = (if coin = 0 then Sell else Buy),
                 MsgPrice = 0, MsgQuantity = 5000\<rparr>, b\<lparr>rng := r1\<rparr>)
      else
        case pop (activeRing b) of
          (Some cancelID, ring) \<Rightarrow>
            Some (\<lparr>BotID = StringID cfg, MsgOrderID = cancelID, MsgType = Cancel, MsgSide = [], MsgPrice = 0, MsgQuantity = 0\<rparr>,
                  b\<lparr>activeRing := ring\<rparr>)
        | (None, ring) \<Rightarrow>
            Some (\<lparr>BotID = StringID cfg, MsgOrderID = orderID, MsgType = Limit, MsgSide = Buy, MsgPrice = 1, MsgQuantity = 1\<rparr>, b))"

definition marketMakerOrder :: "'r rng_ops \<Rightarrow> int \<Rightarrow> int \<Rightarrow> 'r Bot \<Rightarrow> (OrderMessage \<times> 'r Bot) option" where
  "marketMakerOrder R orderID seq b =
     (let cfg = config b in
      case Int63n R (wrap64 (Spread cfg sdiv 10 + 1)) (rng b) of None \<Rightarrow> None | Some (variation, r1) \<Rightarrow>
      let (side, price) =
            (if seq smod 2 = 0 then (Buy, wrap64 (wrap64 (MidPrice cfg - Spread cfg sdiv 2) - variation))
             else (Sell, wrap64 (wrap64 (MidPrice cfg + Spread cfg sdiv 2) + variation))) in
      case Int63n R 500 r1 of None \<Rightarrow> None | Some (q, r2) \<Rightarrow>
        Some (\<lparr>BotID = StringID cfg, MsgOrderID = orderID, MsgType = Limit, MsgSide = side, MsgPrice = price,
               MsgQuantity = wrap64 (500 + q)\<rparr>, b\<lparr>rng := r2\<rparr>))"

definition momentumOrder :: "'r rng_ops \<Rightarrow> int \<Rightarrow> int \<Rightarrow> 'r Bot \<Rightarrow> (OrderMessage \<times> 'r Bot) option" where
  "momentumOrder R orderID seq b =
     (let cfg = config b in
      if seq smod 5 = 0 then
        Some (\<lparr>BotID = StringID cfg, MsgOrderID = orderID, MsgType = Cancel, MsgSide = Buy, MsgPrice = 0, MsgQuantity = 0\<rparr>, b)
      else
        let (u, r1) = rngFloat64 R (rng b) in
        case (if u < fl (2 / 10)
              then (case Int63n R (wrap64 (wrap64 (Spread cfg * 2) + 1)) r1 of None \<Rightarrow> None
                    | Some (variation, r2) \<Rightarrow> Some (Limit, wrap64 (wrap64 (MidPrice cfg - Spread cfg) + variation), r2))
              else Some (Market, 0, r1)) of
          None \<Rightarrow> None
        | Some (orderType, price, r3) \<Rightarrow>
            case Int63n R 3000 r3 of None \<Rightarrow> None | Some (q, r4) \<Rightarrow>
            case Int63n R 2 r4 of None \<Rightarrow> None | Some (coin, r5) \<Rightarrow>
              Some (\<lparr>BotID = StringID cfg, MsgOrderID = orderID, MsgType = orderType,
                     MsgSide = (if coin = 0 then Sell else Buy), MsgPrice = price, MsgQuantity = wrap64 (2000 + q)\<rparr>, b\<lparr>rng := r5\<rparr>))"

definition zipfQuantity :: "'r rng_ops \<Rightarrow> 'r \<Rightarrow> int \<times> 'r" where
  "zipfQuantity R r =
     (let (u, r1) = rngFloat64 R r;
          u1 = (if u < fl (1 / 100) then fl (1 / 100) else u);
          raw = trunc64 (fmul (fdiv 1 u1) 200) in
      (if raw > 10000 then 10000 else raw, r1))"

definition noiseOrder :: "'r rng_ops \<Rightarrow> int \<Rightarrow> 'r Bot \<Rightarrow> (OrderMessage \<times> 'r Bot) option" where
  "noiseOrder R orderID b =
     (let cfg = config b; (roll, r1) = rngFloat64 R (rng b) in
      case (if roll < fl (60 / 100) then
              (case Int63n R (wrap64 (MidPrice cfg sdiv 10 + 1)) r1 of None \<Rightarrow> None | Some (variation, r2) \<Rightarrow>
               case Int63n R 2 r2 of None \<Rightarrow> None | Some (coin, r3) \<Rightarrow>
                 Some (Limit, wrap64 (if coin = 0 then MidPrice cfg + variation else MidPrice cfg - variation), r3))
            else if roll < fl (85 / 100) then Some (Market, 0, r1)
            else Some (Cancel, 0, r1)) of
        None \<Rightarrow> None
      | Some (orderType, price, r4) \<Rightarrow>
          case Int63n R 2 r4 of None \<Rightarrow> None | Some (coin, r5) \<Rightarrow>
          let (q, r6) = zipfQuantity R r5 in
            Some (\<lparr>BotID = StringID cfg, MsgOrderID = orderID, MsgType = orderType,
                   MsgSide = (if coin = 0 then Sell else Buy), MsgPrice = price, MsgQuantity = q\<rparr>, b\<lparr>rng := r6\<rparr>))"

definition mkOrderID :: "int \<Rightarrow> int \<Rightarrow> int" where
  \<comment> \<open>\<^verbatim>\<open>(NumericID << 32) | (seq & 0xFFFFFFFF)\<close>\<close>
  "mkOrderID numericID seq = shl32 numericID OR low32 seq"

definition NextOrder :: "'r rng_ops \<Rightarrow> 'r Bot \<Rightarrow> (OrderMessage \<times> 'r Bot) option" where
  "NextOrder R b0 =
     (let seq = wrap64 (seqNum b0 + 1);
          b = b0\<lparr>ordersSent := wrap64 (ordersSent b0 + 1), seqNum := seq\<rparr>;
          cfg = config b;
          orderID = mkOrderID (NumericID cfg) seq in
      if OrdersToSend cfg \<le> 0 then
        Some (\<lparr>BotID = StringID cfg, MsgOrderID = orderID, MsgType = Limit, MsgSide = Buy, MsgPrice = 1, MsgQuantity = 1\<rparr>, b)
      else if StrategyOf cfg = MarketMaker then marketMakerOrder R orderID seq b
      else if StrategyOf cfg = MomentumTrader then momentumOrder R orderID seq b
      else if StrategyOf cfg = NoiseTrader then noiseOrder R orderID b
      else progressBasedOrder R orderID seq b)"

definition RecordSendTime :: "int \<Rightarrow> int \<Rightarrow> 'r Bot \<Rightarrow> 'r Bot option" where
  "RecordSendTime now seq b =
     (let idx = nat (low32 seq) in
      if idx < length (SendTimes b) then Some (b\<lparr>SendTimes := (SendTimes b)[idx := now]\<rparr>) else None)"

definition CalculateLatency :: "int \<Rightarrow> int \<Rightarrow> 'r Bot \<Rightarrow> int option" where
  "CalculateLatency now orderID b =
     (let seq = nat (low32 orderID) in
      if seq < length (SendTimes b) then
        (let sendTime = SendTimes b ! seq in Some (if sendTime = 0 then - 1 else wrap64 (now - sendTime)))
      else None)"

definition FloatToScaled :: "rat \<Rightarrow> int" where
  "FloatToScaled f = trunc64 (fmul f 100)"

definition ScaledToFloat :: "int \<Rightarrow> rat" where
  "ScaledToFloat scaled = fdiv (float64 scaled) 100"

definition NewBotConfig :: "int \<Rightarrow> string \<Rightarrow> StrategyType \<Rightarrow> rat \<Rightarrow> rat \<Rightarrow> int \<Rightarrow> rat \<Rightarrow> int \<Rightarrow> BotConfig" where
  "NewBotConfig numericID stringID strategy midPrice spread toSend ratePerSec seed =
     \<lparr>NumericID = numericID, StringID = stringID, StrategyOf = strategy, MidPrice = FloatToScaled midPrice,
      Spread = FloatToScaled spread, OrdersToSend = toSend, RatePerSec = ratePerSec, Seed = seed\<rparr>"

end
