(* ===== verification/Bot_Ring.thy ===== *)
theory Bot_Ring
  imports Bots
begin

text \<open>
  The ring buffer of \<^verbatim>\<open>bot-fleet/bot.go\<close> as a bounded first-in-first-out queue: the interface
  \<open>bounded_fifo\<close>, its consequences for a client that pushes and pops, and the interpretation on
  \<^verbatim>\<open>ringBuf\<close>, whose head and tail wrap around.
\<close>

section \<open>Interface\<close>

fun pops :: "('q \<Rightarrow> 'v option \<times> 'q) \<Rightarrow> nat \<Rightarrow> 'q \<Rightarrow> 'v list" where
  \<comment> \<open>the values of up to \<open>n\<close> pops\<close>
  "pops pp 0 q = []"
| "pops pp (Suc n) q = (case pp q of (None, _) \<Rightarrow> [] | (Some v, q') \<Rightarrow> v # pops pp n q')"

locale bounded_fifo =
  fixes ok :: "'q \<Rightarrow> bool" and items :: "'q \<Rightarrow> 'v list" and capacity :: "'q \<Rightarrow> nat"
    and enq :: "'v \<Rightarrow> 'q \<Rightarrow> 'q" and deq :: "'q \<Rightarrow> 'v option \<times> 'q"
  assumes ok_enq: "ok q \<Longrightarrow> ok (enq v q)" and ok_deq: "ok q \<Longrightarrow> ok (snd (deq q))"
    and cap_pos: "ok q \<Longrightarrow> 0 < capacity q" and items_cap: "ok q \<Longrightarrow> length (items q) \<le> capacity q"
    and cap_enq: "capacity (enq v q) = capacity q" and cap_deq: "capacity (snd (deq q)) = capacity q"
    and items_enq: "ok q \<Longrightarrow>
       items (enq v q) = (if length (items q) < capacity q then items q else tl (items q)) @ [v]"
    and deq_empty: "ok q \<Longrightarrow> items q = [] \<Longrightarrow> deq q = (None, q)"
    and deq_first: "ok q \<Longrightarrow> items q = v # vs \<Longrightarrow> fst (deq q) = Some v \<and> items (snd (deq q)) = vs"
begin

lemma items_enqs:
  "ok q \<Longrightarrow> ok (fold enq vs q) \<and> capacity (fold enq vs q) = capacity q \<and>
     items (fold enq vs q) = drop (length (items q @ vs) - capacity q) (items q @ vs)"
proof (induction vs arbitrary: q)
  case Nil
  then show ?case using items_cap by simp
next
  case (Cons v vs)
  have c: "0 < capacity q" "length (items q) \<le> capacity q" using Cons.prems cap_pos items_cap by auto
  have "drop (length (items q @ v # vs) - capacity q) (items q @ v # vs) =
      drop (length (items (enq v q) @ vs) - capacity q) (items (enq v q) @ vs)"
  proof (cases "length (items q) < capacity q")
    case True
    then show ?thesis using Cons.prems by (simp add: items_enq)
  next
    case False
    then obtain w ws where "items q = w # ws" "length (items q) = capacity q" using c by (cases "items q") auto
    then show ?thesis using Cons.prems by (simp add: items_enq Suc_diff_le)
  qed
  then show ?case using Cons.IH [OF ok_enq [OF Cons.prems]] by (simp add: cap_enq)
qed

lemma pops_items: "ok q \<Longrightarrow> pops deq n q = take n (items q)"
proof (induction n arbitrary: q)
  case (Suc n)
  show ?case
  proof (cases "items q")
    case Nil
    then show ?thesis using deq_empty [OF Suc.prems] by simp
  next
    case (Cons v vs)
    then show ?thesis using deq_first [OF Suc.prems Cons] Suc.IH [OF ok_deq [OF Suc.prems]]
      by (simp add: case_prod_beta)
  qed
qed simp

end

section \<open>The ring buffer\<close>

definition ring_ok :: "ringBuf \<Rightarrow> bool" where
  "ring_ok r \<longleftrightarrow> 0 < length (buf r) \<and> head r < length (buf r) \<and> rsize r \<le> length (buf r) \<and>
     tail r = (head r + rsize r) mod length (buf r)"

definition ring_items :: "ringBuf \<Rightarrow> int list" where
  "ring_items r = map (\<lambda>k. buf r ! ((head r + k) mod length (buf r))) [0..<rsize r]"

lemma mod_window:
  fixes n :: nat
  assumes "k < n" "j < n" "(h + k) mod n = (h + j) mod n"
  shows "k = j"
proof -
  have "k mod n = j mod n" using assms(3) by (simp add: nat_mod_eq_iff)
  then show ?thesis using assms(1,2) by simp
qed

lemma ring_items_push:
  assumes "ring_ok r"
  shows "ring_items (push v r) = (if rsize r < length (buf r) then ring_items r else tl (ring_items r)) @ [v]"
proof (rule nth_equalityI)
  let ?n = "length (buf r)" and ?h = "head r"
  have r: "0 < ?n" "?h < ?n" "rsize r \<le> ?n" "tail r = (?h + rsize r) mod ?n" using assms by (auto simp: ring_ok_def)
  show "length (ring_items (push v r)) =
      length ((if rsize r < ?n then ring_items r else tl (ring_items r)) @ [v])"
    using r by (auto simp: ring_items_def push_def Let_def)
  fix k assume "k < length (ring_items (push v r))"
  then have k: "k < (if rsize r < ?n then Suc (rsize r) else ?n)" using r by (auto simp: ring_items_def push_def Let_def split: if_splits)
  show "ring_items (push v r) ! k = ((if rsize r < ?n then ring_items r else tl (ring_items r)) @ [v]) ! k"
  proof (cases "rsize r < ?n")
    case True
    then have "(?h + k) mod ?n = (?h + rsize r) mod ?n \<longleftrightarrow> k = rsize r" using k mod_window [of k ?n "rsize r" ?h] by auto
    then show ?thesis using True k r by (auto simp: ring_items_def push_def Let_def nth_append nth_list_update less_Suc_eq)
  next
    case False
    then have full: "rsize r = ?n" "tail r = ?h" using r by auto
    have "(Suc ?h mod ?n + k) mod ?n = (?h + Suc k) mod ?n" by (simp add: mod_add_left_eq)
    moreover have "(?h + Suc k) mod ?n = ?h \<longleftrightarrow> Suc k = ?n"
    proof (cases "Suc k < ?n")
      case True
      then show ?thesis using r mod_window [of "Suc k" ?n 0 ?h] by auto
    next
      case 2: False
      then have "Suc k = ?n" using k False by simp
      then show ?thesis using r by (metis mod_add_self2 mod_less)
    qed
    ultimately show ?thesis using full k r False
      by (auto simp: ring_items_def push_def Let_def nth_append nth_list_update nth_tl less_diff_conv)
  qed
qed

lemma ring_ok_push: "ring_ok r \<Longrightarrow> ring_ok (push v r)"
  by (auto simp: ring_ok_def push_def Let_def mod_simps add.commute)

lemma ring_items_pop:
  assumes "ring_ok r" "0 < rsize r"
  shows "ring_items r = buf r ! head r # ring_items (snd (pop r))"
proof -
  have "[0..<rsize r] = 0 # map Suc [0..<rsize r - 1]" using assms(2) by (simp add: upt_conv_Cons map_Suc_upt)
  then show ?thesis using assms by (simp add: ring_items_def pop_def ring_ok_def comp_def mod_simps)
qed

interpretation rb: bounded_fifo ring_ok ring_items "\<lambda>r. length (buf r)" push pop
proof unfold_locales
  fix r v vs assume r: "ring_ok r"
  show "ring_ok (push v r)" by (rule ring_ok_push [OF r])
  have "(Suc (head r) mod n + (rsize r - Suc 0)) mod n = (head r + rsize r) mod n" if "0 < rsize r" for n
    using that mod_add_left_eq [of "Suc (head r)" n "rsize r - Suc 0"] by (cases "rsize r") simp_all
  then show "ring_ok (snd (pop r))" using r by (auto simp: ring_ok_def pop_def)
  show "0 < length (buf r)" "length (ring_items r) \<le> length (buf r)" using r by (auto simp: ring_ok_def ring_items_def)
  show "ring_items (push v r) = (if length (ring_items r) < length (buf r) then ring_items r else tl (ring_items r)) @ [v]"
    using ring_items_push [OF r] by (simp add: ring_items_def)
  show "pop r = (None, r)" if "ring_items r = []" using that by (auto simp: ring_items_def pop_def)
  show "fst (pop r) = Some v \<and> ring_items (snd (pop r)) = vs" if "ring_items r = v # vs"
  proof -
    have "0 < rsize r" using that by (auto simp: ring_items_def intro: ccontr)
    then show ?thesis using ring_items_pop [OF r] that by (simp add: pop_def)
  qed
qed (simp_all add: push_def pop_def Let_def)

lemma newRingBuf_ok: "ring_ok (newRingBuf c) \<and> ring_items (newRingBuf c) = []"
  by (simp add: ring_ok_def newRingBuf_def ring_items_def Let_def)

section \<open>Properties\<close>

text \<open>C19: the ring buffer is a bounded queue in first-in-first-out order: after any number of pushes
  onto a new buffer, popping returns the last values pushed, at most as many as the capacity, oldest
  first; older values are dropped and the wrapped head and tail never lose or duplicate one.\<close>

theorem ring_buffer_is_bounded_fifo:
  "pops pop n (fold push vs (newRingBuf c)) =
     take n (drop (length vs - nat (if c \<le> 0 then 1024 else c)) vs)"
proof -
  let ?r = "newRingBuf c"
  have "ring_ok ?r" "ring_items ?r = []" using newRingBuf_ok by blast+
  moreover have "length (buf ?r) = nat (if c \<le> 0 then 1024 else c)" by (simp add: newRingBuf_def Let_def)
  ultimately show ?thesis using rb.items_enqs [of ?r vs] rb.pops_items [of "fold push vs ?r" n] by simp
qed

end
