(* ===== verification/Bot_Orders.thy ===== *)
theory Bot_Orders
  imports Bot_Ring Go_Strings
begin

text \<open>
  The orders a bot produces: the documented ranges of the random generator as \<open>rng_source\<close>,
  order identifiers that name their bot, and \<^verbatim>\<open>NextOrder\<close> on every strategy.
\<close>

section \<open>Order identifiers\<close>

lemma or_disjoint: "0 \<le> low \<Longrightarrow> low < 2 ^ 32 \<Longrightarrow> (a * 2 ^ 32) OR low = a * 2 ^ 32 + (low :: int)"
proof -
  assume l: "0 \<le> low" "low < 2 ^ 32"
  have "push_bit 32 a AND take_bit 32 low = 0"
    by (rule bit_eqI) (auto simp: bit_and_iff bit_push_bit_iff bit_take_bit_iff)
  moreover have "take_bit 32 low = low" using l by (simp add: take_bit_eq_mod)
  ultimately show ?thesis using plus_and_or [of "push_bit 32 a" low] by (simp add: push_bit_eq_mult)
qed

lemma mkOrderID_eq:
  assumes "0 \<le> n" "n < 2 ^ 31" "0 \<le> seq" "seq < 2 ^ 32"
  shows "mkOrderID n seq = n * 2 ^ 32 + seq"
proof -
  have "shl32 n = n * 2 ^ 32" using assms(1,2) by (simp add: shl32_def wrap64_id in64_def)
  moreover have "low32 seq = seq" using assms(3,4) by (simp add: low32_def)
  ultimately show ?thesis using or_disjoint [of seq n] assms by (simp add: mkOrderID_def)
qed

lemma mkOrderID_parts:
  assumes "0 \<le> n" "n < 2 ^ 31" "0 \<le> seq" "seq < 2 ^ 32"
  shows "shr32 (mkOrderID n seq) = n" "low32 (mkOrderID n seq) = seq"
  using assms by (simp_all add: mkOrderID_eq shr32_def low32_def)

section \<open>The random generator\<close>

locale rng_source =
  fixes R :: "'r rng_ops"
  assumes int63n_range: "0 < n \<Longrightarrow> 0 \<le> fst (rngInt63n R n r) \<and> fst (rngInt63n R n r) < n"
    and intn_range: "0 < n \<Longrightarrow> 0 \<le> fst (rngIntn R n r) \<and> fst (rngIntn R n r) < n"
    and float_range: "0 \<le> fst (rngFloat64 R r) \<and> fst (rngFloat64 R r) < 1"

definition cfg_ok :: "BotConfig \<Rightarrow> bool" where
  "cfg_ok c \<longleftrightarrow> 0 \<le> Spread c \<and> Spread c < 2 ^ 60 \<and> 0 \<le> MidPrice c \<and> MidPrice c < 2 ^ 60"

definition order_msg_ok :: "BotConfig \<Rightarrow> int \<Rightarrow> OrderMessage \<Rightarrow> bool" where
  \<comment> \<open>every order that is not a cancellation carries the fresh identifier and a positive quantity\<close>
  "order_msg_ok c orderID m \<longleftrightarrow> BotID m = StringID c \<and> MsgType m \<in> {Limit, Market, Cancel} \<and>
     (MsgType m \<noteq> Cancel \<longrightarrow> MsgOrderID m = orderID \<and> MsgSide m \<in> {Buy, Sell} \<and> 0 < MsgQuantity m \<and> MsgQuantity m \<le> 10000)"

lemma zipf_lower: "0 < u \<Longrightarrow> u < 1 \<Longrightarrow> 200 \<le> fmul (fdiv 1 u) 200"
proof -
  assume u: "0 < u" "u < 1"
  have "1 \<le> fdiv 1 u" unfolding fdiv_def using fl64.rnd_ge_int [of 1 "1 / u"] u by simp
  then show ?thesis unfolding fmul_def using fl64.rnd_ge_int [of 200 "fdiv 1 u * 200"] by simp
qed

lemma sdiv_10_bounds: "0 \<le> x \<Longrightarrow> 0 \<le> x sdiv 10 \<and> x sdiv 10 \<le> (x::int)"
  by (simp add: signed_divide_int_def sgn_if) presburger

lemma wrap64_id': "- (2 ^ 63) \<le> x \<Longrightarrow> x < 2 ^ 63 \<Longrightarrow> wrap64 x = x"
  by (rule wrap64_id) (simp add: in64_def)

context rng_source
begin

lemma zipfQuantity_range: "200 \<le> fst (zipfQuantity R r) \<and> fst (zipfQuantity R r) \<le> 10000"
proof -
  obtain u r1 where u: "rngFloat64 R r = (u, r1)" by fastforce
  define v where "v = (if u < fl (1 / 100) then fl (1 / 100) else u)"
  have small: "0 < fl (1 / 100) \<and> fl (1 / 100) < 1" by code_simp
  have "0 < v" "v < 1" using float_range [of r] u small by (auto simp: v_def)
  then have "200 \<le> fmul (fdiv 1 v) 200" by (rule zipf_lower)
  then have "200 \<le> trunc64 (fmul (fdiv 1 v) 200)" by (simp add: trunc64_def le_floor_iff)
  then show ?thesis by (simp add: zipfQuantity_def u v_def [symmetric] Let_def)
qed

lemma progress_ok:
  "\<exists>m b'. progressBasedOrder R i q b = Some (m, b') \<and> order_msg_ok (config b) i m \<and> config b' = config b \<and>
     seqNum b' = seqNum b \<and> SendTimes b' = SendTimes b"
  by (auto simp: progressBasedOrder_def Let_def Intn_def order_msg_ok_def message_consts split: prod.splits option.splits)

lemma marketMaker_ok:
  assumes "cfg_ok (config b)"
  shows "\<exists>m b'. marketMakerOrder R i q b = Some (m, b') \<and> order_msg_ok (config b) i m \<and> config b' = config b \<and>
     seqNum b' = seqNum b \<and> SendTimes b' = SendTimes b"
proof -
  have s: "0 < wrap64 (Spread (config b) sdiv 10 + 1)"
    using assms sdiv_10_bounds [of "Spread (config b)"] by (simp add: cfg_ok_def wrap64_id')
  have q: "rngInt63n R 500 r = (x, r') \<Longrightarrow> 0 < wrap64 (500 + x) \<and> wrap64 (500 + x) \<le> 10000" for r x r'
    using int63n_range [of 500 r] by (simp add: wrap64_id')
  show ?thesis using s q
    by (auto simp: marketMakerOrder_def Let_def Int63n_def order_msg_ok_def message_consts split: prod.splits)
qed

lemma momentum_ok:
  assumes "cfg_ok (config b)"
  shows "\<exists>m b'. momentumOrder R i q b = Some (m, b') \<and> order_msg_ok (config b) i m \<and> config b' = config b \<and>
     seqNum b' = seqNum b \<and> SendTimes b' = SendTimes b"
proof -
  have s: "0 < wrap64 (Spread (config b) * 2 + 1)" using assms by (simp add: cfg_ok_def wrap64_id')
  have q: "rngInt63n R 3000 r = (x, r') \<Longrightarrow> 0 < wrap64 (2000 + x) \<and> wrap64 (2000 + x) \<le> 10000" for r x r'
    using int63n_range [of 3000 r] by (simp add: wrap64_id')
  show ?thesis using s q
    by (auto simp: momentumOrder_def Let_def Int63n_def order_msg_ok_def message_consts split: prod.splits)
qed

lemma noise_ok:
  assumes "cfg_ok (config b)"
  shows "\<exists>m b'. noiseOrder R i b = Some (m, b') \<and> order_msg_ok (config b) i m \<and> config b' = config b \<and>
     seqNum b' = seqNum b \<and> SendTimes b' = SendTimes b"
proof -
  have s: "0 < wrap64 (MidPrice (config b) sdiv 10 + 1)"
    using assms sdiv_10_bounds [of "MidPrice (config b)"] by (simp add: cfg_ok_def wrap64_id')
  have z: "zipfQuantity R r = (x, r') \<Longrightarrow> 0 < x \<and> x \<le> 10000" for r x r'
    using zipfQuantity_range [of r] by auto
  show ?thesis using s z
    by (auto simp: noiseOrder_def Let_def Int63n_def order_msg_ok_def message_consts split: prod.splits)
qed

lemma NextOrder_ok:
  assumes "cfg_ok (config b)"
  shows "\<exists>m b'. NextOrder R b = Some (m, b') \<and>
     order_msg_ok (config b) (mkOrderID (NumericID (config b)) (wrap64 (seqNum b + 1))) m \<and>
     config b' = config b \<and> seqNum b' = wrap64 (seqNum b + 1) \<and> SendTimes b' = SendTimes b"
proof -
  let ?b = "b\<lparr>ordersSent := wrap64 (ordersSent b + 1), seqNum := wrap64 (seqNum b + 1)\<rparr>"
  let ?i = "mkOrderID (NumericID (config b)) (wrap64 (seqNum b + 1))"
  have c: "cfg_ok (config ?b)" using assms by simp
  have "order_msg_ok (config b) ?i \<lparr>BotID = StringID (config b), MsgOrderID = ?i, MsgType = Limit, MsgSide = Buy, MsgPrice = 1, MsgQuantity = 1\<rparr>"
    by (simp add: order_msg_ok_def message_consts)
  then show ?thesis
    using progress_ok [of ?i "wrap64 (seqNum b + 1)" ?b] marketMaker_ok [OF c, of ?i "wrap64 (seqNum b + 1)"]
      momentum_ok [OF c, of ?i "wrap64 (seqNum b + 1)"] noise_ok [OF c, of ?i]
    by (simp add: NextOrder_def Let_def)
qed

end

section \<open>A generator to evaluate with\<close>

definition lcg_ops :: "int rng_ops" where
  "lcg_ops = (let next = (\<lambda>s :: int. (s * 1103515245 + 12345) mod 2 ^ 31) in
     \<lparr>NewSource = (\<lambda>seed. seed mod 2 ^ 31),
      rngInt63n = (\<lambda>n s. (s mod n, next s)),
      rngIntn = (\<lambda>n s. (s mod n, next s)),
      rngFloat64 = (\<lambda>s. (of_int (s mod 2 ^ 31) / 2 ^ 31, next s))\<rparr>)"

interpretation lcg: rng_source lcg_ops
proof unfold_locales
  fix r :: int
  have "r mod 2 ^ 31 < 2 ^ 31" "0 \<le> r mod 2 ^ 31" by simp_all
  then have "(of_int (r mod 2 ^ 31) :: rat) < of_int (2 ^ 31)" "(0 :: rat) \<le> of_int (r mod 2 ^ 31)"
    by (simp_all only: of_int_less_iff of_int_0_le_iff)
  then show "0 \<le> fst (rngFloat64 lcg_ops r) \<and> fst (rngFloat64 lcg_ops r) < 1" by (simp add: lcg_ops_def)
qed (simp_all add: lcg_ops_def)

section \<open>Sequences of orders\<close>

fun nextOrders :: "'r rng_ops \<Rightarrow> nat \<Rightarrow> 'r Bot \<Rightarrow> OrderMessage list option" where
  "nextOrders R 0 b = Some []"
| "nextOrders R (Suc n) b =
     (case NextOrder R b of None \<Rightarrow> None
      | Some (m, b') \<Rightarrow> case nextOrders R n b' of None \<Rightarrow> None | Some ms \<Rightarrow> Some (m # ms))"

definition sentIDs :: "OrderMessage list \<Rightarrow> int list" where
  "sentIDs ms = map MsgOrderID (filter (\<lambda>m. MsgType m \<noteq> Cancel) ms)"

context rng_source
begin

lemma nextOrders_ids:
  assumes "cfg_ok (config b)" "0 \<le> NumericID (config b)" "NumericID (config b) < 2 ^ 31"
    and "0 \<le> seqNum b" "seqNum b + int n < 2 ^ 32"
  shows "\<exists>ms. nextOrders R n b = Some ms \<and> length ms = n \<and> distinct (sentIDs ms) \<and>
     (\<forall>i \<in> set (sentIDs ms). shr32 i = NumericID (config b) \<and> seqNum b < low32 i \<and> low32 i \<le> seqNum b + int n)"
  using assms
proof (induction n arbitrary: b)
  case (Suc n)
  have w: "wrap64 (seqNum b + 1) = seqNum b + 1" using Suc.prems(4,5) by (simp add: wrap64_id')
  obtain m b' where no: "NextOrder R b = Some (m, b')"
    and m: "order_msg_ok (config b) (mkOrderID (NumericID (config b)) (seqNum b + 1)) m"
    and b': "config b' = config b" "seqNum b' = seqNum b + 1"
    using NextOrder_ok [OF Suc.prems(1)] w by metis
  obtain ms where ms: "nextOrders R n b' = Some ms" "length ms = n" "distinct (sentIDs ms)"
    "\<forall>i \<in> set (sentIDs ms). shr32 i = NumericID (config b) \<and> seqNum b + 1 < low32 i \<and> low32 i \<le> seqNum b + 1 + int n"
    using Suc.IH [of b'] Suc.prems b' by auto
  note parts = mkOrderID_parts [OF Suc.prems(2,3), of "seqNum b + 1"]
  have "\<forall>i \<in> set (sentIDs ms). i \<noteq> mkOrderID (NumericID (config b)) (seqNum b + 1)"
    using ms(4) parts(2) Suc.prems(4,5) by fastforce
  then show ?case using no ms m parts Suc.prems(4,5) by (force simp: sentIDs_def order_msg_ok_def)
qed (simp add: sentIDs_def)

end

lemma NewBot_config: "NewBot R c = Some b \<Longrightarrow> config b = c \<and> seqNum b = 0"
  by (auto simp: NewBot_def split: if_splits)

section \<open>Properties\<close>

text \<open>C18: a bot never panics while it produces its orders, and order identifiers name their owner.
  For any strategy and any generator within its documented ranges, a new bot produces all its
  orders; no two of them that are not cancellations share an identifier, and the upper half of
  every such identifier is the number of the bot, which is what the validator's self-trade check
  reads.\<close>

theorem bot_orders_unique_and_owned:
  assumes "rng_source R" "NewBot R cfg = Some b" "cfg_ok cfg" "0 \<le> NumericID cfg" "NumericID cfg < 2 ^ 31" "n < 2 ^ 32"
  shows "\<exists>ms. nextOrders R n b = Some ms \<and> length ms = n \<and> distinct (sentIDs ms) \<and>
     (\<forall>i \<in> set (sentIDs ms). shr32 i = NumericID cfg \<and> 0 < low32 i \<and> low32 i \<le> int n)"
proof -
  have b: "config b = cfg" "seqNum b = 0" using NewBot_config [OF assms(2)] by auto
  have "int n < 2 ^ 32" using assms(6) by (metis of_nat_less_iff of_nat_numeral of_nat_power)
  then show ?thesis using rng_source.nextOrders_ids [OF assms(1), of b n] assms(3-5) b by auto
qed

definition cfg7 :: BotConfig where
  "cfg7 = NewBotConfig 7 ''bot-7'' MarketMaker 100 (1 / 8) 5 10 42"

theorem bot_orders_unique_and_owned_witness:
  "\<exists>ms. nextOrders lcg_ops 5 (the (NewBot lcg_ops cfg7)) = Some ms \<and> length ms = 5 \<and> distinct (sentIDs ms)"
proof -
  have "NewBot lcg_ops cfg7 = Some (the (NewBot lcg_ops cfg7))" by (simp add: NewBot_def cfg7_def NewBotConfig_def)
  moreover have "cfg_ok cfg7" unfolding cfg7_def cfg_ok_def by code_simp
  moreover have "NumericID cfg7 = 7" by (simp add: cfg7_def NewBotConfig_def)
  ultimately show ?thesis using bot_orders_unique_and_owned [OF lcg.rng_source_axioms, of cfg7 _ 5] by auto
qed

text \<open>identifiers of different bots never collide: with numbers below \<open>2\<^sup>31\<close> and sequence numbers
  below \<open>2\<^sup>32\<close> the identifier determines both, so two orders with one identifier come from the same
  bot and the same position.\<close>

lemma order_id_roundtrip:
  assumes "0 \<le> n" "n < 2 ^ 31" "0 \<le> seq" "seq < 2 ^ 32" "0 \<le> n'" "n' < 2 ^ 31" "0 \<le> seq'" "seq' < 2 ^ 32"
  shows "shr32 (mkOrderID n seq) = n \<and> low32 (mkOrderID n seq) = seq \<and> in64 (mkOrderID n seq) \<and>
     (mkOrderID n seq = mkOrderID n' seq' \<longrightarrow> n = n' \<and> seq = seq')"
proof -
  have "in64 (mkOrderID n seq)" using assms(1-4) by (simp add: mkOrderID_eq in64_def)
  then show ?thesis using mkOrderID_parts [OF assms(1-4)] mkOrderID_parts [OF assms(5-8)] by metis
qed

lemma order_id_roundtrip_witness:
  "shr32 (mkOrderID 3 9) = 3 \<and> low32 (mkOrderID 3 9) = 9 \<and> mkOrderID 3 9 \<noteq> mkOrderID 4 9"
  using order_id_roundtrip [of 3 9 4 9] by auto

text \<open>A market maker quotes on both sides of the mid price: its buy orders are at least half
  the spread below it and its sell orders at least half the spread above it, within a tenth of the
  spread, so that it never trades with itself.\<close>

lemma market_maker_quotes_straddle_mid:
  assumes "rng_source R" "cfg_ok (config b)" "marketMakerOrder R i seq b = Some (m, b')"
  shows "(MsgSide m = Buy \<longrightarrow> MsgPrice m \<le> MidPrice (config b) - Spread (config b) sdiv 2 \<and>
       MidPrice (config b) - Spread (config b) sdiv 2 - Spread (config b) sdiv 10 \<le> MsgPrice m) \<and>
     (MsgSide m = Sell \<longrightarrow> MidPrice (config b) + Spread (config b) sdiv 2 \<le> MsgPrice m \<and>
       MsgPrice m \<le> MidPrice (config b) + Spread (config b) sdiv 2 + Spread (config b) sdiv 10) \<and>
     MsgSide m \<in> {Buy, Sell}"
proof -
  let ?s = "Spread (config b)" and ?m = "MidPrice (config b)"
  have s: "0 \<le> ?s sdiv 10" "?s sdiv 10 < 2 ^ 60" "0 \<le> ?s sdiv 2" "?s sdiv 2 < 2 ^ 60" "0 \<le> ?m" "?m < 2 ^ 60"
    using assms(2) by (auto simp: cfg_ok_def signed_divide_int_def sgn_if)
  then have w: "wrap64 (?s sdiv 10 + 1) = ?s sdiv 10 + 1" by (simp add: wrap64_id')
  obtain v r1 where v: "rngInt63n R (?s sdiv 10 + 1) (rng b) = (v, r1)" by fastforce
  have "0 \<le> v" "v \<le> ?s sdiv 10"
    using rng_source.int63n_range [OF assms(1), of "?s sdiv 10 + 1" "rng b"] s(1) v by auto
  then show ?thesis
    using assms(3) s w v
    by (auto simp: marketMakerOrder_def Int63n_def Let_def wrap64_id' message_consts split: if_splits prod.splits)
qed

lemma market_maker_quotes_straddle_mid_witness:
  "MsgPrice (fst (the (marketMakerOrder lcg_ops 1 1 (the (NewBot lcg_ops cfg7))))) \<ge> 10000"
proof -
  let ?b = "the (NewBot lcg_ops cfg7)"
  have "cfg_ok cfg7" unfolding cfg7_def cfg_ok_def by code_simp
  moreover have c: "config ?b = cfg7" by (simp add: NewBot_def cfg7_def NewBotConfig_def)
  moreover have "(case marketMakerOrder lcg_ops 1 1 ?b of Some (m, b') \<Rightarrow> MsgSide m = Sell | None \<Rightarrow> False)" by code_simp
  then obtain m b' where m: "marketMakerOrder lcg_ops 1 1 ?b = Some (m, b')" "MsgSide m = Sell"
    by (auto split: option.splits)
  moreover have "10000 \<le> MidPrice cfg7 + Spread cfg7 sdiv 2" by code_simp
  ultimately show ?thesis
    using market_maker_quotes_straddle_mid [OF lcg.rng_source_axioms, of ?b 1 1 m b'] by simp
qed

end
