(* ===== verification/Bot_Strategy.thy ===== *)
theory Bot_Strategy
  imports Bot_Orders
begin

text \<open>
  \<^verbatim>\<open>bot-fleet/strategy.go\<close>: when a bot sends. The token-bucket limiter of
  \<^verbatim>\<open>golang.org/x/time/rate\<close> is outside the repository: its rate and burst are recorded and the
  outcome of its \<^verbatim>\<open>Wait\<close> (an error or none) is an argument, as is whether the context ends
  before a sleep is over. The result of \<^verbatim>\<open>Wait\<close> is the sleep in milliseconds, if there was one,
  and whether it returned without an error.
\<close>

section \<open>Strategies\<close>

record limiter =
  lim_rate :: rat
  lim_burst :: nat

record 'r MomentumStrategy =
  mo_limiter :: limiter
  mo_rng :: 'r
  burstSize :: nat
  burstFired :: nat
  inBurst :: bool
  baseSleepMs :: int

record 'r NoiseStrategy =
  no_limiter :: limiter
  no_rng :: 'r
  minSleepMs :: int
  maxSleepMs :: int

datatype 'r Strategy =
    SMarketMaker limiter
  | SMomentum "'r MomentumStrategy"
  | SNoise "'r NoiseStrategy"
  | SDefault limiter string

definition NewMarketMakerStrategy :: "rat \<Rightarrow> 'r Strategy" where
  "NewMarketMakerStrategy ratePerSec = SMarketMaker \<lparr>lim_rate = ratePerSec, lim_burst = 2\<rparr>"

definition NewMomentumStrategy :: "'r rng_ops \<Rightarrow> rat \<Rightarrow> int \<Rightarrow> int \<Rightarrow> 'r Strategy" where
  "NewMomentumStrategy R ratePerSec botNumericID seed =
     (let burst = 16; requiredRefillMs = trunc64 (fmul (fdiv (float64 burst) ratePerSec) 1000) in
      SMomentum \<lparr>mo_limiter = \<lparr>lim_rate = ratePerSec, lim_burst = nat burst\<rparr>,
                 mo_rng = NewSource R (wrap64 (seed + wrap64 (botNumericID * 7919))),
                 burstSize = nat burst, burstFired = 0, inBurst = False, baseSleepMs = requiredRefillMs\<rparr>)"

definition NewNoiseStrategy :: "'r rng_ops \<Rightarrow> rat \<Rightarrow> int \<Rightarrow> int \<Rightarrow> 'r Strategy" where
  "NewNoiseStrategy R ratePerSec botNumericID seed =
     (let avg0 = trunc64 (fdiv 1000 ratePerSec);
          avgSleepMs = (if avg0 < 2 then 2 else avg0) in
      SNoise \<lparr>no_limiter = \<lparr>lim_rate = ratePerSec, lim_burst = 10\<rparr>,
              no_rng = NewSource R (wrap64 (seed + wrap64 (botNumericID * 104729))),
              minSleepMs = avgSleepMs sdiv 4, maxSleepMs = wrap64 (avgSleepMs + avgSleepMs sdiv 2)\<rparr>)"

definition NewDefaultStrategy :: "rat \<Rightarrow> StrategyType \<Rightarrow> 'r Strategy" where
  "NewDefaultStrategy ratePerSec strategyType = SDefault \<lparr>lim_rate = ratePerSec, lim_burst = 1\<rparr> strategyType"

definition newStrategy :: "'r rng_ops \<Rightarrow> 'r Bot \<Rightarrow> 'r Strategy" where
  "newStrategy R b =
     (let c = config b in
      if StrategyOf c = MarketMaker then NewMarketMakerStrategy (RatePerSec c)
      else if StrategyOf c = MomentumTrader then NewMomentumStrategy R (RatePerSec c) (NumericID c) (Seed c)
      else if StrategyOf c = NoiseTrader then NewNoiseStrategy R (RatePerSec c) (NumericID c) (Seed c)
      else NewDefaultStrategy (RatePerSec c) (StrategyOf c))"

definition momentumWait :: "'r rng_ops \<Rightarrow> bool \<Rightarrow> bool \<Rightarrow> 'r MomentumStrategy \<Rightarrow>
    (int option \<times> bool \<times> 'r MomentumStrategy) option" where
  "momentumWait R ctxDone limOk s =
     (if inBurst s then
        let fired = burstFired s + 1 in
        Some (None, limOk,
              if burstSize s \<le> fired then s\<lparr>inBurst := False, burstFired := 0\<rparr> else s\<lparr>burstFired := fired\<rparr>)
      else
        case Int63n R (wrap64 (baseSleepMs s sdiv 5 + 1)) (mo_rng s) of None \<Rightarrow> None
        | Some (jitter, r) \<Rightarrow>
            let sleep = wrap64 (baseSleepMs s + jitter) in
            if ctxDone then Some (Some sleep, False, s\<lparr>mo_rng := r\<rparr>)
            else Some (Some sleep, limOk, s\<lparr>mo_rng := r, inBurst := True, burstFired := 1\<rparr>))"

definition noiseWait :: "'r rng_ops \<Rightarrow> bool \<Rightarrow> bool \<Rightarrow> 'r NoiseStrategy \<Rightarrow>
    (int option \<times> bool \<times> 'r NoiseStrategy) option" where
  "noiseWait R ctxDone limOk s =
     (let range0 = wrap64 (maxSleepMs s - minSleepMs s);
          sleepRange = (if range0 \<le> 0 then 1 else range0) in
      case Int63n R sleepRange (no_rng s) of None \<Rightarrow> None
      | Some (v, r) \<Rightarrow>
          Some (Some (wrap64 (minSleepMs s + v)), \<not> ctxDone \<and> limOk, s\<lparr>no_rng := r\<rparr>))"

definition Wait :: "'r rng_ops \<Rightarrow> bool \<Rightarrow> bool \<Rightarrow> 'r Strategy \<Rightarrow> (int option \<times> bool \<times> 'r Strategy) option" where
  "Wait R ctxDone limOk st =
     (case st of
        SMarketMaker l \<Rightarrow> Some (None, limOk, st)
      | SMomentum s \<Rightarrow> map_option (\<lambda>(d, e, s'). (d, e, SMomentum s')) (momentumWait R ctxDone limOk s)
      | SNoise s \<Rightarrow> map_option (\<lambda>(d, e, s'). (d, e, SNoise s')) (noiseWait R ctxDone limOk s)
      | SDefault l nm \<Rightarrow> Some (None, limOk, st))"

definition Name :: "'r Strategy \<Rightarrow> string" where
  "Name st = (case st of SMarketMaker l \<Rightarrow> ''MARKET_MAKER'' | SMomentum s \<Rightarrow> ''MOMENTUM_TRADER''
      | SNoise s \<Rightarrow> ''NOISE_TRADER'' | SDefault l nm \<Rightarrow> nm)"

section \<open>Invariant\<close>

definition strategy_ok :: "'r Strategy \<Rightarrow> bool" where
  "strategy_ok st \<longleftrightarrow> (case st of
     SMomentum s \<Rightarrow> burstSize s = 16 \<and> burstFired s < 16 \<and> (inBurst s \<longleftrightarrow> 0 < burstFired s) \<and>
       0 \<le> baseSleepMs s \<and> baseSleepMs s < 2 ^ 60
   | SNoise s \<Rightarrow> 0 \<le> minSleepMs s \<and> minSleepMs s < maxSleepMs s \<and> maxSleepMs s < 2 ^ 61
   | _ \<Rightarrow> True)"

definition rate_ok :: "rat \<Rightarrow> bool" where
  \<comment> \<open>positive and not so small that a sleep overflows\<close>
  "rate_ok r \<longleftrightarrow> 0 < r \<and> trunc64 (fmul (fdiv 16 r) 1000) < 2 ^ 59 \<and> trunc64 (fdiv 1000 r) < 2 ^ 59"

lemma trunc64_nonneg: "0 \<le> x \<Longrightarrow> 0 \<le> trunc64 x"
  by (simp add: trunc64_def)

lemma newStrategy_ok: "rate_ok (RatePerSec (config b)) \<Longrightarrow> strategy_ok (newStrategy R b)"
proof -
  assume r: "rate_ok (RatePerSec (config b))"
  let ?r = "RatePerSec (config b)"
  have f16: "float64 16 = 16" by (simp add: float64_def)
  have "0 \<le> fmul (fdiv 16 ?r) 1000" using r by (simp add: rate_ok_def fmul_def fdiv_def fl_nonneg)
  then have m: "0 \<le> trunc64 (fmul (fdiv 16 ?r) 1000)" by (rule trunc64_nonneg)
  define a where "a = (if trunc64 (fdiv 1000 ?r) < 2 then 2 else trunc64 (fdiv 1000 ?r))"
  have "2 \<le> a" "a < 2 ^ 59" using r by (auto simp: a_def rate_ok_def)
  then have "0 \<le> a sdiv 4" "a sdiv 4 < a + a sdiv 2" "a + a sdiv 2 < 2 ^ 60" "wrap64 (a + a sdiv 2) = a + a sdiv 2"
    by (auto simp: signed_divide_int_def sgn_if wrap64_id')
  then show ?thesis
    using r m by (simp add: newStrategy_def NewMarketMakerStrategy_def NewMomentumStrategy_def NewNoiseStrategy_def
      NewDefaultStrategy_def strategy_ok_def Let_def f16 rate_ok_def a_def [symmetric])
qed

context rng_source
begin

lemma Wait_ok:
  assumes "strategy_ok st"
  shows "\<exists>d e st'. Wait R ctxDone limOk st = Some (d, e, st') \<and> strategy_ok st' \<and> (\<forall>ms. d = Some ms \<longrightarrow> 0 \<le> ms)"
proof (cases st)
  case (SMomentum s)
  have s: "burstSize s = 16" "burstFired s < 16" "inBurst s \<longleftrightarrow> 0 < burstFired s" "0 \<le> baseSleepMs s" "baseSleepMs s < 2 ^ 60"
    using assms SMomentum by (simp_all add: strategy_ok_def)
  show ?thesis
  proof (cases "inBurst s")
    case True
    then show ?thesis using s SMomentum by (auto simp: Wait_def momentumWait_def strategy_ok_def Let_def)
  next
    case False
    have d: "0 \<le> baseSleepMs s sdiv 5" "baseSleepMs s sdiv 5 < 2 ^ 60" using s by (auto simp: signed_divide_int_def sgn_if)
    obtain v r where v: "rngInt63n R (baseSleepMs s sdiv 5 + 1) (mo_rng s) = (v, r)" by fastforce
    have "0 \<le> v" "v < baseSleepMs s sdiv 5 + 1" using int63n_range [of "baseSleepMs s sdiv 5 + 1" "mo_rng s"] d v by auto
    then show ?thesis using False SMomentum s d v
      by (auto simp: Wait_def momentumWait_def Int63n_def strategy_ok_def Let_def wrap64_id')
  qed
next
  case (SNoise s)
  have s: "0 \<le> minSleepMs s" "minSleepMs s < maxSleepMs s" "maxSleepMs s < 2 ^ 61"
    using assms SNoise by (simp_all add: strategy_ok_def)
  obtain v r where v: "rngInt63n R (maxSleepMs s - minSleepMs s) (no_rng s) = (v, r)" by fastforce
  have "0 \<le> v" "v < maxSleepMs s - minSleepMs s" using int63n_range [of "maxSleepMs s - minSleepMs s" "no_rng s"] s v by auto
  then show ?thesis using SNoise s v
    by (auto simp: Wait_def noiseWait_def Int63n_def strategy_ok_def Let_def wrap64_id')
qed (use assms in \<open>simp_all add: Wait_def strategy_ok_def\<close>)

end

fun waits :: "'r rng_ops \<Rightarrow> nat \<Rightarrow> 'r Strategy \<Rightarrow> (int option list \<times> 'r Strategy) option" where
  \<comment> \<open>successive successful waits and their sleeps\<close>
  "waits R 0 st = Some ([], st)"
| "waits R (Suc n) st = (case Wait R False True st of None \<Rightarrow> None
     | Some (d, e, st') \<Rightarrow> case waits R n st' of None \<Rightarrow> None | Some (ds, st'') \<Rightarrow> Some (d # ds, st''))"

lemma waits_burst:
  assumes "inBurst s" "burstSize s = 16" "burstFired s + n = 16" "0 < n"
  shows "waits R n (SMomentum s) = Some (replicate n None, SMomentum (s\<lparr>inBurst := False, burstFired := 0\<rparr>))"
  using assms
proof (induction n arbitrary: s)
  case (Suc n)
  show ?case
  proof (cases n)
    case 0
    then show ?thesis using Suc.prems by (simp add: Wait_def momentumWait_def)
  next
    case (Suc m)
    then show ?thesis using Suc.IH [of "s\<lparr>burstFired := burstFired s + 1\<rparr>"] Suc.prems
      by (simp add: Wait_def momentumWait_def Let_def)
  qed
qed simp

section \<open>Properties\<close>

text \<open>Pacing never panics and sleeps are not negative. From the strategy that the factory builds
  for a bot with a sensible rate, every \<^verbatim>\<open>Wait\<close> returns, keeps the strategy well-formed and asks the
  random generator only for positive bounds.\<close>

lemma strategy_wait_total:
  assumes "rng_source R" "rate_ok (RatePerSec (config b))"
  shows "\<exists>ds st. waits R n (newStrategy R b) = Some (ds, st) \<and> length ds = n \<and> strategy_ok st \<and>
     (\<forall>ms. Some ms \<in> set ds \<longrightarrow> 0 \<le> ms)"
proof -
  have "\<exists>ds st. waits R n st0 = Some (ds, st) \<and> length ds = n \<and> strategy_ok st \<and> (\<forall>ms. Some ms \<in> set ds \<longrightarrow> 0 \<le> ms)"
    if "strategy_ok st0" for st0
    using that
  proof (induction n arbitrary: st0)
    case (Suc n)
    obtain d e st1 where w: "Wait R False True st0 = Some (d, e, st1)" "strategy_ok st1" "\<forall>ms. d = Some ms \<longrightarrow> 0 \<le> ms"
      using rng_source.Wait_ok [OF assms(1) Suc.prems] by blast
    then show ?case using Suc.IH [OF w(2)] by auto
  qed simp
  from this [OF newStrategy_ok [OF assms(2)]] show ?thesis .
qed

lemma strategy_wait_total_witness:
  "\<exists>ds st. waits lcg_ops 20 (newStrategy lcg_ops (the (NewBot lcg_ops (cfg7\<lparr>StrategyOf := MomentumTrader\<rparr>)))) = Some (ds, st) \<and> length ds = 20"
proof -
  have "rate_ok (RatePerSec (config (the (NewBot lcg_ops (cfg7\<lparr>StrategyOf := MomentumTrader\<rparr>)))))"
    unfolding rate_ok_def by code_simp
  from strategy_wait_total [OF lcg.rng_source_axioms this, of 20] show ?thesis by blast
qed

text \<open>A momentum trader sends in bursts of exactly 16 orders: from an idle strategy the first wait
  sleeps, the next 15 do not, and the strategy is idle again.\<close>

lemma momentum_bursts_of_16:
  assumes "rng_source R" "strategy_ok (SMomentum s)" "\<not> inBurst s"
  shows "\<exists>ms s'. waits R 16 (SMomentum s) = Some (Some ms # replicate 15 None, SMomentum s') \<and>
     baseSleepMs s \<le> ms \<and> 5 * (ms - baseSleepMs s) \<le> baseSleepMs s \<and> \<not> inBurst s' \<and> burstFired s' = 0 \<and>
     baseSleepMs s' = baseSleepMs s"
proof -
  have s: "burstSize s = 16" "0 \<le> baseSleepMs s" "baseSleepMs s < 2 ^ 60" using assms(2) by (simp_all add: strategy_ok_def)
  have d: "0 \<le> baseSleepMs s sdiv 5" "5 * (baseSleepMs s sdiv 5) \<le> baseSleepMs s" "baseSleepMs s sdiv 5 < 2 ^ 60"
    using s by (auto simp: signed_divide_int_def sgn_if)
  obtain v r where v: "rngInt63n R (baseSleepMs s sdiv 5 + 1) (mo_rng s) = (v, r)" by fastforce
  have vb: "0 \<le> v" "v < baseSleepMs s sdiv 5 + 1"
    using rng_source.int63n_range [OF assms(1), of "baseSleepMs s sdiv 5 + 1" "mo_rng s"] d v by auto
  let ?s1 = "s\<lparr>mo_rng := r, inBurst := True, burstFired := 1\<rparr>"
  have "waits R 15 (SMomentum ?s1) = Some (replicate 15 None, SMomentum (?s1\<lparr>inBurst := False, burstFired := 0\<rparr>))"
    by (rule waits_burst) (use s in simp_all)
  moreover have "waits R 16 (SMomentum s) = (case Wait R False True (SMomentum s) of None \<Rightarrow> None
     | Some (d, e, st') \<Rightarrow> case waits R 15 st' of None \<Rightarrow> None | Some (ds, st'') \<Rightarrow> Some (d # ds, st''))"
    using waits.simps(2) [of R 15 "SMomentum s"] by simp
  moreover have "Wait R False True (SMomentum s) = Some (Some (baseSleepMs s + v), True, SMomentum ?s1)"
    using assms(3) s d v vb by (simp add: Wait_def momentumWait_def Int63n_def Let_def wrap64_id')
  ultimately have "waits R 16 (SMomentum s) = Some (Some (baseSleepMs s + v) # replicate 15 None,
      SMomentum (?s1\<lparr>inBurst := False, burstFired := 0\<rparr>))" by simp
  then show ?thesis using d vb
    by (intro exI [of _ "baseSleepMs s + v"] exI [of _ "?s1\<lparr>inBurst := False, burstFired := 0\<rparr>"]) auto
qed

lemma momentum_bursts_of_16_witness:
  "\<exists>ms s'. waits lcg_ops 16 (newStrategy lcg_ops (the (NewBot lcg_ops (cfg7\<lparr>StrategyOf := MomentumTrader\<rparr>)))) =
     Some (Some ms # replicate 15 None, SMomentum s')"
proof -
  let ?b = "the (NewBot lcg_ops (cfg7\<lparr>StrategyOf := MomentumTrader\<rparr>))"
  have b: "config ?b = cfg7\<lparr>StrategyOf := MomentumTrader\<rparr>" by (simp add: NewBot_def cfg7_def NewBotConfig_def)
  then obtain s where s: "newStrategy lcg_ops ?b = SMomentum s" "\<not> inBurst s"
    by (simp add: newStrategy_def NewMomentumStrategy_def message_consts Let_def)
  have "rate_ok (RatePerSec (config ?b))" unfolding rate_ok_def by code_simp
  then have "strategy_ok (SMomentum s)" using newStrategy_ok [of ?b lcg_ops] s(1) by simp
  from momentum_bursts_of_16 [OF lcg.rng_source_axioms this s(2)] show ?thesis using s(1) by auto
qed

end
