(* ===== verification/Fleet_Shards.thy ===== *)
theory Fleet_Shards
  imports Bot_Strategy
begin

text \<open>
  How a fleet is built and split over workers: \<^verbatim>\<open>buildBots\<close> and \<^verbatim>\<open>countStrategy\<close> of
  \<^verbatim>\<open>bot-fleet/main.go\<close>, \<^verbatim>\<open>buildShardBots\<close> and the aggregation of \<^verbatim>\<open>RunShard\<close> in
  \<^verbatim>\<open>bot-fleet/worker_node.go\<close>, the sharding and the collection of results in \<^verbatim>\<open>runDistributed\<close> of
  \<^verbatim>\<open>bot-fleet/runner.go\<close>. The gRPC transport is left out: what a worker answers is an argument.
  The histogram package is the parameter \<open>H :: 'h hist_ops\<close>.
\<close>

section \<open>Configuration\<close>

record StrategyMix =
  mixMarketMaker :: rat
  mixMomentumTrader :: rat
  mixNoiseTrader :: rat

record FleetConfig =
  fcJobID :: string
  fcContestantID :: string
  fcEndpoint :: string
  fcNumBots :: int
  fcOrdersPerBot :: int
  fcMidPrice :: rat
  fcSpread :: rat
  fcRatePerSec :: rat
  fcStrategyMix :: StrategyMix
  fcSeed :: int

record ShardRequest =
  rqJobId :: string
  rqEndpoint :: string
  rqNumBots :: int
  rqOrdersPerBot :: int
  rqMidPrice :: rat
  rqSpread :: rat
  rqRatePerSec :: rat
  rqMarketMakerPct :: rat
  rqMomentumPct :: rat
  rqNoisePct :: rat
  rqBotIdOffset :: int
  rqSeed :: int

definition wrap32 :: "int \<Rightarrow> int" where
  \<comment> \<open>the conversion \<^verbatim>\<open>int32(x)\<close>\<close>
  "wrap32 x = (x + 2 ^ 31) mod 2 ^ 32 - 2 ^ 31"

lemma wrap32_id: "- (2 ^ 31) \<le> x \<Longrightarrow> x < 2 ^ 31 \<Longrightarrow> wrap32 x = x"
  by (simp add: wrap32_def)

lemma wrap64_small: "0 \<le> x \<Longrightarrow> x < 2 ^ 31 \<Longrightarrow> wrap64 x = x"
  by (rule wrap64_id') simp_all

section \<open>Building bots\<close>

definition pickStrategy :: "int \<Rightarrow> int \<Rightarrow> int \<Rightarrow> StrategyType" where
  "pickStrategy numMakers numMomentum i =
     (if i < numMakers then MarketMaker else if i < wrap64 (numMakers + numMomentum) then MomentumTrader else NoiseTrader)"

definition countOf :: "int \<Rightarrow> rat \<Rightarrow> int" where
  \<comment> \<open>\<^verbatim>\<open>int(float64(n) * pct)\<close>\<close>
  "countOf n pct = trunc64 (fmul (float64 n) pct)"

definition fleetBotConfig :: "int \<Rightarrow> FleetConfig \<Rightarrow> int \<Rightarrow> BotConfig" where
  "fleetBotConfig baseSeed cfg i =
     NewBotConfig (wrap64 (i + 1)) (''bot-'' @ Itoa (wrap64 (i + 1)))
       (pickStrategy (countOf (fcNumBots cfg) (mixMarketMaker (fcStrategyMix cfg)))
          (countOf (fcNumBots cfg) (mixMomentumTrader (fcStrategyMix cfg))) i)
       (fcMidPrice cfg) (fcSpread cfg) (fcOrdersPerBot cfg) (fcRatePerSec cfg) (wrap64 (baseSeed + i))"

definition buildBots :: "'r rng_ops \<Rightarrow> int \<Rightarrow> FleetConfig \<Rightarrow> 'r Bot list option" where
  \<comment> \<open>\<open>now\<close> is the clock in nanoseconds\<close>
  "buildBots R now cfg =
     (let baseSeed = (if fcSeed cfg = 0 then now else fcSeed cfg) in
      if fcNumBots cfg < 0 then None
      else those (map (\<lambda>i. NewBot R (fleetBotConfig baseSeed cfg (int i))) [0..<nat (fcNumBots cfg)]))"

definition countStrategy :: "'r Bot list \<Rightarrow> StrategyType \<Rightarrow> nat" where
  "countStrategy bots s = foldl (\<lambda>count b. if StrategyOf (config b) = s then count + 1 else count) 0 bots"

definition shardBotConfig :: "int \<Rightarrow> ShardRequest \<Rightarrow> int \<Rightarrow> BotConfig" where
  "shardBotConfig baseSeed req i =
     NewBotConfig (wrap64 (rqBotIdOffset req + wrap64 (i + 1)))
       (''worker'' @ Itoa (wrap64 (rqBotIdOffset req sdiv rqNumBots req + 1)) @ ''-bot-'' @ Itoa (wrap64 (i + 1)))
       (pickStrategy (countOf (rqNumBots req) (rqMarketMakerPct req)) (countOf (rqNumBots req) (rqMomentumPct req)) i)
       (rqMidPrice req) (rqSpread req) (rqOrdersPerBot req) (rqRatePerSec req)
       (wrap64 (wrap64 (baseSeed + rqBotIdOffset req) + i))"

definition buildShardBots :: "'r rng_ops \<Rightarrow> int \<Rightarrow> ShardRequest \<Rightarrow> 'r Bot list option" where
  "buildShardBots R now req =
     (let baseSeed = (if rqSeed req = 0 then now else rqSeed req) in
      if rqNumBots req < 0 then None
      else those (map (\<lambda>i. NewBot R (shardBotConfig baseSeed req (int i))) [0..<nat (rqNumBots req)]))"

section \<open>Sharding\<close>

definition shardRequest :: "FleetConfig \<Rightarrow> string \<Rightarrow> nat \<Rightarrow> nat \<Rightarrow> ShardRequest" where
  "shardRequest cfg jobID numWorkers workerIdx =
     (let botsPerWorker = fcNumBots cfg sdiv int numWorkers;
          remainder = fcNumBots cfg smod int numWorkers;
          shardSize = (if workerIdx = numWorkers - 1 then wrap64 (botsPerWorker + remainder) else botsPerWorker);
          botIDOffset = wrap64 (int workerIdx * botsPerWorker) in
      \<lparr>rqJobId = jobID, rqEndpoint = fcEndpoint cfg, rqNumBots = wrap32 shardSize,
       rqOrdersPerBot = wrap32 (fcOrdersPerBot cfg), rqMidPrice = fcMidPrice cfg, rqSpread = fcSpread cfg,
       rqRatePerSec = fcRatePerSec cfg, rqMarketMakerPct = mixMarketMaker (fcStrategyMix cfg),
       rqMomentumPct = mixMomentumTrader (fcStrategyMix cfg), rqNoisePct = mixNoiseTrader (fcStrategyMix cfg),
       rqBotIdOffset = botIDOffset, rqSeed = fcSeed cfg\<rparr>)"

definition shardRequests :: "FleetConfig \<Rightarrow> string \<Rightarrow> nat \<Rightarrow> ShardRequest list" where
  "shardRequests cfg jobID numWorkers = map (shardRequest cfg jobID numWorkers) [0..<numWorkers]"

section \<open>Results\<close>

record 'h hist_ops =
  h_new :: 'h
  h_merge :: "'h \<Rightarrow> 'h \<Rightarrow> 'h"
  h_quantile :: "'h \<Rightarrow> int \<Rightarrow> int"
  h_max :: "'h \<Rightarrow> int"
  h_encode :: "'h \<Rightarrow> string option"
  h_decode :: "string \<Rightarrow> 'h option"

record 'h BotResult =
  brOrdersSent :: int
  brOrdersFailed :: int
  brHistogram :: 'h

record ShardResult =
  srJobId :: string
  srOrdersSent :: int
  srOrdersFailed :: int
  srHistogram :: string
  srIsFinal :: bool

record FleetReport =
  rpStatus :: string
  rpNumBots :: int
  rpTotalOrders :: int
  rpOrdersSent :: int
  rpOrdersFailed :: int
  rpDurationMs :: int
  rpTPS :: "rat option" \<comment> \<open>\<open>None\<close> is not a finite number\<close>
  rpStrategyBreakdown :: "(string \<times> nat) list"
  rpP50Us :: rat
  rpP90Us :: rat
  rpP99Us :: rat
  rpMaxUs :: rat
  rpCorrectnessScore :: rat
  rpKafkaUnavailable :: bool

definition shardAggregate :: "'h hist_ops \<Rightarrow> string \<Rightarrow> 'h BotResult list \<Rightarrow> ShardResult option" where
  \<comment> \<open>the end of \<^verbatim>\<open>RunShard\<close>; \<open>None\<close> when the histogram cannot be serialised\<close>
  "shardAggregate H jobID results =
     (let (sent, failed, hist) = foldl (\<lambda>(s, f, h) r. (wrap64 (s + brOrdersSent r), wrap64 (f + brOrdersFailed r), h_merge H h (brHistogram r)))
            (0, 0, h_new H) results in
      case h_encode H hist of None \<Rightarrow> None
      | Some bytes \<Rightarrow> Some \<lparr>srJobId = jobID, srOrdersSent = sent, srOrdersFailed = failed, srHistogram = bytes, srIsFinal = True\<rparr>)"

definition lastFinal :: "ShardResult list \<Rightarrow> ShardResult option" where
  \<comment> \<open>the receive loop of \<^verbatim>\<open>runDistributed\<close>: the last message of the stream that is marked final\<close>
  "lastFinal msgs = foldl (\<lambda>fin res. if srIsFinal res then Some res else fin) None msgs"

fun collectShards :: "'h hist_ops \<Rightarrow> (string + ShardResult) list \<Rightarrow> int \<Rightarrow> int \<Rightarrow> 'h \<Rightarrow> string list \<Rightarrow>
    int \<times> int \<times> 'h \<times> string list" where
  "collectShards H [] sent failed hist errs = (sent, failed, hist, errs)"
| "collectShards H (Inl e # rs) sent failed hist errs = collectShards H rs sent failed hist (errs @ [e])"
| "collectShards H (Inr r # rs) sent failed hist errs =
     collectShards H rs (wrap64 (sent + srOrdersSent r)) (wrap64 (failed + srOrdersFailed r))
       (if srHistogram r = [] then hist
        else case h_decode H (srHistogram r) of None \<Rightarrow> hist | Some h \<Rightarrow> h_merge H hist h) errs"

definition usOf :: "int \<Rightarrow> rat" where
  "usOf ns = fdiv (float64 ns) 1000"

definition distributedReport :: "'h hist_ops \<Rightarrow> FleetConfig \<Rightarrow> nat \<Rightarrow> (string + ShardResult) list \<Rightarrow> string list + FleetReport" where
  \<comment> \<open>\<^verbatim>\<open>runDistributed\<close> on the answers of the workers in the order of their arrival\<close>
  "distributedReport H cfg numWorkers responses =
     (if numWorkers = 0 then Inl [''no workers configured'']
      else case collectShards H responses 0 0 (h_new H) [] of (sent, failed, hist, errs) \<Rightarrow>
        if errs \<noteq> [] then Inl errs
        else Inr \<lparr>rpStatus = ''completed'', rpNumBots = fcNumBots cfg,
                  rpTotalOrders = wrap64 (fcNumBots cfg * fcOrdersPerBot cfg),
                  rpOrdersSent = sent, rpOrdersFailed = failed, rpDurationMs = 0, rpTPS = Some 0, rpStrategyBreakdown = [],
                  rpP50Us = usOf (h_quantile H hist 50), rpP90Us = usOf (h_quantile H hist 90),
                  rpP99Us = usOf (h_quantile H hist 99), rpMaxUs = usOf (h_max H hist),
                  rpCorrectnessScore = 0, rpKafkaUnavailable = False\<rparr>)"

section \<open>Lemmas\<close>

definition shardConfigs :: "int \<Rightarrow> ShardRequest \<Rightarrow> BotConfig list" where
  "shardConfigs baseSeed req = map (\<lambda>i. shardBotConfig baseSeed req (int i)) [0..<nat (rqNumBots req)]"

lemma shardBotConfig_NumericID [simp]:
  "NumericID (shardBotConfig s req i) = wrap64 (rqBotIdOffset req + wrap64 (i + 1))"
  by (simp add: shardBotConfig_def NewBotConfig_def)

lemma those_config:
  assumes "those (map (\<lambda>i. NewBot R (c i)) is) = Some bots"
  shows "map config bots = map c is"
  using assms by (induction "is" arbitrary: bots) (auto split: option.splits dest: NewBot_config)

lemma sdiv_smod_nonneg: "0 \<le> n \<Longrightarrow> 0 < w \<Longrightarrow> n sdiv w = n div w \<and> n smod w = n mod (w::int)"
  by (simp add: signed_divide_int_def signed_modulo_int_def sgn_if minus_mult_div_eq_mod [symmetric])

lemma map_int_shift:
  assumes "0 \<le> a"
  shows "map (\<lambda>i. a + (int i + 1)) [0..<n] = map int [Suc (nat a)..<Suc (nat a + n)]"
  using assms by (induction n) (simp_all add: add.commute)

lemma shard_ids:
  assumes n: "0 \<le> fcNumBots cfg" "fcNumBots cfg < 2 ^ 31" and k: "k < w"
  defines "q \<equiv> nat (fcNumBots cfg) div w"
  shows "map NumericID (shardConfigs s (shardRequest cfg job w k)) =
     map int [Suc (k * q)..<Suc (if k = w - 1 then nat (fcNumBots cfg) else Suc k * q)]"
proof -
  let ?n = "nat (fcNumBots cfg)"
  have w: "0 < w" using k by simp
  have dm: "fcNumBots cfg sdiv int w = int q" "fcNumBots cfg smod int w = int (?n mod w)"
    using sdiv_smod_nonneg [OF n(1), of "int w"] w n(1) by (simp_all add: q_def zdiv_int zmod_int)
  have qw: "w * q + ?n mod w = ?n" by (simp add: q_def)
  define sz where "sz = (if k = w - 1 then q + ?n mod w else q)"
  have "w = Suc (w - 1)" using w by simp
  then have "(w - 1) * q + (q + ?n mod w) = ?n" using qw by (metis add.assoc add.commute mult_Suc)
  then have kq: "k * q + sz = (if k = w - 1 then ?n else Suc k * q)" by (simp add: sz_def)
  have "Suc k * q \<le> w * q" using k by (intro mult_le_mono1) simp
  then have le: "k * q + sz \<le> ?n" using kq qw by (auto split: if_splits)
  then have b: "int (k * q) + int sz < 2 ^ 31" using n by linarith
  have "rqNumBots (shardRequest cfg job w k) = int sz"
  proof -
    have "0 \<le> int sz" "int sz < 2 ^ 31" using b by linarith+
    then have "wrap64 (int sz) = int sz" "wrap32 (int sz) = int sz" by (simp_all add: wrap32_id wrap64_id')
    then show ?thesis using dm by (auto simp: shardRequest_def Let_def sz_def)
  qed
  moreover have "rqBotIdOffset (shardRequest cfg job w k) = int (k * q)"
  proof -
    have "0 \<le> int (k * q)" "int (k * q) < 2 ^ 31" using b by linarith+
    then have "wrap64 (int (k * q)) = int (k * q)" by (rule wrap64_small)
    then show ?thesis using dm by (simp add: shardRequest_def Let_def)
  qed
  moreover have "wrap64 (int (k * q) + wrap64 (int i + 1)) = int (k * q) + (int i + 1)" if "i < sz" for i
  proof -
    have "0 \<le> int (k * q) + (int i + 1)" "int (k * q) + (int i + 1) < 2 ^ 31" using b that by linarith+
    then show ?thesis unfolding wrap64_add_right by (rule wrap64_small)
  qed
  ultimately have "map NumericID (shardConfigs s (shardRequest cfg job w k)) = map (\<lambda>i. int (k * q) + (int i + 1)) [0..<sz]"
    by (auto simp: shardConfigs_def)
  also have "\<dots> = map int [Suc (nat (int (k * q)))..<Suc (nat (int (k * q)) + sz)]" by (rule map_int_shift) simp
  also have "\<dots> = map int [Suc (k * q)..<Suc (k * q + sz)]" by (simp only: nat_int)
  finally show ?thesis by (simp only: kq)
qed

lemma upt_concat: "(\<And>k. k < w \<Longrightarrow> f k \<le> f (Suc k)) \<Longrightarrow> f 0 \<le> f w \<and> concat (map (\<lambda>k. [f k..<f (Suc k)]) [0..<w]) = [f 0..<f w]"
proof (induction w)
  case (Suc w)
  then have "f 0 \<le> f w" "f w \<le> f (Suc w)" "concat (map (\<lambda>k. [f k..<f (Suc k)]) [0..<w]) = [f 0..<f w]" by auto
  then show ?case using upt_add_eq_append [of "f 0" "f w" "f (Suc w) - f w"] by simp
qed simp

lemma collectShards_ok:
  assumes "\<forall>r \<in> set rs. \<not> isl r" "in64 sent" "in64 failed"
  shows "\<exists>h. collectShards H rs sent failed hist errs =
     (wrap64 (sent + (\<Sum>r\<leftarrow>rs. srOrdersSent (projr r))), wrap64 (failed + (\<Sum>r\<leftarrow>rs. srOrdersFailed (projr r))), h, errs)"
  using assms
proof (induction rs arbitrary: sent failed hist)
  case (Cons r rs)
  then obtain x where x: "r = Inr x" by (cases r) auto
  show ?case
    using Cons.IH [of "wrap64 (sent + srOrdersSent x)" "wrap64 (failed + srOrdersFailed x)"] Cons.prems(1)
    by (simp add: x add.assoc)
qed (simp add: wrap64_id)

lemma collectShards_errs:
  "\<exists>s f h. collectShards H rs sent failed hist errs = (s, f, h, errs @ map projl (filter (\<lambda>r. isl r) rs))"
proof (induction rs arbitrary: sent failed hist errs)
  case (Cons r rs)
  show ?case using Cons.IH [of sent failed hist "errs @ [projl r]"] Cons.IH by (cases r) auto
qed simp

section \<open>Properties\<close>

text \<open>sharding gives every bot of the fleet its own number. For any number of workers and any
  fleet size below \<open>2\<^sup>31\<close> the numbers of the bots over all shards, in the order of the workers, are
  exactly 1 up to the number of bots: the last worker takes the remainder and nothing is lost or
  duplicated.\<close>

lemma shards_partition_bot_numbers:
  assumes "0 \<le> fcNumBots cfg" "fcNumBots cfg < 2 ^ 31" "0 < w"
  shows "concat (map (\<lambda>req. map NumericID (shardConfigs seed req)) (shardRequests cfg job w)) =
     map int [1..<Suc (nat (fcNumBots cfg))]"
proof -
  let ?n = "nat (fcNumBots cfg)" and ?q = "nat (fcNumBots cfg) div w"
  define f where "f = (\<lambda>k. Suc (if k = w then ?n else k * ?q))"
  have "k * ?q \<le> ?n" if "k \<le> w" for k
    using that by (metis div_times_less_eq_dividend le_trans mult.commute mult_le_mono1)
  then have "f k \<le> f (Suc k)" if "k < w" for k using that by (simp add: f_def)
  then have "concat (map (\<lambda>k. [f k..<f (Suc k)]) [0..<w]) = [1..<Suc ?n]"
    using upt_concat [of w f] assms(3) by (simp add: f_def)
  moreover have "map NumericID (shardConfigs seed (shardRequest cfg job w k)) = map int [f k..<f (Suc k)]" if "k < w" for k
    using shard_ids [OF assms(1,2) that, of seed job] that by (auto simp: f_def)
  then have "concat (map (\<lambda>req. map NumericID (shardConfigs seed req)) (shardRequests cfg job w)) =
      concat (map (\<lambda>k. map int [f k..<f (Suc k)]) [0..<w])"
    unfolding shardRequests_def map_map by (intro arg_cong [where f = concat] map_cong) auto
  moreover have "concat (map (\<lambda>k. map int [f k..<f (Suc k)]) [0..<w]) = map int (concat (map (\<lambda>k. [f k..<f (Suc k)]) [0..<w]))"
    by (simp add: map_concat comp_def)
  ultimately show ?thesis by simp
qed

definition cfg5 :: FleetConfig where
  "cfg5 = \<lparr>fcJobID = [], fcContestantID = ''c'', fcEndpoint = ''e'', fcNumBots = 5, fcOrdersPerBot = 10, fcMidPrice = 100,
     fcSpread = 1, fcRatePerSec = 10, fcStrategyMix = \<lparr>mixMarketMaker = 1 / 2, mixMomentumTrader = 1 / 4, mixNoiseTrader = 1 / 4\<rparr>,
     fcSeed = 42\<rparr>"

lemma shards_partition_bot_numbers_witness:
  "concat (map (\<lambda>req. map NumericID (shardConfigs 42 req)) (shardRequests cfg5 ''j'' 3)) = [1, 2, 3, 4, 5]"
  using shards_partition_bot_numbers [of cfg5 3 42 "''j''"] by (simp add: cfg5_def upt_conv_Cons)

text \<open>The display names of bots are not unique. With 5 bots on 3 workers the last worker holds 3
  bots from number 3 on, and the quotient of its offset and its size labels it as worker 1: its first
  bot has the name of the first bot of worker 1.\<close>

lemma shard_bot_names_collide:
  "StringID (shardConfigs 42 (shardRequest cfg5 ''j'' 3 0) ! 0) = ''worker1-bot-1'' \<and>
   StringID (shardConfigs 42 (shardRequest cfg5 ''j'' 3 2) ! 0) = ''worker1-bot-1'' \<and>
   NumericID (shardConfigs 42 (shardRequest cfg5 ''j'' 3 0) ! 0) \<noteq> NumericID (shardConfigs 42 (shardRequest cfg5 ''j'' 3 2) ! 0)"
  by code_simp

text \<open>a distributed run reports all or nothing. If any worker failed, the answer is the list of
  all errors; otherwise the report counts the orders of every shard.\<close>

lemma distributed_report_complete:
  assumes "0 < w"
  shows "((\<forall>r \<in> set rs. \<not> isl r) \<longrightarrow> (\<exists>rep. distributedReport H cfg w rs = Inr rep \<and>
       rpOrdersSent rep = wrap64 (\<Sum>r\<leftarrow>rs. srOrdersSent (projr r)) \<and>
       rpOrdersFailed rep = wrap64 (\<Sum>r\<leftarrow>rs. srOrdersFailed (projr r)))) \<and>
     ((\<exists>r \<in> set rs. isl r) \<longrightarrow> distributedReport H cfg w rs = Inl (map projl (filter (\<lambda>r. isl r) rs)))"
proof (cases "\<forall>r \<in> set rs. \<not> isl r")
  case True
  then obtain h where "collectShards H rs 0 0 (h_new H) [] =
      (wrap64 (\<Sum>r\<leftarrow>rs. srOrdersSent (projr r)), wrap64 (\<Sum>r\<leftarrow>rs. srOrdersFailed (projr r)), h, [])"
    using collectShards_ok [of rs 0 0 H "h_new H" "[]"] by auto
  then show ?thesis using True assms by (auto simp: distributedReport_def)
next
  case False
  then have "filter (\<lambda>r. isl r) rs \<noteq> []" by (auto simp: filter_empty_conv)
  then show ?thesis using False assms collectShards_errs [of H rs 0 0 "h_new H" "[]"] by (auto simp: distributedReport_def)
qed

definition unit_hist :: "int hist_ops" where
  "unit_hist = \<lparr>h_new = 0, h_merge = (+), h_quantile = (\<lambda>h q. h), h_max = (\<lambda>h. h), h_encode = (\<lambda>h. Some []), h_decode = (\<lambda>s. Some (int (length s)))\<rparr>"

definition twoShards :: "(string + ShardResult) list" where
  "twoShards = [Inr \<lparr>srJobId = [], srOrdersSent = 3, srOrdersFailed = 1, srHistogram = [], srIsFinal = True\<rparr>,
     Inr \<lparr>srJobId = [], srOrdersSent = 4, srOrdersFailed = 0, srHistogram = [], srIsFinal = True\<rparr>]"

lemma distributed_report_complete_witness:
  "\<exists>rep. distributedReport unit_hist cfg5 2 twoShards = Inr rep \<and> rpOrdersSent rep = 7"
  using distributed_report_complete [of 2 twoShards unit_hist cfg5] by (auto simp: twoShards_def wrap64_id')

end
