(* ===== verification/Pending.thy ===== *)
theory Pending
  imports BG_Prelude
begin

text \<open>
  \<^verbatim>\<open>bot-fleet/pending.go\<close>: the table of orders that wait for an acknowledgement, split into 16
  maps by order identifier. \<open>ack_table\<close> is what the bot runner relies on (one map from order
  identifiers to send times); its interpretation shows that the 16 maps provide it.
\<close>

section \<open>The table\<close>

definition pendingShards :: nat where "pendingShards = 16"

type_synonym pendingShard = "(int \<times> int) list"

record pendingTable =
  pshards :: "pendingShard list"

definition shardIdx :: "int \<Rightarrow> nat" where
  "shardIdx orderID = nat (u64 orderID mod int pendingShards)"

definition newPendingTable :: pendingTable where
  "newPendingTable = \<lparr>pshards = replicate pendingShards []\<rparr>"

definition pt_set :: "int \<Rightarrow> int \<Rightarrow> pendingTable \<Rightarrow> pendingTable" where
  "pt_set orderID sendTime t =
     (let i = shardIdx orderID in
      t\<lparr>pshards := (pshards t)[i := AList.update orderID sendTime (pshards t ! i)]\<rparr>)"

definition pt_remove :: "int \<Rightarrow> pendingTable \<Rightarrow> int option \<times> pendingTable" where
  "pt_remove orderID t =
     (let i = shardIdx orderID; sendTime = map_of (pshards t ! i) orderID in
      (sendTime,
       if sendTime \<noteq> None then t\<lparr>pshards := (pshards t)[i := AList.delete orderID (pshards t ! i)]\<rparr> else t))"

definition pt_len :: "pendingTable \<Rightarrow> nat" where
  "pt_len t = foldl (\<lambda>n m. n + length m) 0 (pshards t)"

definition pt_clear :: "pendingTable \<Rightarrow> pendingTable" where
  "pt_clear t = t\<lparr>pshards := map (\<lambda>m. []) (pshards t)\<rparr>"

definition pt_getExpiredAndRemove :: "int \<Rightarrow> pendingTable \<Rightarrow> int list \<times> pendingTable" where
  "pt_getExpiredAndRemove deadlineNs t =
     (concat (map (\<lambda>m. map fst (filter (\<lambda>(orderID, sentAt). sentAt \<le> deadlineNs) m)) (pshards t)),
      t\<lparr>pshards := map (filter (\<lambda>(orderID, sentAt). \<not> sentAt \<le> deadlineNs)) (pshards t)\<rparr>)"

section \<open>Interface\<close>

locale ack_table =
  fixes inv :: "'t \<Rightarrow> bool"
    and lookup :: "'t \<Rightarrow> int \<rightharpoonup> int"
    and new :: 't
    and set_order :: "int \<Rightarrow> int \<Rightarrow> 't \<Rightarrow> 't"
    and remove_order :: "int \<Rightarrow> 't \<Rightarrow> int option \<times> 't"
    and size_of :: "'t \<Rightarrow> nat"
    and clear_all :: "'t \<Rightarrow> 't"
    and expire :: "int \<Rightarrow> 't \<Rightarrow> int list \<times> 't"
  assumes inv_new: "inv new" and lookup_new: "lookup new = Map.empty"
    and inv_set: "inv t \<Longrightarrow> inv (set_order i s t)"
    and lookup_set: "inv t \<Longrightarrow> lookup (set_order i s t) = (lookup t)(i \<mapsto> s)"
    and inv_remove: "inv t \<Longrightarrow> inv (snd (remove_order i t))"
    and remove_found: "inv t \<Longrightarrow> fst (remove_order i t) = lookup t i"
    and lookup_remove: "inv t \<Longrightarrow> lookup (snd (remove_order i t)) = (lookup t)(i := None)"
    and finite_lookup: "inv t \<Longrightarrow> finite (dom (lookup t))"
    and size_lookup: "inv t \<Longrightarrow> size_of t = card (dom (lookup t))"
    and inv_clear: "inv t \<Longrightarrow> inv (clear_all t)" and lookup_clear: "inv t \<Longrightarrow> lookup (clear_all t) = Map.empty"
    and inv_expire: "inv t \<Longrightarrow> inv (snd (expire d t))"
    and expired_distinct: "inv t \<Longrightarrow> distinct (fst (expire d t))"
    and expired_set: "inv t \<Longrightarrow> set (fst (expire d t)) = {i. \<exists>s. lookup t i = Some s \<and> s \<le> d}"
    and lookup_expire: "inv t \<Longrightarrow>
       lookup (snd (expire d t)) = (\<lambda>i. case lookup t i of None \<Rightarrow> None | Some s \<Rightarrow> if s \<le> d then None else Some s)"
begin

lemma size_new: "size_of new = 0"
  by (simp add: size_lookup inv_new lookup_new)

lemma size_set: "inv t \<Longrightarrow> size_of (set_order i s t) = (if lookup t i = None then Suc (size_of t) else size_of t)"
  by (auto simp: size_lookup inv_set lookup_set finite_lookup domIff insert_absorb)

lemma size_remove: "inv t \<Longrightarrow> size_of (snd (remove_order i t)) + (if lookup t i = None then 0 else 1) = size_of t"
proof -
  assume t: "inv t"
  have "dom (lookup (snd (remove_order i t))) = dom (lookup t) - {i}" using t by (simp add: lookup_remove)
  moreover have "Suc (card (dom (lookup t) - {i})) = card (dom (lookup t))" if "lookup t i \<noteq> None"
    using that finite_lookup [OF t] by (intro card_Suc_Diff1) (auto simp: domIff)
  moreover have "dom (lookup t) - {i} = dom (lookup t)" if "lookup t i = None" using that by auto
  ultimately show ?thesis using t by (auto simp: size_lookup inv_remove)
qed

lemma size_clear: "inv t \<Longrightarrow> size_of (clear_all t) = 0"
  by (simp add: size_lookup inv_clear lookup_clear)

lemma size_expire: "inv t \<Longrightarrow> size_of (snd (expire d t)) + length (fst (expire d t)) = size_of t"
proof -
  assume t: "inv t"
  let ?E = "{i. \<exists>s. lookup t i = Some s \<and> s \<le> d}"
  have sub: "?E \<subseteq> dom (lookup t)" by auto
  have "dom (lookup (snd (expire d t))) = dom (lookup t) - ?E"
    using t by (auto simp: lookup_expire split: option.splits if_splits)
  moreover have "length (fst (expire d t)) = card ?E"
    using expired_set [OF t, of d] expired_distinct [OF t, of d] by (metis distinct_card)
  moreover have "card ?E \<le> card (dom (lookup t))" using finite_lookup [OF t] sub by (rule card_mono)
  ultimately show ?thesis
    using t finite_lookup [OF t] sub by (simp add: size_lookup inv_expire card_Diff_subset finite_subset)
qed

end

section \<open>The 16 maps provide it\<close>

definition pt_ok :: "pendingTable \<Rightarrow> bool" where
  "pt_ok t \<longleftrightarrow> length (pshards t) = pendingShards \<and>
     (\<forall>j < pendingShards. distinct (gokeys (pshards t ! j)) \<and> (\<forall>e \<in> set (pshards t ! j). shardIdx (fst e) = j))"

definition pt_lookup :: "pendingTable \<Rightarrow> int \<rightharpoonup> int" where
  "pt_lookup t i = map_of (pshards t ! shardIdx i) i"

lemma shardIdx_bound [simp]: "shardIdx i < pendingShards"
proof -
  have "u64 i mod int pendingShards < int pendingShards" by (simp add: pendingShards_def)
  then show ?thesis by (simp add: shardIdx_def pendingShards_def)
qed

lemma pt_entry:
  assumes "pt_ok t" "j < pendingShards"
  shows "(i, s) \<in> set (pshards t ! j) \<longleftrightarrow> shardIdx i = j \<and> pt_lookup t i = Some s"
proof
  assume e: "(i, s) \<in> set (pshards t ! j)"
  then have "shardIdx i = j" using assms by (force simp: pt_ok_def)
  then show "shardIdx i = j \<and> pt_lookup t i = Some s" using e assms by (simp add: pt_lookup_def pt_ok_def)
next
  assume "shardIdx i = j \<and> pt_lookup t i = Some s"
  then show "(i, s) \<in> set (pshards t ! j)" by (auto simp: pt_lookup_def dest: map_of_SomeD)
qed

lemma pt_keys:
  assumes "pt_ok t"
  shows "dom (pt_lookup t) = set (map fst (concat (pshards t)))" "distinct (map fst (concat (pshards t)))"
proof -
  have len: "length (pshards t) = pendingShards" using assms by (simp add: pt_ok_def)
  show "dom (pt_lookup t) = set (map fst (concat (pshards t)))"
  proof (intro subset_antisym subsetI)
    fix i assume "i \<in> dom (pt_lookup t)"
    then obtain s where "pt_lookup t i = Some s" by blast
    then have "(i, s) \<in> set (pshards t ! shardIdx i)" using pt_entry [OF assms, of "shardIdx i"] by simp
    then show "i \<in> set (map fst (concat (pshards t)))" using len shardIdx_bound by (force simp: in_set_conv_nth)
  next
    fix i assume "i \<in> set (map fst (concat (pshards t)))"
    then obtain j s where "j < pendingShards" "(i, s) \<in> set (pshards t ! j)" using len by (auto simp: in_set_conv_nth [of _ "pshards t"])
    then show "i \<in> dom (pt_lookup t)" using pt_entry [OF assms] by auto
  qed
  have "distinct (map fst (concat (take n (pshards t))))" if "n \<le> pendingShards" for n
    using that
  proof (induction n)
    case (Suc n)
    have n: "n < length (pshards t)" using Suc.prems len by simp
    have "shardIdx i < n" if "i \<in> fst ` set (concat (take n (pshards t)))" for i
    proof -
      from that obtain m e where m: "m \<in> set (take n (pshards t))" "e \<in> set m" "i = fst e" by auto
      then obtain j where "j < n" "j < pendingShards" "m = pshards t ! j" using len by (auto simp: in_set_conv_nth)
      then show ?thesis using assms m(2,3) by (auto simp: pt_ok_def)
    qed
    moreover have "shardIdx i = n" if "i \<in> fst ` set (pshards t ! n)" for i using that assms n len by (auto simp: pt_ok_def)
    ultimately have "fst ` set (concat (take n (pshards t))) \<inter> fst ` set (pshards t ! n) = {}" by fastforce
    then show ?case using Suc n len assms by (simp add: take_Suc_conv_app_nth image_Un pt_ok_def)
  qed simp
  from this [of pendingShards] show "distinct (map fst (concat (pshards t)))" using len by simp
qed

lemma pt_len_eq: "pt_len t = length (concat (pshards t))"
proof -
  have "foldl (\<lambda>n m. n + length m) k ms = k + length (concat ms)" for k and ms :: "pendingShard list"
    by (induction ms arbitrary: k) simp_all
  then show ?thesis by (simp add: pt_len_def)
qed

lemma pt_ok_set: "pt_ok t \<Longrightarrow> pt_ok (pt_set i s t)"
  using ball_keys_update [of i s "pshards t ! shardIdx i" "\<lambda>k. shardIdx k = shardIdx i"]
  by (simp add: pt_ok_def pt_set_def Let_def nth_list_update distinct_update)

lemma pt_ok_delete: "pt_ok t \<Longrightarrow> pt_ok (t\<lparr>pshards := (pshards t)[shardIdx i := AList.delete i (pshards t ! shardIdx i)]\<rparr>)"
  by (auto simp: pt_ok_def nth_list_update AList.delete_eq distinct_map_filter)

lemma map_of_filter_val:
  "distinct (gokeys m) \<Longrightarrow>
     map_of (filter (\<lambda>(k, v). \<not> v \<le> d) m) k = (case map_of m k of None \<Rightarrow> None | Some v \<Rightarrow> if v \<le> (d::int) then None else Some v)"
  by (induction m) (auto simp: map_of_eq_None_iff split: option.splits)

interpretation pt: ack_table pt_ok pt_lookup newPendingTable pt_set pt_remove pt_len pt_clear pt_getExpiredAndRemove
proof unfold_locales
  show "pt_ok newPendingTable" "pt_lookup newPendingTable = Map.empty"
    by (auto simp: pt_ok_def newPendingTable_def pt_lookup_def)
  fix t i s d assume t: "pt_ok t"
  have len: "length (pshards t) = pendingShards" using t by (simp add: pt_ok_def)
  show "pt_ok (pt_set i s t)" by (rule pt_ok_set [OF t])
  show "pt_lookup (pt_set i s t) = (pt_lookup t)(i \<mapsto> s)"
    using len by (auto simp: pt_lookup_def pt_set_def Let_def nth_list_update fun_eq_iff gomap_simps)
  show "pt_ok (snd (pt_remove i t))" using t pt_ok_delete by (simp add: pt_remove_def Let_def)
  show "fst (pt_remove i t) = pt_lookup t i" by (simp add: pt_remove_def pt_lookup_def Let_def)
  show "pt_lookup (snd (pt_remove i t)) = (pt_lookup t)(i := None)"
    using len by (auto simp: pt_lookup_def pt_remove_def Let_def nth_list_update fun_eq_iff gomap_simps)
  show "finite (dom (pt_lookup t))" using pt_keys [OF t] by simp
  show "pt_len t = card (dom (pt_lookup t))" using pt_keys [OF t] by (metis distinct_card length_map pt_len_eq)
  show "pt_ok (pt_clear t)" "pt_lookup (pt_clear t) = Map.empty"
    using t by (auto simp: pt_ok_def pt_clear_def pt_lookup_def)
  show "pt_ok (snd (pt_getExpiredAndRemove d t))"
    using t by (auto simp: pt_ok_def pt_getExpiredAndRemove_def distinct_map_filter)
  show "pt_lookup (snd (pt_getExpiredAndRemove d t)) =
      (\<lambda>i. case pt_lookup t i of None \<Rightarrow> None | Some s \<Rightarrow> if s \<le> d then None else Some s)"
    using t by (auto simp: pt_lookup_def pt_getExpiredAndRemove_def fun_eq_iff pt_ok_def map_of_filter_val)
  have e: "fst (pt_getExpiredAndRemove d t) = map fst (filter (\<lambda>(i, s). s \<le> d) (concat (pshards t)))"
    by (simp add: pt_getExpiredAndRemove_def filter_concat map_concat comp_def)
  show "distinct (fst (pt_getExpiredAndRemove d t))" using pt_keys(2) [OF t] by (simp add: e distinct_map_filter)
  show "set (fst (pt_getExpiredAndRemove d t)) = {i. \<exists>s. pt_lookup t i = Some s \<and> s \<le> d}"
  proof -
    have "(i, s) \<in> set (concat (pshards t)) \<longleftrightarrow> (\<exists>j < pendingShards. (i, s) \<in> set (pshards t ! j))" for i s
      using len by (auto simp: in_set_conv_nth [of _ "pshards t"]) (metis nth_mem)
    then have "(i, s) \<in> set (concat (pshards t)) \<longleftrightarrow> pt_lookup t i = Some s" for i s
      using pt_entry [OF t] shardIdx_bound by metis
    then show ?thesis unfolding e by force
  qed
qed

end
