(* ===== verification/Bot_Runner.thy ===== *)
theory Bot_Runner
  imports Fleet_Shards Pending
begin

text \<open>
  \<^verbatim>\<open>runBot\<close> of \<^verbatim>\<open>bot-fleet/runner.go\<close>: the sender, receiver and control goroutines of one bot share
  the table of pending acknowledgements and report every outcome on a channel that a fourth loop
  counts. A step of the relation is what one goroutine does between two points where another one
  can run: network input and output, clock readings and the end of the context are free choices.
  \<open>normal_step\<close> holds the steps of a run in which the connection and the context stay alive,
  \<open>fault_step\<close> the others; \<^verbatim>\<open>failAllPending\<close> takes the length of the table and clears it in two steps.
\<close>

section \<open>Statuses and enumerations\<close>

definition isAckStatus :: "string \<Rightarrow> bool" where
  "isAckStatus status \<longleftrightarrow> status \<in> {''accepted'', ''rejected'', ''cancelled''}"

definition isFillStatus :: "string \<Rightarrow> bool" where
  "isFillStatus status \<longleftrightarrow> status \<in> {''filled'', ''partial''}"

datatype PbOrderType = OrderType_LIMIT | OrderType_MARKET | OrderType_CANCEL
datatype PbSide = Side_BUY | Side_SELL

definition mapOrderType :: "OrderType \<Rightarrow> PbOrderType" where
  "mapOrderType t = (if t = Limit then OrderType_LIMIT else if t = Market then OrderType_MARKET
     else if t = Cancel then OrderType_CANCEL else OrderType_LIMIT)"

definition mapSide :: "string \<Rightarrow> PbSide" where
  "mapSide s = (if s = Buy then Side_BUY else if s = Sell then Side_SELL else Side_BUY)"

section \<open>State\<close>

datatype tevent =
    TOrder OrderMessage
  | TAck int string int
  | TFill int int int int

datatype sender_pc = SLoop nat | SWrite nat OrderMessage | SDone
datatype fail_pc = Alive | Clearing nat | Ended

record 'r run =
  rbot :: "'r Bot"
  pend :: pendingTable
  okc :: nat \<comment> \<open>results counted in \<^verbatim>\<open>OrdersSent\<close>\<close>
  failc :: nat \<comment> \<open>results counted in \<^verbatim>\<open>OrdersFailed\<close>\<close>
  sender :: sender_pc
  receiver :: fail_pc
  control :: fail_pc
  cancels :: nat \<comment> \<open>cancellations sent, which no goroutine counts\<close>
  published :: "tevent list"

definition start :: "'r Bot \<Rightarrow> 'r run" where
  "start b = \<lparr>rbot = b, pend = newPendingTable, okc = 0, failc = 0, sender = SLoop 0,
     receiver = Alive, control = Alive, cancels = 0, published = []\<rparr>"

definition toSend :: "'r run \<Rightarrow> nat" where
  "toSend s = nat (OrdersToSend (config (rbot s)))"

section \<open>Goroutines\<close>

definition sendOrder :: "'r rng_ops \<Rightarrow> int \<Rightarrow> nat \<Rightarrow> 'r run \<Rightarrow> 'r run option" where
  \<comment> \<open>one iteration of the sender up to the write, with \<open>now\<close> read by \<^verbatim>\<open>RecordSendTime\<close>; \<open>None\<close> is a panic\<close>
  "sendOrder R now i s =
     (case NextOrder R (rbot s) of None \<Rightarrow> None
      | Some (msg, b1) \<Rightarrow>
          case RecordSendTime now (low32 (MsgOrderID msg)) b1 of None \<Rightarrow> None
          | Some b2 \<Rightarrow>
              let s1 = s\<lparr>rbot := b2, sender := SWrite i msg\<rparr> in
              Some (if MsgType msg \<noteq> Cancel then s1\<lparr>pend := pt_set (MsgOrderID msg) now (pend s)\<rparr> else s1))"

definition marshalFailed :: "'r rng_ops \<Rightarrow> nat \<Rightarrow> 'r run \<Rightarrow> 'r run option" where
  "marshalFailed R i s =
     (case NextOrder R (rbot s) of None \<Rightarrow> None
      | Some (msg, b1) \<Rightarrow> Some (s\<lparr>rbot := b1, sender := SLoop (i + 1), failc := failc s + 1\<rparr>))"

definition written :: "nat \<Rightarrow> OrderMessage \<Rightarrow> 'r run \<Rightarrow> 'r run" where
  "written i msg s = s\<lparr>sender := SLoop (i + 1), published := published s @ [TOrder msg],
     cancels := (if MsgType msg = Cancel then cancels s + 1 else cancels s)\<rparr>"

definition writeFailed :: "nat \<Rightarrow> OrderMessage \<Rightarrow> 'r run \<Rightarrow> 'r run" where
  "writeFailed i msg s = s\<lparr>sender := SDone, pend := snd (pt_remove (MsgOrderID msg) (pend s)),
     failc := failc s + (toSend s - i)\<rparr>"

definition receive :: "int \<Rightarrow> int \<Rightarrow> string \<Rightarrow> int \<Rightarrow> int \<Rightarrow> int \<Rightarrow> 'r run \<Rightarrow> 'r run" where
  \<comment> \<open>the receiver on one report with a lower-cased status\<close>
  "receive receivedAt orderID status qty price matchedWith s =
     (if isFillStatus status then
        case pt_remove orderID (pend s) of (sendTime, p) \<Rightarrow>
          let s1 = (case sendTime of
                      Some st \<Rightarrow> s\<lparr>pend := p, okc := okc s + 1,
                        published := published s @ [TAck orderID ''accepted_and_filled'' (wrap64 (receivedAt - st))]\<rparr>
                    | None \<Rightarrow> s\<lparr>pend := p\<rparr>) in
          s1\<lparr>published := published s1 @ [TFill orderID qty price matchedWith]\<rparr>
      else if \<not> isAckStatus status then s
      else
        case pt_remove orderID (pend s) of (sendTime, p) \<Rightarrow>
          (case sendTime of
             Some st \<Rightarrow> s\<lparr>pend := p, okc := okc s + 1,
               published := published s @ [TAck orderID status (wrap64 (receivedAt - st))]\<rparr>
           | None \<Rightarrow> s\<lparr>pend := p\<rparr>))"

definition failExpired :: "int \<Rightarrow> 'r run \<Rightarrow> 'r run" where
  "failExpired deadlineNs s =
     (case pt_getExpiredAndRemove deadlineNs (pend s) of (expired, p) \<Rightarrow>
        s\<lparr>pend := p, failc := failc s + length expired\<rparr>)"

inductive normal_step :: "'r rng_ops \<Rightarrow> 'r run \<Rightarrow> 'r run \<Rightarrow> bool" for R where
  wait_failed: "sender s = SLoop i \<Longrightarrow> i < toSend s \<Longrightarrow>
     normal_step R s (s\<lparr>sender := SDone, failc := failc s + (toSend s - i)\<rparr>)"
| send: "sender s = SLoop i \<Longrightarrow> i < toSend s \<Longrightarrow> sendOrder R now i s = Some s' \<Longrightarrow> normal_step R s s'"
| marshal: "sender s = SLoop i \<Longrightarrow> i < toSend s \<Longrightarrow> marshalFailed R i s = Some s' \<Longrightarrow> normal_step R s s'"
| wrote: "sender s = SWrite i msg \<Longrightarrow> normal_step R s (written i msg s)"
| finish: "sender s = SLoop i \<Longrightarrow> \<not> i < toSend s \<Longrightarrow> normal_step R s (s\<lparr>sender := SDone\<rparr>)"
| report: "receiver s = Alive \<Longrightarrow> normal_step R s (receive tm orderID status qty price mw s)"
| expire: "control s = Alive \<Longrightarrow> normal_step R s (failExpired deadline s)"
| close: "control s = Alive \<Longrightarrow> sender s = SDone \<Longrightarrow> pt_len (pend s) = 0 \<Longrightarrow> normal_step R s (s\<lparr>control := Ended\<rparr>)"

inductive fault_step :: "'r run \<Rightarrow> 'r run \<Rightarrow> bool" where
  write_err: "sender s = SWrite i msg \<Longrightarrow> fault_step s (writeFailed i msg s)"
| read_err: "receiver s = Alive \<Longrightarrow> fault_step s (s\<lparr>receiver := Clearing (pt_len (pend s))\<rparr>)"
| read_clear: "receiver s = Clearing n \<Longrightarrow>
     fault_step s (s\<lparr>receiver := Ended, pend := pt_clear (pend s), failc := failc s + n\<rparr>)"
| ctx_done: "control s = Alive \<Longrightarrow> fault_step s (s\<lparr>control := Clearing (pt_len (pend s))\<rparr>)"
| ctx_clear: "control s = Clearing n \<Longrightarrow>
     fault_step s (s\<lparr>control := Ended, pend := pt_clear (pend s), failc := failc s + n\<rparr>)"

definition bot_step :: "'r rng_ops \<Rightarrow> 'r run \<Rightarrow> 'r run \<Rightarrow> bool" where
  "bot_step R s s' \<longleftrightarrow> normal_step R s s' \<or> fault_step s s'"

inductive_cases normal_stepE: "normal_step R s s'"

section \<open>Accounting of normal runs\<close>

fun attempted :: "nat \<Rightarrow> sender_pc \<Rightarrow> nat" where
  "attempted n (SLoop i) = i"
| "attempted n (SWrite i msg) = (if MsgType msg = Cancel then i else i + 1)"
| "attempted n SDone = n"

definition bot_cfg_ok :: "BotConfig \<Rightarrow> bool" where
  "bot_cfg_ok c \<longleftrightarrow> cfg_ok c \<and> 0 \<le> NumericID c \<and> NumericID c < 2 ^ 31 \<and> 0 \<le> OrdersToSend c \<and> OrdersToSend c < 2 ^ 31 \<and>
     StrategyOf c \<in> {MarketMaker, MomentumTrader, NoiseTrader}"

fun pc_ok :: "nat \<Rightarrow> int \<Rightarrow> sender_pc \<Rightarrow> bool" where
  "pc_ok n q (SLoop i) \<longleftrightarrow> i \<le> n \<and> q = int i"
| "pc_ok n q (SWrite i msg) \<longleftrightarrow> i < n \<and> q = int i + 1"
| "pc_ok n q SDone \<longleftrightarrow> q \<le> int n"

definition keys_le :: "pendingTable \<Rightarrow> int \<Rightarrow> bool" where
  "keys_le p q \<longleftrightarrow> (\<forall>k v. pt_lookup p k = Some v \<longrightarrow> low32 k \<le> q)"

definition run_ok :: "'r run \<Rightarrow> bool" where
  "run_ok s \<longleftrightarrow> bot_cfg_ok (config (rbot s)) \<and> pt_ok (pend s) \<and>
     length (SendTimes (rbot s)) = Suc (toSend s) \<and> 0 \<le> seqNum (rbot s) \<and>
     pc_ok (toSend s) (seqNum (rbot s)) (sender s) \<and> keys_le (pend s) (seqNum (rbot s)) \<and>
     okc s + failc s + pt_len (pend s) + cancels s = attempted (toSend s) (sender s)"

lemma NextOrder_three:
  assumes "rng_source R" "bot_cfg_ok (config b)" "0 \<le> seqNum b" "seqNum b < OrdersToSend (config b)"
  obtains m b' where "NextOrder R b = Some (m, b')" "MsgOrderID m = mkOrderID (NumericID (config b)) (seqNum b + 1)"
    "config b' = config b" "seqNum b' = seqNum b + 1" "SendTimes b' = SendTimes b"
proof -
  have w: "wrap64 (seqNum b + 1) = seqNum b + 1" using assms(2-4) by (simp add: bot_cfg_ok_def wrap64_id')
  obtain m b' where n: "NextOrder R b = Some (m, b')" "config b' = config b" "seqNum b' = seqNum b + 1" "SendTimes b' = SendTimes b"
    using rng_source.NextOrder_ok [OF assms(1), of b] assms(2) w by (auto simp: bot_cfg_ok_def)
  moreover have "MsgOrderID m = mkOrderID (NumericID (config b)) (seqNum b + 1)"
    using n(1) assms(2) w
    by (auto simp: NextOrder_def Let_def bot_cfg_ok_def marketMakerOrder_def momentumOrder_def noiseOrder_def message_consts
        split: if_splits option.splits prod.splits)
  ultimately show thesis using that by blast
qed

lemma toSend_simps [simp]:
  "toSend (s\<lparr>pend := p\<rparr>) = toSend s" "toSend (s\<lparr>sender := q\<rparr>) = toSend s" "toSend (s\<lparr>failc := k\<rparr>) = toSend s"
  "toSend (s\<lparr>okc := k\<rparr>) = toSend s" "toSend (s\<lparr>cancels := k\<rparr>) = toSend s" "toSend (s\<lparr>published := l\<rparr>) = toSend s"
  "toSend (s\<lparr>control := c\<rparr>) = toSend s" "toSend (s\<lparr>receiver := c\<rparr>) = toSend s"
  "config b = config (rbot s) \<Longrightarrow> toSend (s\<lparr>rbot := b\<rparr>) = toSend s"
  by (simp_all add: toSend_def)

lemma run_ok_start:
  assumes "NewBot R c = Some b" "bot_cfg_ok c"
  shows "run_ok (start b)"
proof -
  have "config b = c" "seqNum b = 0" using NewBot_config [OF assms(1)] by auto
  moreover have "length (SendTimes b) = Suc (nat (OrdersToSend c))"
    using assms by (auto simp: NewBot_def bot_cfg_ok_def split: if_splits)
  ultimately show ?thesis using assms(2) pt.size_new
    by (simp add: run_ok_def start_def toSend_def pt.inv_new pt.lookup_new keys_le_def)
qed

lemma run_ok_pend:
  \<comment> \<open>taking orders out of the table and counting them\<close>
  assumes "run_ok s" "pt_ok p" "pt_lookup p \<subseteq>\<^sub>m pt_lookup (pend s)" "pt_len p + d = pt_len (pend s)" "a + c = okc s + failc s + d"
  shows "run_ok (s\<lparr>pend := p, okc := a, failc := c\<rparr>)"
proof -
  have "keys_le p (seqNum (rbot s))"
    using assms(1,3) by (auto simp: run_ok_def keys_le_def) (metis domI map_le_def)
  then show ?thesis using assms by (simp add: run_ok_def)
qed

lemma pt_remove_facts:
  assumes "pt_ok t" "pt_remove i t = (r, p)"
  shows "pt_ok p" "pt_lookup p \<subseteq>\<^sub>m pt_lookup t" "pt_len p + (if r = None then 0 else 1) = pt_len t"
  using assms(2) pt.inv_remove [OF assms(1), of i] pt.lookup_remove [OF assms(1), of i] pt.size_remove [OF assms(1), of i]
    pt.remove_found [OF assms(1), of i]
  by (auto simp: map_le_def split: if_splits)

lemma run_ok_receive:
  assumes s: "run_ok s"
  shows "run_ok (receive tm i st q pr mw s)"
proof -
  obtain r p where rp: "pt_remove i (pend s) = (r, p)" by fastforce
  have pok: "pt_ok (pend s)" using s by (simp add: run_ok_def)
  note f = pt_remove_facts [OF pok rp]
  have pub: "run_ok (s'\<lparr>published := l\<rparr>) = run_ok s'" for s' :: "'a run" and l by (simp add: run_ok_def)
  have hit: "run_ok (s\<lparr>pend := p, okc := okc s + 1\<rparr>)" if "r \<noteq> None"
    using run_ok_pend [OF s f(1,2), of 1 "okc s + 1" "failc s"] f(3) that by simp
  have miss: "run_ok (s\<lparr>pend := p\<rparr>)" if "r = None"
    using run_ok_pend [OF s f(1,2), of 0 "okc s" "failc s"] f(3) that by simp
  have hit': "run_ok (s\<lparr>pend := p, okc := okc s + 1, published := l\<rparr>)" if "r \<noteq> None" for l
    using hit [OF that] pub [where s' = "s\<lparr>pend := p, okc := okc s + 1\<rparr>" and l = l] by simp
  have miss': "run_ok (s\<lparr>pend := p, published := l\<rparr>)" if "r = None" for l
    using miss [OF that] pub [where s' = "s\<lparr>pend := p\<rparr>" and l = l] by simp
  show ?thesis using s hit' miss' miss by (cases r) (auto simp: receive_def rp Let_def)
qed

lemma run_ok_expire:
  assumes s: "run_ok s"
  shows "run_ok (failExpired d s)"
proof -
  obtain es p where e: "pt_getExpiredAndRemove d (pend s) = (es, p)" by fastforce
  have pok: "pt_ok (pend s)" using s by (simp add: run_ok_def)
  have "pt_ok p" "pt_len p + length es = pt_len (pend s)" "pt_lookup p \<subseteq>\<^sub>m pt_lookup (pend s)"
    using pt.inv_expire [OF pok, of d] pt.size_expire [OF pok, of d] pt.lookup_expire [OF pok, of d] e
    by (auto simp: map_le_def split: option.splits if_splits)
  then show ?thesis using run_ok_pend [OF s, of p "length es" "okc s" "failc s + length es"] by (simp add: failExpired_def e)
qed

lemma run_ok_next:
  assumes R: "rng_source R" and s: "run_ok s" and pc: "sender s = SLoop i" "i < toSend s"
  obtains m b1 b2 where "NextOrder R (rbot s) = Some (m, b1)" "RecordSendTime now (low32 (MsgOrderID m)) b1 = Some b2"
    "config b1 = config (rbot s)" "seqNum b1 = int i + 1" "SendTimes b1 = SendTimes (rbot s)"
    "config b2 = config (rbot s)" "seqNum b2 = int i + 1" "length (SendTimes b2) = length (SendTimes (rbot s))"
    "low32 (MsgOrderID m) = int i + 1"
proof -
  have b: "bot_cfg_ok (config (rbot s))" "seqNum (rbot s) = int i" using s pc by (auto simp: run_ok_def)
  have lt: "int i < OrdersToSend (config (rbot s))" using pc(2) by (simp add: toSend_def)
  obtain m b1 where n: "NextOrder R (rbot s) = Some (m, b1)" "MsgOrderID m = mkOrderID (NumericID (config (rbot s))) (int i + 1)"
    "config b1 = config (rbot s)" "seqNum b1 = int i + 1" "SendTimes b1 = SendTimes (rbot s)"
    using NextOrder_three [OF R b(1)] b(2) lt by auto
  have l: "low32 (MsgOrderID m) = int i + 1"
    unfolding n(2) using b(1) lt by (intro mkOrderID_parts) (auto simp: bot_cfg_ok_def)
  have "nat (low32 (low32 (MsgOrderID m))) < length (SendTimes b1)"
    using l n(5) s pc(2) b(1) lt by (simp add: run_ok_def low32_def bot_cfg_ok_def)
  then show thesis using that [of m b1 "b1\<lparr>SendTimes := (SendTimes b1)[nat (low32 (low32 (MsgOrderID m))) := now]\<rparr>"] n l
    by (simp add: RecordSendTime_def)
qed

lemma normal_step_ok:
  assumes R: "rng_source R" and st: "normal_step R s s'" and s: "run_ok s"
  shows "run_ok s'"
  using st
proof (cases rule: normal_step.cases)
  case (wait_failed i)
  then show ?thesis using s by (auto simp: run_ok_def)
next
  case (send i now)
  obtain m b1 b2 where n: "NextOrder R (rbot s) = Some (m, b1)" "RecordSendTime now (low32 (MsgOrderID m)) b1 = Some b2"
    "config b2 = config (rbot s)" "seqNum b2 = int i + 1" "length (SendTimes b2) = length (SendTimes (rbot s))" "low32 (MsgOrderID m) = int i + 1"
    using run_ok_next [OF R s send(1,2), of now] by metis
  have pok: "pt_ok (pend s)" and k: "keys_le (pend s) (int i)" using s send(1) by (auto simp: run_ok_def)
  have fresh: "pt_lookup (pend s) (MsgOrderID m) = None"
    using k n(6) by (cases "pt_lookup (pend s) (MsgOrderID m)") (auto simp: keys_le_def)
  have k': "keys_le (pend s) (int i + 1)" "keys_le (pt_set (MsgOrderID m) now (pend s)) (int i + 1)"
    using k n(6) pt.lookup_set [OF pok] by (fastforce simp: keys_le_def split: if_splits)+
  have s': "s' = (if MsgType m \<noteq> Cancel then s\<lparr>rbot := b2, sender := SWrite i m, pend := pt_set (MsgOrderID m) now (pend s)\<rparr>
      else s\<lparr>rbot := b2, sender := SWrite i m\<rparr>)"
    using send(3) n(1,2) by (auto simp: sendOrder_def Let_def)
  have "toSend (s\<lparr>rbot := b2, sender := q, pend := p\<rparr>) = toSend s" "toSend (s\<lparr>rbot := b2, sender := q\<rparr>) = toSend s" for q p
    using n(3) by (simp_all add: toSend_def)
  then show ?thesis
    using s send(1,2) n(3-6) k' fresh pt.inv_set [OF pok] pt.size_set [OF pok]
    by (auto simp: s' run_ok_def)
next
  case (marshal i)
  obtain m b1 where n: "NextOrder R (rbot s) = Some (m, b1)" "config b1 = config (rbot s)" "seqNum b1 = int i + 1" "SendTimes b1 = SendTimes (rbot s)"
    using run_ok_next [OF R s marshal(1,2), of 0] by metis
  then have s': "s' = s\<lparr>rbot := b1, sender := SLoop (i + 1), failc := failc s + 1\<rparr>" using marshal(3) by (simp add: marshalFailed_def)
  moreover have "toSend s' = toSend s" using n(2) by (simp add: s' toSend_def)
  moreover have "keys_le (pend s) (int i + 1)" using s marshal(1) by (auto simp: run_ok_def keys_le_def)
  ultimately show ?thesis using s marshal(1,2) n(2-4) by (auto simp: run_ok_def)
next
  case (wrote i msg)
  then show ?thesis using s by (auto simp: run_ok_def written_def)
next
  case (finish i)
  then show ?thesis using s by (auto simp: run_ok_def)
next
  case report
  then show ?thesis using run_ok_receive [OF s] by simp
next
  case expire
  then show ?thesis using run_ok_expire [OF s] by simp
next
  case close
  then show ?thesis using s by (simp add: run_ok_def)
qed

lemma normal_run_ok:
  assumes "rng_source R" "(normal_step R)\<^sup>*\<^sup>* s s'" "run_ok s"
  shows "run_ok s'"
  using assms(2,3) by (induction rule: rtranclp_induct) (auto intro: normal_step_ok [OF assms(1)])

lemma config_NextOrder:
  assumes "rng_source R" "run_ok s" "normal_step R s s'"
  shows "config (rbot s') = config (rbot s)"
  using assms(3)
proof (cases rule: normal_step.cases)
  case (send i now)
  obtain m b1 b2 where "NextOrder R (rbot s) = Some (m, b1)" "RecordSendTime now (low32 (MsgOrderID m)) b1 = Some b2"
    "config b2 = config (rbot s)" by (rule run_ok_next [OF assms(1,2) send(1,2), of now])
  then show ?thesis using send(3) by (auto simp: sendOrder_def Let_def split: if_splits)
next
  case (marshal i)
  obtain m b1 where "NextOrder R (rbot s) = Some (m, b1)" "config b1 = config (rbot s)"
    by (rule run_ok_next [OF assms(1,2) marshal(1,2), of 0])
  then show ?thesis using marshal(3) by (auto simp: marshalFailed_def)
qed (auto simp: written_def receive_def failExpired_def Let_def split: prod.splits option.splits)

lemma normal_run_config:
  assumes "rng_source R" "(normal_step R)\<^sup>*\<^sup>* s s'" "run_ok s"
  shows "config (rbot s') = config (rbot s)"
  using assms(2)
proof (induction rule: rtranclp_induct)
  case (step t u)
  then show ?case using config_NextOrder [OF assms(1) normal_run_ok [OF assms(1) step(1) assms(3)] step(2)] by simp
qed simp

section \<open>Properties\<close>

text \<open>C20: the 16 maps of the pending table behave as one map from order identifiers to send times:
  setting, removing, counting, clearing and expiring orders have exactly the effect they have on that
  map, and expiring reports each order that timed out exactly once.\<close>

theorem pending_table_refines_map:
  assumes "pt_ok t"
  shows "pt_lookup (pt_set i s t) = (pt_lookup t)(i \<mapsto> s) \<and>
     fst (pt_remove i t) = pt_lookup t i \<and> pt_lookup (snd (pt_remove i t)) = (pt_lookup t)(i := None) \<and>
     pt_len t = card (dom (pt_lookup t)) \<and> pt_lookup (pt_clear t) = Map.empty \<and>
     distinct (fst (pt_getExpiredAndRemove d t)) \<and>
     set (fst (pt_getExpiredAndRemove d t)) = {j. \<exists>v. pt_lookup t j = Some v \<and> v \<le> d} \<and>
     pt_len (snd (pt_getExpiredAndRemove d t)) + length (fst (pt_getExpiredAndRemove d t)) = pt_len t \<and>
     pt_ok (pt_set i s t) \<and> pt_ok (snd (pt_remove i t)) \<and> pt_ok (pt_clear t) \<and> pt_ok (snd (pt_getExpiredAndRemove d t))"
  using assms
  by (simp add: pt.lookup_set pt.remove_found pt.lookup_remove pt.size_lookup [symmetric] pt.lookup_clear pt.expired_distinct
      pt.expired_set pt.size_expire pt.inv_set pt.inv_remove pt.inv_clear pt.inv_expire)

theorem pending_table_refines_map_witness:
  "pt_lookup (pt_set 17 5 (pt_set 1 3 newPendingTable)) = [1 \<mapsto> 3, 17 \<mapsto> 5]"
  using pending_table_refines_map [of "pt_set 1 3 newPendingTable" 17 5] pending_table_refines_map [OF pt.inv_new, of 1 3]
  by (simp add: pt.lookup_new)

text \<open>C17: every order of a normal run is counted exactly once. As long as the connection and the
  context of a bot stay alive, at every point of any interleaving of its goroutines the acknowledged,
  the failed, the pending and the cancelling orders add up to the orders attempted; no step panics,
  and a bot whose sender is done and whose table is empty has accounted for all its orders.\<close>

theorem normal_run_accounts_for_every_order:
  assumes "rng_source R" "NewBot R c = Some b" "bot_cfg_ok c" "(normal_step R)\<^sup>*\<^sup>* (start b) s"
  shows "okc s + failc s + pt_len (pend s) + cancels s = attempted (toSend s) (sender s) \<and>
     (sender s = SDone \<and> pt_len (pend s) = 0 \<longrightarrow> okc s + failc s + cancels s = nat (OrdersToSend c)) \<and>
     (\<forall>i now. sender s = SLoop i \<and> i < toSend s \<longrightarrow> sendOrder R now i s \<noteq> None)"
proof -
  have s0: "run_ok (start b)" by (rule run_ok_start [OF assms(2,3)])
  have s: "run_ok s" using normal_run_ok [OF assms(1,4) s0] .
  have "config (rbot s) = c"
    using normal_run_config [OF assms(1,4) s0] NewBot_config [OF assms(2)] by (simp add: start_def)
  moreover have "sendOrder R now i s \<noteq> None" if pc: "sender s = SLoop i" "i < toSend s" for i now
  proof -
    obtain m b1 b2 where "NextOrder R (rbot s) = Some (m, b1)" "RecordSendTime now (low32 (MsgOrderID m)) b1 = Some b2"
      by (rule run_ok_next [OF assms(1) s pc, of now])
    then show ?thesis by (simp add: sendOrder_def Let_def)
  qed
  ultimately show ?thesis using s by (auto simp: run_ok_def toSend_def)
qed

theorem normal_run_accounts_for_every_order_witness:
  "okc (start (the (NewBot lcg_ops cfg7))) + failc (start (the (NewBot lcg_ops cfg7))) = 0 \<and>
   sendOrder lcg_ops 9 0 (start (the (NewBot lcg_ops cfg7))) \<noteq> None"
proof -
  have n: "NewBot lcg_ops cfg7 = Some (the (NewBot lcg_ops cfg7))" by (simp add: NewBot_def cfg7_def NewBotConfig_def)
  have "cfg_ok cfg7" unfolding cfg7_def cfg_ok_def by code_simp
  then have "bot_cfg_ok cfg7" by (simp add: bot_cfg_ok_def cfg7_def NewBotConfig_def)
  from normal_run_accounts_for_every_order [OF lcg.rng_source_axioms n this rtranclp.rtrancl_refl]
  show ?thesis using NewBot_config [OF n] by (simp add: start_def toSend_def cfg7_def NewBotConfig_def)
qed

text \<open>when the connection fails an order can be counted as failed twice: the receiver counts
  the pending order when it clears the table, and the sender, whose write of the same order fails,
  counts it again. A bot with one order to send then reports two failures, and the check for a bot
  that failed completely, which compares the failures with the orders to send, does not see it.\<close>

lemma connection_loss_counts_order_twice:
  "\<exists>s. (bot_step lcg_ops)\<^sup>*\<^sup>* (start (the (NewBot lcg_ops (cfg7\<lparr>OrdersToSend := 1\<rparr>)))) s \<and>
     sender s = SDone \<and> receiver s = Ended \<and> pt_len (pend s) = 0 \<and> toSend s = 1 \<and> failc s = 2"
proof -
  let ?s0 = "start (the (NewBot lcg_ops (cfg7\<lparr>OrdersToSend := 1\<rparr>)))"
  define s1 where "s1 = the (sendOrder lcg_ops 9 0 ?s0)"
  have 1: "sendOrder lcg_ops 9 0 ?s0 \<noteq> None" "toSend ?s0 = 1" by code_simp+
  have f1: "(case sender s1 of SWrite i m \<Rightarrow> i = 0 | _ \<Rightarrow> False) \<and> receiver s1 = Alive \<and> failc s1 = 0 \<and> pt_len (pend s1) = 1 \<and> toSend s1 = 1"
    unfolding s1_def by code_simp
  then obtain m where m: "sender s1 = SWrite 0 m" by (auto split: sender_pc.splits)
  define s2 where "s2 = s1\<lparr>receiver := Clearing (pt_len (pend s1))\<rparr>"
  define s3 where "s3 = s2\<lparr>receiver := Ended, pend := pt_clear (pend s2), failc := failc s2 + pt_len (pend s1)\<rparr>"
  define s4 where "s4 = writeFailed 0 m s3"
  have n01: "normal_step lcg_ops ?s0 s1"
    by (rule normal_step.send [where i = 0 and now = 9]) (use 1 in \<open>auto simp: start_def s1_def\<close>)
  have "fault_step s1 s2" unfolding s2_def by (rule fault_step.read_err) (use f1 in simp)
  moreover have "fault_step s2 s3" unfolding s3_def by (rule fault_step.read_clear) (simp add: s2_def)
  moreover have "fault_step s3 s4" unfolding s4_def by (rule fault_step.write_err) (simp add: s3_def s2_def m)
  ultimately have steps: "bot_step lcg_ops ?s0 s1" "bot_step lcg_ops s1 s2" "bot_step lcg_ops s2 s3" "bot_step lcg_ops s3 s4"
    using n01 by (auto simp: bot_step_def)
  then have "(bot_step lcg_ops)\<^sup>*\<^sup>* ?s0 s4" by (meson converse_rtranclp_into_rtranclp rtranclp.rtrancl_refl)
  moreover have "toSend s3 = 1" "failc s3 = 1" "receiver s3 = Ended" using f1 by (simp_all add: s3_def s2_def)
  moreover have "pt_len (snd (pt_remove (MsgOrderID m) (pt_clear (pend s1)))) = 0"
  proof -
    have "cfg_ok cfg7" unfolding cfg7_def cfg_ok_def by code_simp
    then have "bot_cfg_ok (cfg7\<lparr>OrdersToSend := 1\<rparr>)" by (simp add: bot_cfg_ok_def cfg_ok_def cfg7_def NewBotConfig_def)
    moreover have "NewBot lcg_ops (cfg7\<lparr>OrdersToSend := 1\<rparr>) = Some (the (NewBot lcg_ops (cfg7\<lparr>OrdersToSend := 1\<rparr>)))"
      by (simp add: NewBot_def)
    ultimately have "run_ok ?s0" by (metis run_ok_start)
    then have "pt_ok (pend s1)" using normal_step_ok [OF lcg.rng_source_axioms n01] by (simp add: run_ok_def)
    then show ?thesis using pt.size_remove [OF pt.inv_clear, of "pend s1" "MsgOrderID m"] pt.size_clear [of "pend s1"]
      by (auto split: if_splits)
  qed
  then have "pt_len (pend s4) = 0" by (simp add: s4_def writeFailed_def s3_def s2_def)
  ultimately show ?thesis by (intro exI [of _ s4]) (simp add: s4_def writeFailed_def)
qed

end
