(* ===== verification/Scoring.thy ===== *)
theory Scoring
  imports Float64
begin

text \<open>
  \<^verbatim>\<open>pkg/scoring/scoring.go\<close>: the latency buckets, the latency, throughput and composite
  scores. The lemmas are proved once for any \<open>rounding\<close> and used for \<open>fl\<close>: every score
  stays within 0 and 100 under binary64 rounding, decays with latency, and the fixed
  latency score is the dynamic one at its default target and ceiling.
\<close>

section \<open>Definitions\<close>

definition latencyBucket :: "rat \<Rightarrow> rat" where
  "latencyBucket latencyUs =
     (let target = 500; ceil = 5000 in
      if latencyUs \<le> target then 100
      else if ceil \<le> latencyUs then 0
      else fmul 100 (fsub 1 (fdiv (fsub latencyUs target) (ceil - target))))"

definition LatencyScore :: "rat \<Rightarrow> rat \<Rightarrow> rat \<Rightarrow> rat" where
  "LatencyScore p50Us p90Us p99Us =
     (let s50 = latencyBucket p50Us; s90 = latencyBucket p90Us; s99 = latencyBucket p99Us in
      fdiv (math_Round (fmul (fadd (fadd (fmul s50 (fl (20 / 100))) (fmul s90 (fl (30 / 100))))
                                   (fmul s99 (fl (50 / 100)))) 100)) 100)"

definition dynamicLatencyBucket :: "rat \<Rightarrow> rat \<Rightarrow> rat \<Rightarrow> rat" where
  "dynamicLatencyBucket latencyUs target ceil =
     (if latencyUs \<le> target then 100
      else if ceil \<le> latencyUs then 0
      else if ceil \<le> target then 0
      else fmul 100 (fsub 1 (fdiv (fsub latencyUs target) (fsub ceil target))))"

definition DynamicLatencyScore :: "rat \<Rightarrow> rat \<Rightarrow> rat \<Rightarrow> rat \<Rightarrow> rat \<Rightarrow> rat" where
  "DynamicLatencyScore p50Us p90Us p99Us target ceil =
     (let s50 = dynamicLatencyBucket p50Us target ceil;
          s90 = dynamicLatencyBucket p90Us target ceil;
          s99 = dynamicLatencyBucket p99Us target ceil in
      fdiv (math_Round (fmul (fadd (fadd (fmul s50 (fl (20 / 100))) (fmul s90 (fl (30 / 100))))
                                   (fmul s99 (fl (50 / 100)))) 100)) 100)"

definition ThroughputScore :: "rat \<Rightarrow> rat" where
  "ThroughputScore failRate =
     (let r1 = (if failRate < 0 then 0 else failRate);
          r2 = (if 1 < r1 then 1 else r1) in
      fmul (fsub 1 r2) 100)"

definition CompositeScore :: "rat \<Rightarrow> rat \<Rightarrow> rat \<Rightarrow> rat" where
  "CompositeScore correctness latencyScore throughputScore =
     (let score = fadd (fadd (fmul throughputScore (fl (3 / 10))) (fmul latencyScore (fl (3 / 10))))
                       (fmul correctness (fl (4 / 10))) in
      fdiv (math_Round (fmul score 100)) 100)"

section \<open>Lemmas over any rounding\<close>

named_theorems float_defs \<open>the float64 operations as rounded exact operations\<close>
lemmas float_ops [float_defs] = fadd_def fsub_def fmul_def fdiv_def

lemma math_Round_mono:
  assumes "x \<le> y" shows "math_Round x \<le> math_Round y"
proof -
  have "\<lfloor>x + 1 / 2\<rfloor> \<le> \<lfloor>y + 1 / 2\<rfloor>" "\<lfloor>- y + 1 / 2\<rfloor> \<le> \<lfloor>- x + 1 / 2\<rfloor>"
    using assms by (auto intro!: floor_mono)
  moreover have "0 \<le> y \<Longrightarrow> 0 \<le> \<lfloor>y + 1 / 2\<rfloor>" "\<not> 0 \<le> x \<Longrightarrow> 0 \<le> \<lfloor>- x + 1 / 2\<rfloor>"
    by (simp_all add: zero_le_floor)
  ultimately show ?thesis using assms
    unfolding math_Round_def of_int_le_iff by (auto simp del: minus_add_distrib) linarith
qed

lemma math_Round_of_int [simp]: "math_Round (of_int n) = of_int n"
proof -
  have "\<lfloor>(of_int m :: rat) + 1 / 2\<rfloor> = m" for m by linarith
  from this [of n] this [of "- n"] show ?thesis by (simp add: math_Round_def)
qed

lemma math_Round_num [simp]: "math_Round (numeral w) = numeral w" "math_Round 0 = 0"
  using math_Round_of_int [of "numeral w"] math_Round_of_int [of 0] by simp_all

context rounding
begin

lemma decay_antimono:
  assumes "t < l" "l \<le> l'" "0 \<le> d"
  shows "rnd (100 * rnd (1 - rnd (rnd (l' - t) / d))) \<le> rnd (100 * rnd (1 - rnd (rnd (l - t) / d)))"
  using assms by (intro rnd_mono mult_left_mono diff_left_mono divide_right_mono) auto

lemma decay_bounds:
  assumes "t \<le> l" "l \<le> c"
  shows "0 \<le> rnd (100 * rnd (1 - rnd (rnd (l - t) / rnd (c - t))))"
    and "rnd (100 * rnd (1 - rnd (rnd (l - t) / rnd (c - t)))) \<le> 100"
proof -
  have n: "0 \<le> rnd (l - t)" using assms by (intro rnd_nonneg) simp
  have m: "rnd (l - t) \<le> rnd (c - t)" using assms by (intro rnd_mono) simp
  have "0 \<le> rnd (l - t) / rnd (c - t)" using n m by simp
  moreover have "rnd (l - t) / rnd (c - t) \<le> 1" using n m by (simp add: divide_le_eq)
  ultimately have "0 \<le> rnd (rnd (l - t) / rnd (c - t)) \<and> rnd (rnd (l - t) / rnd (c - t)) \<le> 1"
    by (rule rnd_unit)
  then have "0 \<le> rnd (1 - rnd (rnd (l - t) / rnd (c - t))) \<and>
      rnd (1 - rnd (rnd (l - t) / rnd (c - t))) \<le> 1"
    by (intro rnd_unit) auto
  then show "0 \<le> rnd (100 * rnd (1 - rnd (rnd (l - t) / rnd (c - t))))"
    and "rnd (100 * rnd (1 - rnd (rnd (l - t) / rnd (c - t)))) \<le> 100"
    using rnd_nonneg rnd_le_int [of _ 100] by simp_all
qed

text \<open>A weighted sum of three scores, rounded to two decimals as the sources do.\<close>

lemma weighted_mono:
  assumes "a \<le> a'" "b \<le> b'" "c \<le> c'" "0 \<le> wa" "0 \<le> wb" "0 \<le> wc"
  shows "rnd (math_Round (rnd (rnd (rnd (rnd (a * wa) + rnd (b * wb)) + rnd (c * wc)) * 100)) / 100)
    \<le> rnd (math_Round (rnd (rnd (rnd (rnd (a' * wa) + rnd (b' * wb)) + rnd (c' * wc)) * 100)) / 100)"
  using assms
  by (intro rnd_mono divide_right_mono math_Round_mono mult_right_mono add_mono) auto

end

section \<open>Bounds and monotonicity\<close>

lemma dynamicLatencyBucket_bounds:
  "0 \<le> dynamicLatencyBucket l t c \<and> dynamicLatencyBucket l t c \<le> 100"
  using fl64.decay_bounds [of t l c] by (simp add: dynamicLatencyBucket_def float_defs)

lemma dynamicLatencyBucket_antimono:
  assumes "l \<le> l'" shows "dynamicLatencyBucket l' t c \<le> dynamicLatencyBucket l t c"
proof (cases "t < l \<and> l' < c")
  case True
  have "0 \<le> fl (c - t)" using True assms by (intro fl64.rnd_nonneg) simp
  then show ?thesis using True assms fl64.decay_antimono [of t l l' "fl (c - t)"]
    by (simp add: dynamicLatencyBucket_def float_defs)
next
  case False
  show ?thesis
  proof (cases "l \<le> t")
    case True
    then have "dynamicLatencyBucket l t c = 100" by (simp add: dynamicLatencyBucket_def)
    then show ?thesis using dynamicLatencyBucket_bounds by simp
  next
    case nl: False
    with False assms have "dynamicLatencyBucket l' t c = 0" by (simp add: dynamicLatencyBucket_def)
    then show ?thesis using dynamicLatencyBucket_bounds by simp
  qed
qed

lemma latencyBucket_dynamic: "latencyBucket l = dynamicLatencyBucket l 500 5000"
proof -
  have "fsub 5000 500 = 4500" by (simp add: fsub_def)
  then show ?thesis by (simp add: latencyBucket_def dynamicLatencyBucket_def)
qed

lemmas weights_nonneg =
  fl64.rnd_nonneg [of "20 / 100"] fl64.rnd_nonneg [of "30 / 100"] fl64.rnd_nonneg [of "50 / 100"]
  fl64.rnd_nonneg [of "3 / 10"] fl64.rnd_nonneg [of "4 / 10"]

definition weightedLatency :: "rat \<Rightarrow> rat \<Rightarrow> rat \<Rightarrow> rat" where
  \<comment> \<open>the combination shared by both latency scores\<close>
  "weightedLatency s50 s90 s99 =
     fdiv (math_Round (fmul (fadd (fadd (fmul s50 (fl (20 / 100))) (fmul s90 (fl (30 / 100))))
                                  (fmul s99 (fl (50 / 100)))) 100)) 100"

lemma weightedLatency_mono:
  "a \<le> a' \<Longrightarrow> b \<le> b' \<Longrightarrow> c \<le> c' \<Longrightarrow> weightedLatency a b c \<le> weightedLatency a' b' c'"
  unfolding weightedLatency_def float_defs
  by (rule fl64.weighted_mono) (use weights_nonneg in auto)

lemma weightedLatency_ends: "weightedLatency 0 0 0 = 0" "weightedLatency 100 100 100 = 100"
  unfolding weightedLatency_def by code_simp+

lemma weightedLatency_bounds:
  assumes "0 \<le> a" "a \<le> 100" "0 \<le> b" "b \<le> 100" "0 \<le> c" "c \<le> 100"
  shows "0 \<le> weightedLatency a b c \<and> weightedLatency a b c \<le> 100"
  using weightedLatency_mono [of 0 a 0 b 0 c] weightedLatency_mono [of a 100 b 100 c 100] assms
  by (simp add: weightedLatency_ends)

lemma DynamicLatencyScore_weighted:
  "DynamicLatencyScore p50 p90 p99 t c =
     weightedLatency (dynamicLatencyBucket p50 t c) (dynamicLatencyBucket p90 t c) (dynamicLatencyBucket p99 t c)"
  by (simp add: DynamicLatencyScore_def weightedLatency_def Let_def)

lemma LatencyScore_dynamic: "LatencyScore p50 p90 p99 = DynamicLatencyScore p50 p90 p99 500 5000"
  by (simp add: LatencyScore_def DynamicLatencyScore_def latencyBucket_dynamic)

lemma DynamicLatencyScore_range:
  "0 \<le> DynamicLatencyScore p50 p90 p99 t c \<and> DynamicLatencyScore p50 p90 p99 t c \<le> 100"
  using weightedLatency_bounds dynamicLatencyBucket_bounds
  by (simp add: DynamicLatencyScore_weighted)

lemma CompositeScore_mono:
  "c \<le> c' \<Longrightarrow> l \<le> l' \<Longrightarrow> t \<le> t' \<Longrightarrow> CompositeScore c l t \<le> CompositeScore c' l' t'"
  unfolding CompositeScore_def float_defs Let_def
  by (rule fl64.weighted_mono) (use weights_nonneg in auto)

lemma CompositeScore_ends: "CompositeScore 0 0 0 = 0" "CompositeScore 100 100 100 = 100"
  unfolding CompositeScore_def by code_simp+

lemma CompositeScore_range:
  assumes "0 \<le> c" "c \<le> 100" "0 \<le> l" "l \<le> 100" "0 \<le> t" "t \<le> 100"
  shows "0 \<le> CompositeScore c l t \<and> CompositeScore c l t \<le> 100"
  using CompositeScore_mono [of 0 c 0 l 0 t] CompositeScore_mono [of c 100 l 100 t 100] assms
  by (simp add: CompositeScore_ends)

lemma ThroughputScore_range: "0 \<le> ThroughputScore r \<and> ThroughputScore r \<le> 100"
proof -
  define r2 where "r2 = (let r1 = (if r < 0 then 0 else r) in if 1 < r1 then 1 else r1)"
  have "0 \<le> r2" "r2 \<le> 1" by (auto simp: r2_def Let_def)
  then have "0 \<le> fl (1 - r2) \<and> fl (1 - r2) \<le> 1" by (intro fl64.rnd_unit) auto
  then have "0 \<le> fl (fl (1 - r2) * 100) \<and> fl (fl (1 - r2) * 100) \<le> 100"
    using fl64.rnd_nonneg [of "fl (1 - r2) * 100"] fl64.rnd_le_int [of "fl (1 - r2) * 100" 100] by simp
  moreover have "ThroughputScore r = fl (fl (1 - r2) * 100)"
    by (simp add: ThroughputScore_def r2_def float_defs Let_def)
  ultimately show ?thesis by simp
qed

section \<open>Properties\<close>

text \<open>the latency score never rises when latencies grow. For any target and ceiling it stays
  within 0 and 100, and larger p50, p90 and p99 latencies give a score that is at most as large,
  under binary64 rounding of every step.\<close>

lemma dynamic_latency_score_decays:
  assumes "p50 \<le> p50'" "p90 \<le> p90'" "p99 \<le> p99'"
  shows "0 \<le> DynamicLatencyScore p50' p90' p99' t c \<and>
     DynamicLatencyScore p50' p90' p99' t c \<le> DynamicLatencyScore p50 p90 p99 t c \<and>
     DynamicLatencyScore p50 p90 p99 t c \<le> 100"
  using DynamicLatencyScore_range weightedLatency_mono dynamicLatencyBucket_antimono assms
  by (simp add: DynamicLatencyScore_weighted)

lemma dynamic_latency_score_decays_witness:
  "DynamicLatencyScore 400 1000 6000 500 5000 \<le> DynamicLatencyScore 400 900 4000 500 5000"
  using dynamic_latency_score_decays [of 400 400 900 1000 4000 6000] by simp

text \<open>The fixed latency score is the dynamic one at the target of 500 and the ceiling of 5000
  microseconds, at every latency; it is 100 up to the target and 0 from the ceiling on.\<close>

lemma latency_score_is_dynamic_default:
  "LatencyScore p50 p90 p99 = DynamicLatencyScore p50 p90 p99 500 5000 \<and>
   (max p50 (max p90 p99) \<le> 500 \<longrightarrow> LatencyScore p50 p90 p99 = 100) \<and>
   (5000 \<le> min p50 (min p90 p99) \<longrightarrow> LatencyScore p50 p90 p99 = 0)"
  using weightedLatency_ends
  by (auto simp: LatencyScore_dynamic DynamicLatencyScore_weighted dynamicLatencyBucket_def)

lemma latency_score_is_dynamic_default_witness:
  "LatencyScore 100 200 499 = 100 \<and> LatencyScore 5000 7000 9000 = 0"
  using latency_score_is_dynamic_default [of 100 200 499] latency_score_is_dynamic_default [of 5000 7000 9000] by simp

text \<open>C16: the composite score of a run is within 0 and 100 and improves with each part: a higher
  correctness, lower latencies and a lower failure rate never lower it.\<close>

theorem composite_score_monotone_in_range:
  assumes "0 \<le> c" "c \<le> c'" "c' \<le> 100" "p50' \<le> p50" "p90' \<le> p90" "p99' \<le> p99" "r' \<le> r"
  shows "0 \<le> CompositeScore c (LatencyScore p50 p90 p99) (ThroughputScore r) \<and>
     CompositeScore c (LatencyScore p50 p90 p99) (ThroughputScore r) \<le>
       CompositeScore c' (LatencyScore p50' p90' p99') (ThroughputScore r') \<and>
     CompositeScore c' (LatencyScore p50' p90' p99') (ThroughputScore r') \<le> 100"
proof -
  have l: "LatencyScore p50 p90 p99 \<le> LatencyScore p50' p90' p99'"
    using assms(4-6) weightedLatency_mono dynamicLatencyBucket_antimono
    by (simp add: LatencyScore_dynamic DynamicLatencyScore_weighted)
  have t: "ThroughputScore r \<le> ThroughputScore r'"
    unfolding ThroughputScore_def Let_def float_defs using assms(7) by (intro fl_mono mult_right_mono) auto
  have "0 \<le> LatencyScore p50 p90 p99" "LatencyScore p50' p90' p99' \<le> 100"
    using DynamicLatencyScore_range by (simp_all add: LatencyScore_dynamic)
  then show ?thesis
    using CompositeScore_mono [OF assms(2) l t] CompositeScore_range [of c "LatencyScore p50 p90 p99" "ThroughputScore r"]
      CompositeScore_range [of c' "LatencyScore p50' p90' p99'" "ThroughputScore r'"]
      ThroughputScore_range l assms by auto
qed

theorem composite_score_monotone_in_range_witness:
  "CompositeScore 90 (LatencyScore 600 900 4000) (ThroughputScore (1 / 10)) \<le>
     CompositeScore 95 (LatencyScore 600 800 3000) (ThroughputScore 0)"
  using composite_score_monotone_in_range [of 90 95 600 600 800 900 3000 4000 0 "1 / 10"] by simp

end
