(* ===== verification/Fleet_Master.thy ===== *)
theory Fleet_Master
  imports Fleet_Shards Scoring
begin

text \<open>
  The master of the bot fleet, \<^verbatim>\<open>bot-fleet/main.go\<close>: the job store with its write-through copy in
  Redis, the handlers of \<^verbatim>\<open>/run\<close>, \<^verbatim>\<open>/status\<close> and \<^verbatim>\<open>/cancel\<close>, the goroutine that runs a job and writes
  the official result, and the recovery after a restart. A stored job is the value of its pointer
  (jobs are replaced, never changed). Redis and the database are reached through their outcome: the
  write succeeds or not. JSON encoding and decoding of a job is taken as the identity on its exported
  fields; an entry that does not decode is \<open>None\<close>.
\<close>

section \<open>Jobs\<close>

definition JobPending :: string where "JobPending = ''pending''"
definition JobRunning :: string where "JobRunning = ''running''"
definition JobCompleted :: string where "JobCompleted = ''completed''"
definition JobAborted :: string where "JobAborted = ''aborted''"

lemmas job_consts = JobPending_def JobRunning_def JobCompleted_def JobAborted_def

record Job =
  jID :: string
  jContestantID :: string
  jStatus :: string
  jStartedAt :: int
  jEndedAt :: "int option"
  jReport :: "FleetReport option"
  jError :: string

record OfficialRow =
  orStatus :: string
  orVerdict :: string
  orReason :: string
  orComposite :: rat
  orCorrectness :: rat
  orP50 :: int
  orP90 :: int
  orP99 :: int
  orTPS :: "rat option"

record Master =
  jobStore :: "(string \<times> Job) list"
  redisJobs :: "(string \<times> Job option) list option" \<comment> \<open>\<open>None\<close>: running without Redis\<close>
  cancelled :: "string list" \<comment> \<open>jobs whose context was cancelled\<close>
  submissions :: "(string \<times> OfficialRow) list option" \<comment> \<open>rows updated in the database, \<open>None\<close>: no database\<close>

definition getJob :: "string \<Rightarrow> Master \<Rightarrow> Job option" where
  "getJob jid st = map_of (jobStore st) jid"

definition replaceJob :: "bool \<Rightarrow> Job \<Rightarrow> Master \<Rightarrow> Master" where
  \<comment> \<open>\<open>hset\<close>: the write to Redis succeeds\<close>
  "replaceJob hset newJob st =
     (let st1 = st\<lparr>jobStore := AList.update (jID newJob) newJob (jobStore st)\<rparr> in
      case redisJobs st1 of
        None \<Rightarrow> st1
      | Some r \<Rightarrow> if hset then st1\<lparr>redisJobs := Some (AList.update (jID newJob) (Some newJob) r)\<rparr> else st1)"

section \<open>Starting a job\<close>

datatype 'a response = Response nat 'a

definition applyDefaults :: "FleetConfig \<Rightarrow> FleetConfig" where
  "applyDefaults c0 =
     (let c1 = (if fcNumBots c0 \<le> 0 then c0\<lparr>fcNumBots := 50\<rparr> else c0);
          c2 = (if fcOrdersPerBot c1 \<le> 0 then c1\<lparr>fcOrdersPerBot := 100\<rparr> else c1);
          c3 = (if fcMidPrice c2 \<le> 0 then c2\<lparr>fcMidPrice := 100\<rparr> else c2);
          c4 = (if fcSpread c3 \<le> 0 then c3\<lparr>fcSpread := fl (10 / 100)\<rparr> else c3);
          c5 = (if fcRatePerSec c4 \<le> 0 then c4\<lparr>fcRatePerSec := 10\<rparr> else c4);
          m = fcStrategyMix c5 in
      if fadd (fadd (mixMarketMaker m) (mixMomentumTrader m)) (mixNoiseTrader m) = 0
      then c5\<lparr>fcStrategyMix := \<lparr>mixMarketMaker = fl (4 / 10), mixMomentumTrader = fl (3 / 10), mixNoiseTrader = fl (3 / 10)\<rparr>\<rparr>
      else c5)"

definition handleRun :: "string \<Rightarrow> string \<Rightarrow> int \<Rightarrow> bool \<Rightarrow> FleetConfig option \<Rightarrow> Master \<Rightarrow>
    (string + FleetConfig \<times> Job) response \<times> Master" where
  \<comment> \<open>\<open>uuid\<close> and \<open>now\<close> are drawn by the handler; the answer carries the job that is started\<close>
  "handleRun httpMethod uuid now hset body st =
     (if httpMethod \<noteq> ''POST'' then (Response 405 (Inl ''POST only''), st)
      else case body of
        None \<Rightarrow> (Response 400 (Inl ''invalid JSON body''), st)
      | Some c0 \<Rightarrow>
          let cfg = applyDefaults c0 in
          if fcEndpoint cfg = [] then (Response 400 (Inl ''endpoint is required''), st)
          else
            let jobID = (if fcJobID cfg = [] then uuid else fcJobID cfg);
                job = \<lparr>jID = jobID, jContestantID = fcContestantID cfg, jStatus = JobPending, jStartedAt = now,
                       jEndedAt = None, jReport = None, jError = []\<rparr> in
            (Response 202 (Inr (cfg, job)), replaceJob hset job st))"

section \<open>Running a job\<close>

record 'h TelemetryResult =
  trHistogram :: 'h
  trEngineHistogram :: "'h option"
  trCorrectness :: rat

datatype outcome = Crash | Finished Master

definition shortID :: "string \<Rightarrow> string option" where
  \<comment> \<open>\<^verbatim>\<open>job.ID[:8]\<close>, which panics on a shorter string\<close>
  "shortID jid = (if length jid < 8 then None else Some (take 8 jid))"

definition recoverJob :: "bool \<Rightarrow> int \<Rightarrow> Job \<Rightarrow> string \<Rightarrow> Master \<Rightarrow> outcome" where
  \<comment> \<open>the deferred function; a panic inside it is not recovered\<close>
  "recoverJob hset now job reason st =
     (case shortID (jID job) of
        None \<Rightarrow> Crash
      | Some _ \<Rightarrow>
          Finished (replaceJob hset (job\<lparr>jStatus := JobAborted, jEndedAt := Some now, jError := ''internal panic: '' @ reason\<rparr>) st
                    \<lparr>cancelled := jID job # cancelled st\<rparr>))"

definition failRateOf :: "FleetReport \<Rightarrow> rat" where
  "failRateOf rep = (if rpOrdersSent rep > 0 then fdiv (float64 (rpOrdersFailed rep)) (float64 (rpOrdersSent rep)) else 0)"

definition officialVerdict :: "FleetReport \<Rightarrow> string \<times> string" where
  "officialVerdict rep =
     (if rpCorrectnessScore rep < 100 then (''Logic Violation (LV)'', ''Correctness < 100% (Order Book Math Mismatch)'')
      else if rpP99Us rep > 5000 then (''Tail Latency Exceeded (TLE)'', ''P99 > 5000'' @ [CHR 0xC2, CHR 0xB5] @ ''s (Worst-case Tail Spikes)'')
      else if failRateOf rep > fl (10 / 100) then (''Throughput Degradation'', ''Failure Rate > 10% (Dropped Orders)'')
      else (''Accepted'', ''Optimal Execution (Passes all SLAs)''))"

definition officialRow :: "FleetReport \<Rightarrow> OfficialRow" where
  "officialRow rep =
     (let latencyScore = LatencyScore (rpP50Us rep) (rpP90Us rep) (rpP99Us rep);
          throughputScore = ThroughputScore (failRateOf rep);
          compositeScore = CompositeScore (rpCorrectnessScore rep) latencyScore throughputScore;
          (verdict, reason) = officialVerdict rep in
      \<lparr>orStatus = ''completed'', orVerdict = verdict, orReason = reason, orComposite = compositeScore,
       orCorrectness = rpCorrectnessScore rep, orP50 = trunc64 (rpP50Us rep), orP90 = trunc64 (rpP90Us rep),
       orP99 = trunc64 (rpP99Us rep), orTPS = rpTPS rep\<rparr>)"

definition finalReport :: "'h hist_ops \<Rightarrow> 'r Bot list \<Rightarrow> 'h TelemetryResult option option \<Rightarrow> int \<Rightarrow> FleetReport \<Rightarrow> FleetReport" where
  \<comment> \<open>the outer option: the Kafka consumer was created; the inner one: it returned without an error\<close>
  "finalReport H bots tel elapsedMs rep =
     (let rep1 = (case tel of
            Some (Some t) \<Rightarrow> rep\<lparr>rpP50Us := usOf (h_quantile H (trHistogram t) 50), rpP90Us := usOf (h_quantile H (trHistogram t) 90),
                                rpP99Us := usOf (h_quantile H (trHistogram t) 99), rpMaxUs := usOf (h_max H (trHistogram t)),
                                rpCorrectnessScore := trCorrectness t\<rparr>
          | _ \<Rightarrow> rep) in
      rep1\<lparr>rpKafkaUnavailable := (tel = None), rpDurationMs := elapsedMs,
           rpTPS := (if elapsedMs = 0 then None else Some (fdiv (float64 (rpOrdersSent rep1)) (fdiv (float64 elapsedMs) 1000))),
           rpStrategyBreakdown := [(''market_maker'', countStrategy bots MarketMaker),
             (''momentum_trader'', countStrategy bots MomentumTrader), (''noise_trader'', countStrategy bots NoiseTrader)],
           rpStatus := ''completed''\<rparr>)"

fun joinErrors :: "string list \<Rightarrow> string" where
  "joinErrors [] = []"
| "joinErrors [e] = e"
| "joinErrors (e # f # es) = e @ '', '' @ joinErrors (f # es)"

definition distributedError :: "nat \<Rightarrow> string list \<Rightarrow> string" where
  "distributedError numWorkers errs =
     (if numWorkers = 0 then ''no workers configured'' else ''shard failures: '' @ joinErrors errs)"

definition runJob :: "'r rng_ops \<Rightarrow> 'h hist_ops \<Rightarrow> bool \<Rightarrow> bool \<Rightarrow> int \<Rightarrow> int \<Rightarrow> nat \<Rightarrow> (string + ShardResult) list \<Rightarrow>
    'h TelemetryResult option option \<Rightarrow> int \<Rightarrow> FleetConfig \<Rightarrow> Job \<Rightarrow> Master \<Rightarrow> outcome" where
  \<comment> \<open>the goroutine that \<^verbatim>\<open>handleRun\<close> starts; \<open>responses\<close> are the answers of the workers, \<open>tel\<close> that of the consumer,
    \<open>dbOk\<close> whether the update of the submissions succeeds\<close>
  "runJob R H hset dbOk nanos now numWorkers responses tel elapsedMs cfg job st0 =
     (let st1 = replaceJob hset (job\<lparr>jStatus := JobRunning\<rparr>) st0 in
      case buildBots R nanos cfg of
        None \<Rightarrow> recoverJob hset now job ''runtime error: makeslice: len out of range'' st1
      | Some bots \<Rightarrow>
          case shortID (jID job) of
            None \<Rightarrow> recoverJob hset now job ''runtime error: slice bounds out of range'' st1
          | Some _ \<Rightarrow>
              case distributedReport H cfg numWorkers responses of
                Inl errs \<Rightarrow>
                  Finished (replaceJob hset (job\<lparr>jStatus := JobAborted, jEndedAt := Some now,
                              jError := distributedError numWorkers errs\<rparr>) st1\<lparr>cancelled := jID job # cancelled st1\<rparr>)
              | Inr rep0 \<Rightarrow>
                  let rep = finalReport H bots tel elapsedMs rep0;
                      st2 = replaceJob hset (job\<lparr>jStatus := JobCompleted, jEndedAt := Some now, jReport := Some rep\<rparr>) st1;
                      st3 = (case submissions st2 of
                               None \<Rightarrow> st2
                             | Some rows \<Rightarrow> if dbOk then st2\<lparr>submissions := Some (AList.update (jID job) (officialRow rep) rows)\<rparr> else st2) in
                  Finished (st3\<lparr>cancelled := jID job # cancelled st3\<rparr>))"

section \<open>Status and cancellation\<close>

definition handleStatus :: "string \<Rightarrow> string \<Rightarrow> Master \<Rightarrow> (string + Job) response" where
  "handleStatus httpMethod path st =
     (if httpMethod \<noteq> ''GET'' then Response 405 (Inl ''GET only'')
      else
        let jobID = drop (length ''/status/'') path in
        if jobID = [] then Response 400 (Inl ''missing job ID'')
        else case getJob jobID st of None \<Rightarrow> Response 404 (Inl ''job not found'') | Some job \<Rightarrow> Response 200 (Inr job))"

definition handleCancel :: "string \<Rightarrow> string \<Rightarrow> bool \<Rightarrow> int \<Rightarrow> Master \<Rightarrow> string response \<times> Master" where
  "handleCancel httpMethod path hset now st =
     (if httpMethod \<noteq> ''DELETE'' then (Response 405 ''DELETE only'', st)
      else
        let jobID = drop (length ''/cancel/'') path in
        if jobID = [] then (Response 400 ''missing job ID'', st)
        else case getJob jobID st of
          None \<Rightarrow> (Response 404 ''job not found'', st)
        | Some job \<Rightarrow>
            if jStatus job \<noteq> JobRunning then (Response 409 ''job is not running'', st)
            else (Response 200 ''aborted'',
                  replaceJob hset \<lparr>jID = jID job, jContestantID = jContestantID job, jStatus = JobAborted,
                    jStartedAt = jStartedAt job, jEndedAt = Some now, jReport = None, jError = []\<rparr>
                    (st\<lparr>cancelled := jID job # cancelled st\<rparr>)))"

section \<open>Restart\<close>

definition sanitize :: "int \<Rightarrow> Job \<Rightarrow> Job" where
  "sanitize now job =
     (if jStatus job = JobRunning \<or> jStatus job = JobPending
      then job\<lparr>jStatus := JobAborted, jError := ''system restarted while job was active'', jEndedAt := Some now\<rparr> else job)"

fun rehydrate :: "int \<Rightarrow> (string \<times> Job option) list \<Rightarrow> Master \<Rightarrow> Master" where
  \<comment> \<open>the loop of \<^verbatim>\<open>rehydrateFromRedis\<close> over the entries read\<close>
  "rehydrate now [] st = st"
| "rehydrate now ((k, entry) # es) st =
     rehydrate now es
       (case entry of
          None \<Rightarrow> st
        | Some job \<Rightarrow>
            let fixed = sanitize now job;
                st1 = (if jStatus job = JobRunning \<or> jStatus job = JobPending
                       then st\<lparr>redisJobs := map_option (AList.update (jID fixed) (Some fixed)) (redisJobs st)\<rparr> else st) in
            st1\<lparr>jobStore := AList.update (jID fixed) fixed (jobStore st1)\<rparr>)"

definition rehydrateFromRedis :: "int \<Rightarrow> bool \<Rightarrow> Master \<Rightarrow> Master" where
  \<comment> \<open>\<open>readOk\<close>: \<^verbatim>\<open>HGETALL\<close> succeeds\<close>
  "rehydrateFromRedis now readOk st =
     (case redisJobs st of
        None \<Rightarrow> st
      | Some entries \<Rightarrow> if readOk then rehydrate now entries st else st)"

section \<open>Lemmas\<close>

lemma getJob_replaceJob [simp]:
  "getJob j (replaceJob h job st) = (if j = jID job then Some job else getJob j st)"
  by (simp add: getJob_def replaceJob_def Let_def gomap_simps split: option.splits)

lemma getJob_frame [simp]:
  "getJob j (st\<lparr>cancelled := c\<rparr>) = getJob j st" "getJob j (st\<lparr>submissions := s\<rparr>) = getJob j st"
  "getJob j (st\<lparr>redisJobs := r\<rparr>) = getJob j st"
  by (simp_all add: getJob_def)

lemma submissions_replaceJob [simp]: "submissions (replaceJob h job st) = submissions st"
  by (simp add: replaceJob_def Let_def split: option.splits)

lemma applyDefaults_frame [simp]:
  "fcEndpoint (applyDefaults c) = fcEndpoint c" "fcJobID (applyDefaults c) = fcJobID c"
  by (simp_all add: applyDefaults_def Let_def)

lemma runJob_cases:
  assumes "runJob R H hset dbOk nanos now w rs tel ms cfg job st = Finished st'"
  obtains rep where "getJob (jID job) st' = Some (job\<lparr>jStatus := JobCompleted, jEndedAt := Some now, jReport := Some rep\<rparr>)"
      "submissions st' = (case submissions st of None \<Rightarrow> None | Some rows \<Rightarrow>
         Some (if dbOk then AList.update (jID job) (officialRow rep) rows else rows))"
  | err where "getJob (jID job) st' = Some (job\<lparr>jStatus := JobAborted, jEndedAt := Some now, jError := err\<rparr>)"
      "submissions st' = submissions st"
  using assms
  by (auto simp: runJob_def Let_def recoverJob_def split: option.splits sum.splits if_splits)

lemma rehydrate_getJob:
  assumes "\<forall>(k, e) \<in> set es. \<forall>job. e = Some job \<longrightarrow> jID job = k" "distinct (map fst es)"
  shows "getJob j (rehydrate now es st) =
     (case map_of es j of Some (Some job) \<Rightarrow> Some (sanitize now job) | _ \<Rightarrow> getJob j st)"
  using assms
proof (induction es arbitrary: st)
  case (Cons e es)
  obtain k v where e: "e = (k, v)" by fastforce
  have sid: "jID (sanitize now job) = jID job" for job by (simp add: sanitize_def)
  have absent: "map_of es k = None" using Cons.prems(2) e by (simp add: map_of_eq_None_iff)
  have up: "getJob k' (st\<lparr>jobStore := AList.update i x (jobStore st)\<rparr>) = (if k' = i then Some x else getJob k' st)"
    "getJob k' (st\<lparr>redisJobs := r, jobStore := AList.update i x (jobStore st)\<rparr>) = (if k' = i then Some x else getJob k' st)" for k' i x r
    by (simp_all add: getJob_def gomap_simps)
  have ih: "getJob j (rehydrate now es st') = (case map_of es j of Some (Some job) \<Rightarrow> Some (sanitize now job) | _ \<Rightarrow> getJob j st')" for st'
    using Cons by auto
  show ?case
    using Cons.prems(1) absent by (cases v) (auto simp: e ih up sid Let_def split: option.splits)
qed (simp add: getJob_def)

lemma sanitize_terminal: "jStatus (sanitize now job) \<noteq> JobRunning \<and> jStatus (sanitize now job) \<noteq> JobPending"
  by (auto simp: sanitize_def job_consts)

section \<open>Properties\<close>


definition job8 :: Job where
  "job8 = \<lparr>jID = ''job-0001'', jContestantID = ''alice'', jStatus = JobPending, jStartedAt = 5, jEndedAt = None, jReport = None, jError = []\<rparr>"

definition master0 :: Master where
  "master0 = \<lparr>jobStore = [], redisJobs = Some [], cancelled = [], submissions = Some []\<rparr>"

lemma cfg5_bots: "\<exists>bots. buildBots lcg_ops 0 cfg5 = Some bots"
proof -
  have "buildBots lcg_ops 0 cfg5 \<noteq> None" by code_simp
  then show ?thesis by blast
qed


text \<open>a job identifier of fewer than 8 bytes takes the master down. The goroutine slices the
  identifier for a log line, the deferred recovery slices it again, and that second panic is not
  recovered; \<^verbatim>\<open>handleRun\<close> accepts such an identifier from the request.\<close>

lemma short_job_id_crashes_master:
  assumes "length (jID job) < 8"
  shows "runJob R H hset dbOk nanos now w rs tel ms cfg job st = Crash"
  using assms by (auto simp: runJob_def Let_def recoverJob_def shortID_def split: option.splits)

lemma short_job_id_crashes_master_witness:
  "\<exists>cfg job st. fst (handleRun ''POST'' ''u'' 1 True (Some (cfg5\<lparr>fcJobID := ''job-1''\<rparr>)) master0) = Response 202 (Inr (cfg, job)) \<and>
     runJob lcg_ops unit_hist True True 0 9 2 twoShards None 100 cfg job st = Crash"
proof -
  obtain cfg job where h: "fst (handleRun ''POST'' ''u'' 1 True (Some (cfg5\<lparr>fcJobID := ''job-1''\<rparr>)) master0) = Response 202 (Inr (cfg, job))"
    and "jID job = ''job-1''"
    by (simp add: handleRun_def Let_def cfg5_def)
  then have "length (jID job) < 8" by simp
  from short_job_id_crashes_master [OF this] h show ?thesis by blast
qed

text \<open>after a restart no job is left active: every job that was read back is completed or
  aborted, jobs that had ended come back unchanged, and entries that do not decode are skipped.\<close>

lemma restart_leaves_no_active_job:
  assumes "redisJobs st = Some es" "\<forall>(k, e) \<in> set es. \<forall>job. e = Some job \<longrightarrow> jID job = k" "distinct (map fst es)" "jobStore st = []"
  shows "\<forall>j job. getJob j (rehydrateFromRedis now True st) = Some job \<longrightarrow>
     jStatus job \<noteq> JobRunning \<and> jStatus job \<noteq> JobPending \<and>
     (\<exists>old. map_of es j = Some (Some old) \<and> (jStatus old \<in> {JobCompleted, JobAborted} \<longrightarrow> job = old))"
proof (intro allI impI)
  fix j job assume "getJob j (rehydrateFromRedis now True st) = Some job"
  then have "(case map_of es j of Some (Some old) \<Rightarrow> Some (sanitize now old) | _ \<Rightarrow> getJob j st) = Some job"
    using rehydrate_getJob [OF assms(2,3)] assms(1) by (simp add: rehydrateFromRedis_def)
  moreover have "getJob j st = None" using assms(4) by (simp add: getJob_def)
  ultimately obtain old where "map_of es j = Some (Some old)" "job = sanitize now old" by (auto split: option.splits)
  then show "jStatus job \<noteq> JobRunning \<and> jStatus job \<noteq> JobPending \<and>
     (\<exists>old. map_of es j = Some (Some old) \<and> (jStatus old \<in> {JobCompleted, JobAborted} \<longrightarrow> job = old))"
    using sanitize_terminal [of now old] by (auto simp: sanitize_def job_consts)
qed

lemma restart_leaves_no_active_job_witness:
  "jStatus (the (getJob ''job-0001'' (rehydrateFromRedis 7 True (master0\<lparr>redisJobs := Some [(''job-0001'', Some job8)]\<rparr>)))) \<noteq> JobPending"
proof -
  let ?st = "master0\<lparr>redisJobs := Some [(''job-0001'', Some job8)]\<rparr>"
  have "getJob ''job-0001'' (rehydrateFromRedis 7 True ?st) = Some (sanitize 7 job8)"
    by (simp add: rehydrateFromRedis_def getJob_def sanitize_def job8_def master0_def job_consts Let_def)
  then show ?thesis
    using restart_leaves_no_active_job [of ?st "[(''job-0001'', Some job8)]" 7] by (simp add: job8_def master0_def)
qed

text \<open>the answer of a cancellation can be revoked: \<^verbatim>\<open>handleCancel\<close> answers that a running job is
  aborted, and a goroutine that already has the answers of all workers then stores it as completed.\<close>

lemma cancelled_job_can_complete:
  "\<exists>st1. handleCancel ''DELETE'' ''/cancel/job-0001'' True 6
       (replaceJob True (job8\<lparr>jStatus := JobRunning\<rparr>) master0) = (Response 200 ''aborted'', st1) \<and>
     map_option jStatus (getJob ''job-0001'' st1) = Some JobAborted \<and>
     map_option jStatus (getJob ''job-0001''
       (replaceJob True (job8\<lparr>jStatus := JobCompleted, jEndedAt := Some 9, jReport := Some rep\<rparr>) st1)) = Some JobCompleted"
proof -
  have "getJob ''job-0001'' (replaceJob True (job8\<lparr>jStatus := JobRunning\<rparr>) master0) = Some (job8\<lparr>jStatus := JobRunning\<rparr>)"
    by (simp add: job8_def)
  then show ?thesis by (simp add: handleCancel_def job8_def Let_def)
qed


definition rep0 :: FleetReport where
  "rep0 = \<lparr>rpStatus = ''completed'', rpNumBots = 5, rpTotalOrders = 50, rpOrdersSent = 50, rpOrdersFailed = 0, rpDurationMs = 10,
     rpTPS = Some 5000, rpStrategyBreakdown = [], rpP50Us = 100, rpP90Us = 200, rpP99Us = 300, rpMaxUs = 400,
     rpCorrectnessScore = 100, rpKafkaUnavailable = False\<rparr>"


end
