(* ===== verification/Jitter.thy ===== *)
theory Jitter
  imports BG_Prelude
begin

text \<open>
  Buffers keyed by sequence numbers, which both consumers of engine events use to wait for the next number:
  \<open>buffered ev g b\<close> says that the buffer holds the events \<open>ev\<close> of numbers from \<open>g\<close> on, each once.
\<close>

lemma fst_set_update: "fst ` set (AList.update k v m) = insert k (fst ` set m)"
  by (induction m) auto

lemma fst_set_delete: "fst ` set (AList.delete k m) = fst ` set m - {k}"
  by (induction m) auto

lemma update_new: "k \<notin> fst ` set b \<Longrightarrow> AList.update k v b = b @ [(k, v)]"
  by (induction b) auto

definition buffered :: "(int \<Rightarrow> 'e) \<Rightarrow> int \<Rightarrow> (int \<times> 'e) list \<Rightarrow> bool" where
  "buffered ev g b \<longleftrightarrow> distinct (gokeys b) \<and> (\<forall>(k, e) \<in> set b. e = ev k \<and> g \<le> k)"

lemma buffered_map_of: "buffered ev g b \<Longrightarrow> map_of b k = Some e \<Longrightarrow> e = ev k \<and> k \<in> fst ` set b"
  by (force simp: buffered_def dest: map_of_SomeD)

lemma buffered_update: "buffered ev g b \<Longrightarrow> g \<le> k \<Longrightarrow> buffered ev g (AList.update k (ev k) b)"
  by (auto simp: buffered_def distinct_update dest!: set_updateD)

lemma length_delete:
  "distinct (gokeys b) \<Longrightarrow> k \<in> fst ` set b \<Longrightarrow> Suc (length (AList.delete k b)) = length b"
proof (induction b)
  case (Cons x b)
  then show ?case using delete_idem [of k b] by (cases "fst x = k") (auto simp: image_iff)
qed simp

lemma buffered_delete: "buffered ev g b \<Longrightarrow> buffered ev (g + 1) (AList.delete g b)"
  by (auto simp: buffered_def distinct_delete AList.delete_eq distinct_map_filter)

lemma buffered_length:
  assumes "buffered ev g b" "fst ` set b = set p - {..<g}" "distinct p" "set p \<subseteq> {1..int n}" "{1..<g} \<subseteq> set p" "1 \<le> g"
  shows "int (length b) = int (length p) - (g - 1)" and "length p \<le> n"
proof -
  have "length b = card (set p - {..<g})" using assms(1,2) distinct_card [of "gokeys b"] by (simp add: buffered_def)
  also have "set p - {..<g} = set p - {1..<g}" using assms(4) by auto
  also have "card \<dots> = length p - nat (g - 1)"
    using card_Diff_subset [of "{1..<g}" "set p"] assms(3,5) distinct_card [of p] by simp
  finally have "length b = length p - nat (g - 1)" .
  moreover have "nat (g - 1) \<le> length p"
    using card_mono [of "set p" "{1..<g}"] assms(3,5) distinct_card [of p] by simp
  ultimately show "int (length b) = int (length p) - (g - 1)" using assms(6) by (simp add: of_nat_diff)
  show "length p \<le> n" using card_mono [of "{1..int n}" "set p"] assms(3,4) distinct_card [of p] by simp
qed

lemma gap_le: "{1..<g} \<subseteq> set p \<Longrightarrow> set p \<subseteq> {1..int n} \<Longrightarrow> g \<le> int n + 1"
proof (rule ccontr)
  assume a: "{1..<g} \<subseteq> set p" "set p \<subseteq> {1..int n}" "\<not> g \<le> int n + 1"
  then have "int n + 1 \<in> {1..<g}" by simp
  then have "int n + 1 \<in> {1..int n}" using a(1,2) by blast
  then show False by simp
qed

end
