(* ===== verification/Telemetry.thy ===== *)
theory Telemetry
  imports Shadow_Perfect Jitter
begin

text \<open>
  \<^verbatim>\<open>bot-fleet/telemetry/consumer.go\<close>: the consumer that puts the events of the contestant's engine back
  into the engine's order before the validator sees them. A histogram is the list of the values recorded
  in it. \<open>delivered\<close> is a ghost field: the sequence numbers handed to the validator, latest first. The loop
  of \<^verbatim>\<open>drainJitterBuffer\<close> may run on for ever, so it takes fuel; \<open>None\<close> means it has not returned.
\<close>

section \<open>State\<close>

datatype cevent =
    CAck int string int int \<comment> \<open>order, status, latency, engine latency\<close>
  | CFill int int int int \<comment> \<open>order, quantity, price, counterparty\<close>

datatype kbody =
    KOrder int string string int int
  | KSeq int cevent \<comment> \<open>an acknowledgement or a fill with its engine sequence number\<close>
  | KWorkerDone
  | KOther \<comment> \<open>of another type, or its event does not decode\<close>

datatype krecord =
    KUndecodable \<comment> \<open>the envelope does not decode\<close>
  | KRecord string kbody

record 't Consumer =
  cjobID :: string
  numWorkers :: nat
  hist :: "int list"
  engineHist :: "int list"
  orderCount :: int
  fillCount :: int
  workersDone :: nat
  cvalidator :: "'t Validator"
  nextSeqID :: int
  jitterBuffer :: "(int \<times> cevent) list"
  delivered :: "int list"

definition jitterGapThreshold :: nat where "jitterGapThreshold = 100"

definition NewConsumer :: "string \<Rightarrow> nat \<Rightarrow> 't Consumer" where
  "NewConsumer j n = \<lparr>cjobID = j, numWorkers = n, hist = [], engineHist = [], orderCount = 0, fillCount = 0, workersDone = 0,
     cvalidator = NewValidator, nextSeqID = 1, jitterBuffer = [], delivered = []\<rparr>"

section \<open>Delivery\<close>

definition handleEvent :: "'t rbt_ops \<Rightarrow> cevent \<Rightarrow> 't Consumer \<Rightarrow> 't Consumer" where
  "handleEvent T e c =
     (case e of
        CAck orderID status latencyNs engineNs \<Rightarrow>
          let c1 = c\<lparr>hist := hist c @ [latencyNs]\<rparr>;
              c2 = (if engineNs > 0 then c1\<lparr>engineHist := engineHist c1 @ [engineNs]\<rparr> else c1) in
          c2\<lparr>orderCount := wrap64 (orderCount c2 + 1), cvalidator := ProcessAck T orderID status (cvalidator c2)\<rparr>
      | CFill orderID qty price matchedWith \<Rightarrow>
          c\<lparr>fillCount := wrap64 (fillCount c + 1), cvalidator := ProcessFill T orderID qty price [matchedWith] (cvalidator c)\<rparr>)"

definition takeEvent :: "'t rbt_ops \<Rightarrow> int \<Rightarrow> cevent \<Rightarrow> 't Consumer \<Rightarrow> 't Consumer" where
  \<comment> \<open>delete the event from the buffer and handle it\<close>
  "takeEvent T seq e c =
     handleEvent T e (c\<lparr>jitterBuffer := AList.delete seq (jitterBuffer c), delivered := seq # delivered c\<rparr>)"

fun drainJitterBuffer :: "'t rbt_ops \<Rightarrow> nat \<Rightarrow> 't Consumer \<Rightarrow> 't Consumer option" where
  "drainJitterBuffer T 0 c = None"
| "drainJitterBuffer T (Suc fuel) c =
     (case map_of (jitterBuffer c) (nextSeqID c) of
        None \<Rightarrow>
          if jitterGapThreshold \<le> length (jitterBuffer c)
          then drainJitterBuffer T fuel (c\<lparr>nextSeqID := wrap64 (nextSeqID c + 1)\<rparr>)
          else Some c
      | Some e \<Rightarrow>
          let c1 = takeEvent T (nextSeqID c) e c in
          drainJitterBuffer T fuel (c1\<lparr>nextSeqID := wrap64 (nextSeqID c1 + 1)\<rparr>))"

definition processBody :: "'t rbt_ops \<Rightarrow> nat \<Rightarrow> kbody \<Rightarrow> 't Consumer \<Rightarrow> 't Consumer option" where
  \<comment> \<open>the switch on the type of the event\<close>
  "processBody T fuel b c =
     (case b of
        KOrder i ty sd p q \<Rightarrow> Some (c\<lparr>cvalidator := ProcessOrder T i ty sd p q (cvalidator c)\<rparr>)
      | KSeq seq e \<Rightarrow> drainJitterBuffer T fuel (c\<lparr>jitterBuffer := AList.update seq e (jitterBuffer c)\<rparr>)
      | KWorkerDone \<Rightarrow> Some (c\<lparr>workersDone := workersDone c + 1\<rparr>)
      | KOther \<Rightarrow> Some c)"

definition processRecord :: "'t rbt_ops \<Rightarrow> nat \<Rightarrow> krecord \<Rightarrow> 't Consumer \<Rightarrow> 't Consumer option" where
  "processRecord T fuel r c =
     (case r of KUndecodable \<Rightarrow> Some c
      | KRecord j b \<Rightarrow> if j \<noteq> cjobID c then Some c else processBody T fuel b c)"

definition flushRemainingBuffer :: "'t rbt_ops \<Rightarrow> 't Consumer \<Rightarrow> 't Consumer" where
  "flushRemainingBuffer T c =
     (if jitterBuffer c = [] then c
      else fold (\<lambda>seq c. case map_of (jitterBuffer c) seq of Some e \<Rightarrow> takeEvent T seq e c | None \<Rightarrow> c)
             (sort (gokeys (jitterBuffer c))) c)"

fun consumeRecords :: "'t rbt_ops \<Rightarrow> nat \<Rightarrow> krecord list \<Rightarrow> 't Consumer \<Rightarrow> 't Consumer option" where
  "consumeRecords T fuel [] c = Some c"
| "consumeRecords T fuel (r # rs) c =
     (case processRecord T fuel r c of None \<Rightarrow> None | Some c' \<Rightarrow> consumeRecords T fuel rs c')"

definition Consume :: "'t rbt_ops \<Rightarrow> nat \<Rightarrow> krecord list \<Rightarrow> 't Consumer \<Rightarrow> (rat \<times> 't Consumer) option" where
  \<comment> \<open>the records until the quiet period, the flush and the score\<close>
  "Consume T fuel rs c =
     (case consumeRecords T fuel rs c of None \<Rightarrow> None
      | Some c1 \<Rightarrow>
          let c2 = flushRemainingBuffer T c1 in
          case GetCorrectnessScore (cvalidator c2) of (score, v) \<Rightarrow> Some (score, c2\<lparr>cvalidator := v\<rparr>))"

section \<open>Order of delivery\<close>

lemma handleEvent_frame [simp]:
  "jitterBuffer (handleEvent T e c) = jitterBuffer c" "nextSeqID (handleEvent T e c) = nextSeqID c"
  "delivered (handleEvent T e c) = delivered c" "cjobID (handleEvent T e c) = cjobID c"
  by (simp_all add: handleEvent_def Let_def split: cevent.splits)

lemma takeEvent_frame [simp]:
  "jitterBuffer (takeEvent T s e c) = AList.delete s (jitterBuffer c)" "nextSeqID (takeEvent T s e c) = nextSeqID c"
  "delivered (takeEvent T s e c) = s # delivered c" "cjobID (takeEvent T s e c) = cjobID c"
  by (simp_all add: takeEvent_def)

definition order_ok :: "'t Consumer \<Rightarrow> bool" where
  \<comment> \<open>what was delivered so far was strictly increasing and is behind the next number\<close>
  "order_ok c \<longleftrightarrow> sorted_wrt (>) (delivered c) \<and> (\<forall>s \<in> set (delivered c). s < nextSeqID c) \<and>
     distinct (gokeys (jitterBuffer c))"

lemma order_ok_advance: "order_ok c \<Longrightarrow> order_ok (c\<lparr>nextSeqID := nextSeqID c + 1\<rparr>)"
  by (force simp: order_ok_def)

lemma order_ok_take: "order_ok c \<Longrightarrow> order_ok ((takeEvent T (nextSeqID c) e c)\<lparr>nextSeqID := nextSeqID c + 1\<rparr>)"
  by (force simp: order_ok_def distinct_delete)

lemma drain_order_ok:
  assumes "drainJitterBuffer T fuel c = Some c'" "order_ok c" "0 \<le> nextSeqID c" "nextSeqID c + int fuel < 2 ^ 63"
  shows "order_ok c' \<and> 0 \<le> nextSeqID c' \<and> nextSeqID c' < nextSeqID c + int fuel"
  using assms
proof (induction fuel arbitrary: c)
  case (Suc fuel)
  have w: "wrap64 (nextSeqID c + 1) = nextSeqID c + 1" using Suc.prems(3,4) by (intro wrap64_id) (simp add: in64_def)
  show ?case
  proof (cases "map_of (jitterBuffer c) (nextSeqID c)")
    case None
    show ?thesis
    proof (cases "jitterGapThreshold \<le> length (jitterBuffer c)")
      case True
      then show ?thesis using Suc.IH [of "c\<lparr>nextSeqID := nextSeqID c + 1\<rparr>"] Suc.prems None w order_ok_advance [OF Suc.prems(2)] by simp
    qed (use Suc.prems None in auto)
  next
    case (Some e)
    then show ?thesis
      using Suc.IH [of "(takeEvent T (nextSeqID c) e c)\<lparr>nextSeqID := nextSeqID c + 1\<rparr>"] Suc.prems w
        order_ok_take [OF Suc.prems(2), of T e] by (simp add: Let_def)
  qed
qed simp

text \<open>The loop returns when no buffered number is behind the next one.\<close>

lemma drain_returns:
  assumes "\<forall>s \<in> set (gokeys (jitterBuffer c)). nextSeqID c \<le> s \<and> s < nextSeqID c + int n"
    and "0 \<le> nextSeqID c" "nextSeqID c + int n < 2 ^ 62" "n < fuel"
  shows "\<exists>c'. drainJitterBuffer T fuel c = Some c' \<and> length (jitterBuffer c') < jitterGapThreshold \<and>
     map_of (jitterBuffer c') (nextSeqID c') = None \<and> (\<forall>s \<in> set (gokeys (jitterBuffer c')). nextSeqID c' < s)"
  using assms
proof (induction fuel arbitrary: c n)
  case (Suc fuel)
  have w: "wrap64 (nextSeqID c + 1) = nextSeqID c + 1" using Suc.prems(2,3) by (intro wrap64_id) (simp add: in64_def)
  show ?case
  proof (cases n)
    case 0
    then have "jitterBuffer c = []" using Suc.prems(1) by (cases "jitterBuffer c") fastforce+
    then show ?thesis by (simp add: jitterGapThreshold_def)
  next
    case n: (Suc m)
    show ?thesis
    proof (cases "map_of (jitterBuffer c) (nextSeqID c)")
      case None
      then have "nextSeqID c \<notin> set (gokeys (jitterBuffer c))" by (simp add: map_of_eq_None_iff)
      then have gt: "\<forall>s \<in> set (gokeys (jitterBuffer c)). nextSeqID c < s" using Suc.prems(1) by force
      show ?thesis
      proof (cases "jitterGapThreshold \<le> length (jitterBuffer c)")
        case True
        have "\<forall>s \<in> set (gokeys (jitterBuffer c)). nextSeqID c + 1 \<le> s \<and> s < nextSeqID c + 1 + int m"
          using gt Suc.prems(1) n by fastforce
        then show ?thesis using Suc.IH [of "c\<lparr>nextSeqID := nextSeqID c + 1\<rparr>" m] Suc.prems(2-4) None True n w by simp
      next
        case False
        then show ?thesis using None gt by auto
      qed
    next
      case (Some e)
      have "\<forall>s \<in> set (gokeys (AList.delete (nextSeqID c) (jitterBuffer c))). nextSeqID c + 1 \<le> s \<and> s < nextSeqID c + 1 + int m"
        using Suc.prems(1) n by (auto simp: AList.delete_eq)
      then show ?thesis
        using Suc.IH [of "(takeEvent T (nextSeqID c) e c)\<lparr>nextSeqID := nextSeqID c + 1\<rparr>" m] Suc.prems(2-4) Some n w
        by (simp add: Let_def)
    qed
  qed
qed simp

text \<open>It does not return while 100 buffered numbers are all behind the next one.\<close>

lemma drain_stale:
  assumes "jitterGapThreshold \<le> length (jitterBuffer c)" "\<forall>s \<in> set (gokeys (jitterBuffer c)). s < nextSeqID c"
    and "0 \<le> nextSeqID c" "nextSeqID c + int fuel < 2 ^ 63"
  shows "drainJitterBuffer T fuel c = None"
  using assms
proof (induction fuel arbitrary: c)
  case (Suc fuel)
  have w: "wrap64 (nextSeqID c + 1) = nextSeqID c + 1" using Suc.prems(3,4) by (intro wrap64_id) (simp add: in64_def)
  have "map_of (jitterBuffer c) (nextSeqID c) = None" using Suc.prems(2) by (force simp: map_of_eq_None_iff)
  moreover have "\<forall>s \<in> set (gokeys (jitterBuffer c)). s < nextSeqID c + 1" using Suc.prems(2) by force
  ultimately show ?case using Suc.IH [of "c\<lparr>nextSeqID := nextSeqID c + 1\<rparr>"] Suc.prems w by simp
qed simp


section \<open>Whole streams\<close>

lemma drain_accounts:
  assumes "drainJitterBuffer T fuel c = Some c'"
  shows "cjobID c' = cjobID c \<and> set (delivered c') \<union> set (gokeys (jitterBuffer c')) = set (delivered c) \<union> set (gokeys (jitterBuffer c))"
  using assms
proof (induction fuel arbitrary: c)
  case (Suc fuel)
  show ?case
  proof (cases "map_of (jitterBuffer c) (nextSeqID c)")
    case None
    then show ?thesis using Suc.IH [of "c\<lparr>nextSeqID := wrap64 (nextSeqID c + 1)\<rparr>"] Suc.prems by (auto split: if_splits)
  next
    case (Some e)
    then have "nextSeqID c \<in> set (gokeys (jitterBuffer c))" by (metis map_of_eq_None_iff option.distinct(1) list.set_map)
    then show ?thesis
      using Suc.IH [of "(takeEvent T (nextSeqID c) e c)\<lparr>nextSeqID := wrap64 (nextSeqID c + 1)\<rparr>"] Suc.prems Some
      by (auto simp: Let_def AList.delete_eq)
  qed
qed simp

definition seqsOf :: "string \<Rightarrow> krecord list \<Rightarrow> int set" where
  \<comment> \<open>the sequence numbers of a job in a stream\<close>
  "seqsOf j rs = {s. \<exists>e. KRecord j (KSeq s e) \<in> set rs}"

lemma processRecord_accounts:
  assumes "processRecord T fuel r c = Some c'"
  shows "cjobID c' = cjobID c \<and> set (delivered c') \<union> set (gokeys (jitterBuffer c')) =
     set (delivered c) \<union> set (gokeys (jitterBuffer c)) \<union> seqsOf (cjobID c) [r]"
proof (cases "\<exists>s e. r = KRecord (cjobID c) (KSeq s e)")
  case True
  then obtain s e where r: "r = KRecord (cjobID c) (KSeq s e)" by blast
  have "seqsOf (cjobID c) [r] = {s}" using r by (auto simp: seqsOf_def)
  then show ?thesis
    using assms drain_accounts [of T fuel "c\<lparr>jitterBuffer := AList.update s e (jitterBuffer c)\<rparr>" c'] r
    by (auto simp: processRecord_def processBody_def fst_set_update)
next
  case False
  then have "seqsOf (cjobID c) [r] = {}" by (auto simp: seqsOf_def)
  then show ?thesis using assms False
    by (auto simp: processRecord_def processBody_def split: krecord.splits if_splits kbody.splits)
qed

lemma consumeRecords_accounts:
  assumes "consumeRecords T fuel rs c = Some c'"
  shows "set (delivered c') \<union> set (gokeys (jitterBuffer c')) =
     set (delivered c) \<union> set (gokeys (jitterBuffer c)) \<union> seqsOf (cjobID c) rs"
  using assms
proof (induction rs arbitrary: c)
  case Nil
  then show ?case by (simp add: seqsOf_def)
next
  case (Cons r rs)
  then obtain c1 where c1: "processRecord T fuel r c = Some c1" "consumeRecords T fuel rs c1 = Some c'"
    by (auto split: option.splits)
  have "seqsOf (cjobID c) (r # rs) = seqsOf (cjobID c) [r] \<union> seqsOf (cjobID c) rs" by (auto simp: seqsOf_def)
  then show ?case using Cons.IH [OF c1(2)] processRecord_accounts [OF c1(1)] by auto
qed

lemma processRecord_order_ok:
  assumes "processRecord T fuel r c = Some c'" "order_ok c" "0 \<le> nextSeqID c" "nextSeqID c + int fuel < 2 ^ 63"
  shows "order_ok c' \<and> 0 \<le> nextSeqID c' \<and> nextSeqID c' \<le> nextSeqID c + int fuel"
proof (cases "\<exists>s e. r = KRecord (cjobID c) (KSeq s e)")
  case True
  then obtain s e where r: "r = KRecord (cjobID c) (KSeq s e)" by blast
  have "order_ok (c\<lparr>jitterBuffer := AList.update s e (jitterBuffer c)\<rparr>)"
    using assms(2) by (simp add: order_ok_def distinct_update)
  then show ?thesis
    using assms drain_order_ok [of T fuel "c\<lparr>jitterBuffer := AList.update s e (jitterBuffer c)\<rparr>" c'] r
    by (simp add: processRecord_def processBody_def)
next
  case False
  then show ?thesis using assms
    by (auto simp: processRecord_def processBody_def order_ok_def split: krecord.splits if_splits kbody.splits)
qed

lemma consumeRecords_order_ok:
  assumes "consumeRecords T fuel rs c = Some c'" "order_ok c" "0 \<le> nextSeqID c"
    and "nextSeqID c + int (length rs) * int fuel < 2 ^ 63"
  shows "order_ok c'"
  using assms
proof (induction rs arbitrary: c)
  case (Cons r rs)
  then obtain c1 where c1: "processRecord T fuel r c = Some c1" "consumeRecords T fuel rs c1 = Some c'"
    by (auto split: option.splits)
  have bound: "nextSeqID c + (int fuel + int (length rs) * int fuel) < 2 ^ 63" using Cons.prems(4) by (simp add: algebra_simps)
  moreover have "0 \<le> int (length rs) * int fuel" by simp
  ultimately have "nextSeqID c + int fuel < 2 ^ 63" by linarith
  from processRecord_order_ok [OF c1(1) Cons.prems(2,3) this]
  have 1: "order_ok c1" "0 \<le> nextSeqID c1" "nextSeqID c1 \<le> nextSeqID c + int fuel" by auto
  have "nextSeqID c1 + int (length rs) * int fuel < 2 ^ 63" using bound 1(3) by linarith
  from Cons.IH [OF c1(2) 1(1,2) this] show ?case .
qed simp

lemma NewConsumer_order_ok: "order_ok (NewConsumer j n)"
  by (simp add: NewConsumer_def order_ok_def)

section \<open>Flush\<close>

lemma flush_fold:
  assumes "set ks \<subseteq> set (gokeys (jitterBuffer c))" "distinct ks"
  shows "delivered (fold (\<lambda>seq c. case map_of (jitterBuffer c) seq of Some e \<Rightarrow> takeEvent T seq e c | None \<Rightarrow> c) ks c) =
      rev ks @ delivered c
    \<and> set (gokeys (jitterBuffer (fold (\<lambda>seq c. case map_of (jitterBuffer c) seq of Some e \<Rightarrow> takeEvent T seq e c | None \<Rightarrow> c) ks c))) =
      set (gokeys (jitterBuffer c)) - set ks"
  using assms
proof (induction ks arbitrary: c)
  case (Cons k ks)
  then obtain e where e: "map_of (jitterBuffer c) k = Some e"
    by (metis insert_subset list.set(2) map_of_eq_None_iff not_None_eq list.set_map)
  have "set ks \<subseteq> set (gokeys (jitterBuffer (takeEvent T k e c)))"
    using Cons.prems by (auto simp: fst_set_delete)
  from Cons.IH [OF this] show ?case using Cons.prems(2) e by (auto simp: fst_set_delete)
qed simp

lemma flush_delivers:
  assumes "distinct (gokeys (jitterBuffer c))"
  shows "delivered (flushRemainingBuffer T c) = rev (sort (gokeys (jitterBuffer c))) @ delivered c"
    and "jitterBuffer (flushRemainingBuffer T c) = []"
proof -
  note f = flush_fold [of "sort (gokeys (jitterBuffer c))" c T]
  show "delivered (flushRemainingBuffer T c) = rev (sort (gokeys (jitterBuffer c))) @ delivered c"
    using f assms by (auto simp: flushRemainingBuffer_def)
  show "jitterBuffer (flushRemainingBuffer T c) = []"
    using f assms by (auto simp: flushRemainingBuffer_def)
qed


section \<open>Repair of a reordered stream\<close>

lemma handleEvent_commute:
  "handleEvent T e (c\<lparr>nextSeqID := g, jitterBuffer := b, delivered := d\<rparr>) =
   (handleEvent T e c)\<lparr>nextSeqID := g, jitterBuffer := b, delivered := d\<rparr>"
  by (simp add: handleEvent_def Let_def split: cevent.splits)

definition inOrder :: "'t rbt_ops \<Rightarrow> (int \<Rightarrow> cevent) \<Rightarrow> int \<Rightarrow> 't Consumer \<Rightarrow> 't Consumer" where
  \<comment> \<open>the events 1 to m handled in the order of the engine\<close>
  "inOrder T ev m c = fold (\<lambda>k. handleEvent T (ev k)) [1..m] c"

definition at_gap :: "'t rbt_ops \<Rightarrow> (int \<Rightarrow> cevent) \<Rightarrow> 't Consumer \<Rightarrow> int \<Rightarrow> (int \<times> cevent) list \<Rightarrow> 't Consumer" where
  \<comment> \<open>everything before g is handled, b is buffered\<close>
  "at_gap T ev c g b =
     (inOrder T ev (g - 1) c)\<lparr>nextSeqID := g, jitterBuffer := b, delivered := rev [1..g - 1] @ delivered c\<rparr>"

lemma at_gap_fields [simp]:
  "jitterBuffer (at_gap T ev c g b) = b" "nextSeqID (at_gap T ev c g b) = g"
  by (simp_all add: at_gap_def)

lemma inOrder_job [simp]: "cjobID (inOrder T ev m c) = cjobID c"
proof -
  have "cjobID (fold (\<lambda>k. handleEvent T (ev k)) ks c) = cjobID c" for ks by (induction ks arbitrary: c) simp_all
  then show ?thesis by (simp add: inOrder_def)
qed

lemma at_gap_update [simp]:
  "cjobID (at_gap T ev c g b) = cjobID c" "(at_gap T ev c g b)\<lparr>jitterBuffer := b'\<rparr> = at_gap T ev c g b'"
  by (simp_all add: at_gap_def)

lemma at_gap_step:
  assumes "1 \<le> g"
  shows "(takeEvent T g (ev g) (at_gap T ev c g b))\<lparr>nextSeqID := g + 1\<rparr> = at_gap T ev c (g + 1) (AList.delete g b)"
proof -
  have "[1..g] = [1..g - 1] @ [g]" using assms upto_rec2 [of 1 g] by simp
  then have "inOrder T ev g c = handleEvent T (ev g) (inOrder T ev (g - 1) c)" and "rev [1..g] = g # rev [1..g - 1]"
    by (simp_all add: inOrder_def)
  moreover have "takeEvent T g (ev g) (at_gap T ev c g b) =
     (handleEvent T (ev g) (inOrder T ev (g - 1) c))\<lparr>nextSeqID := g, jitterBuffer := AList.delete g b,
        delivered := g # rev [1..g - 1] @ delivered c\<rparr>"
    by (simp add: takeEvent_def at_gap_def handleEvent_commute)
  ultimately show ?thesis by (simp add: at_gap_def)
qed

lemma drain_at_gap:
  assumes "buffered ev g b" "1 \<le> g" "length b < fuel" "g + int fuel < 2 ^ 63"
    and "length b < jitterGapThreshold \<or> g \<in> fst ` set b \<and> length b \<le> jitterGapThreshold"
  shows "\<exists>g' b'. drainJitterBuffer T fuel (at_gap T ev c g b) = Some (at_gap T ev c g' b') \<and> buffered ev g' b' \<and>
     g \<le> g' \<and> {g..<g'} \<subseteq> fst ` set b \<and> g' \<notin> fst ` set b \<and> fst ` set b' = fst ` set b - {..<g'}"
  using assms
proof (induction fuel arbitrary: g b)
  case (Suc fuel)
  have w: "wrap64 (g + 1) = g + 1" using Suc.prems(2,4) by (intro wrap64_id) (simp add: in64_def)
  show ?case
  proof (cases "map_of b g")
    case None
    then have "g \<notin> fst ` set b" by (simp add: map_of_eq_None_iff)
    moreover from this have "length b < jitterGapThreshold" using Suc.prems(5) by simp
    moreover have "fst ` set b = fst ` set b - {..<g}" using Suc.prems(1) by (force simp: buffered_def)
    ultimately show ?thesis using None Suc.prems(1) by (intro exI [of _ g] exI [of _ b]) simp
  next
    case (Some e)
    let ?b = "AList.delete g b"
    have e: "e = ev g" and g: "g \<in> fst ` set b" using buffered_map_of [OF Suc.prems(1) Some] by auto
    have l: "Suc (length ?b) = length b" using Suc.prems(1) g by (intro length_delete) (auto simp: buffered_def)
    have "\<exists>g' b'. drainJitterBuffer T fuel (at_gap T ev c (g + 1) ?b) = Some (at_gap T ev c g' b') \<and> buffered ev g' b' \<and>
        g + 1 \<le> g' \<and> {g + 1..<g'} \<subseteq> fst ` set ?b \<and> g' \<notin> fst ` set ?b \<and> fst ` set b' = fst ` set ?b - {..<g'}"
      using Suc.prems l by (intro Suc.IH buffered_delete) auto
    then obtain g' b' where r: "drainJitterBuffer T fuel (at_gap T ev c (g + 1) ?b) = Some (at_gap T ev c g' b')"
      "buffered ev g' b'" "g + 1 \<le> g'" "{g + 1..<g'} \<subseteq> fst ` set ?b" "g' \<notin> fst ` set ?b" "fst ` set b' = fst ` set ?b - {..<g'}"
      by blast
    have "{g..<g'} \<subseteq> fst ` set b" proof
      fix x assume "x \<in> {g..<g'}"
      then show "x \<in> fst ` set b" using r(4) g by (cases "x = g") (auto simp: fst_set_delete subset_eq)
    qed
    moreover have "g' \<notin> fst ` set b" using r(3,5) by (simp add: fst_set_delete)
    moreover have "fst ` set b' = fst ` set b - {..<g'}" using r(3,6) by (auto simp: fst_set_delete)
    ultimately show ?thesis
      using Some e r(1-3) w at_gap_step [OF Suc.prems(2), of T ev c b]
      by (intro exI [of _ g'] exI [of _ b']) (simp add: Let_def)
  qed
qed simp


definition seqRecords :: "string \<Rightarrow> (int \<Rightarrow> cevent) \<Rightarrow> int list \<Rightarrow> krecord list" where
  \<comment> \<open>the events of one job in the order of their arrival\<close>
  "seqRecords j ev ks = map (\<lambda>k. KRecord j (KSeq k (ev k))) ks"

lemma not_behind:
  assumes "distinct (p @ k # s)" "set (p @ k # s) = {1..int n}" "{1..<g} \<subseteq> set p" "g \<notin> set p" "1 \<le> g"
    and "\<forall>i < length (p @ k # s). int i < (p @ k # s) ! i + 99" and "k \<noteq> g"
  shows "g < k \<and> int (length p) + 1 < g + 99"
proof
  have "1 \<le> k" "k \<notin> set p" using assms(1,2) by auto
  then show "g < k" using assms(3,7) by (meson atLeastLessThan_iff linorder_neqE subsetD)
  have "k \<le> int n" using assms(2) by auto
  then have "g \<in> set (p @ k # s)" using \<open>g < k\<close> assms(2,5) by auto
  then have "g \<in> set s" using assms(4,7) by simp
  then obtain i where i: "i < length s" "s ! i = g" by (auto simp: in_set_conv_nth)
  have "int (length p + Suc i) < (p @ k # s) ! (length p + Suc i) + 99"
    using assms(6) [rule_format, of "length p + Suc i"] i(1) by simp
  then show "int (length p) + 1 < g + 99" using i(2) by (simp add: nth_append)
qed

lemma consume_from_gap:
  assumes "distinct (p @ ks)" "set (p @ ks) = {1..int n}" "\<forall>i < length (p @ ks). int i < (p @ ks) ! i + 99"
    and "{1..<g} \<subseteq> set p" "g \<notin> set p" "1 \<le> g" "buffered ev g b" "fst ` set b = set p - {..<g}"
    and "n < fuel" "int n + int fuel < 2 ^ 62" "cjobID c = j"
  shows "consumeRecords T fuel (seqRecords j ev ks) (at_gap T ev c g b) = Some (at_gap T ev c (int n + 1) [])"
  using assms
proof (induction ks arbitrary: p g b)
  case Nil
  have "\<not> g \<le> int n" using Nil.prems(2,5,6) by auto
  moreover have "g \<le> int n + 1" using Nil.prems(2,4) by (intro gap_le) auto
  ultimately have "g = int n + 1" by simp
  moreover have "fst ` set b = {}" using Nil.prems(2,8) \<open>g = int n + 1\<close> by auto
  ultimately show ?case by (simp add: seqRecords_def)
next
  case (Cons k ks)
  let ?b = "AList.update k (ev k) b" and ?p = "p @ [k]"
  have k: "k \<notin> set p" "1 \<le> k" using Cons.prems(1,2) by auto
  have gk: "g \<le> k" using Cons.prems(4) k by (meson atLeastLessThan_iff not_le subsetD)
  have buf: "buffered ev g ?b" using Cons.prems(7) gk by (rule buffered_update)
  have keys: "fst ` set ?b = set ?p - {..<g}" using Cons.prems(8) gk by (auto simp: fst_set_update)
  have sub: "{1..<g} \<subseteq> set ?p" "set ?p \<subseteq> {1..int n}" "distinct ?p" using Cons.prems(1,2,4) by auto
  note len = buffered_length [OF buf keys sub(3,2,1) Cons.prems(6)]
  have "int (length p) < k + 99" using Cons.prems(3) by (auto dest: spec [of _ "length p"])
  then have thr: "length ?b < jitterGapThreshold \<or> g \<in> fst ` set ?b \<and> length ?b \<le> jitterGapThreshold"
    using len(1) not_behind [OF Cons.prems(1,2,4-6,3)] by (cases "k = g") (auto simp: jitterGapThreshold_def fst_set_update)
  have "g \<le> int n + 1" using sub(1,2) by (rule gap_le)
  then have "g + int fuel < 2 ^ 63" "length ?b < fuel" using len Cons.prems(6,9,10) by simp_all
  from drain_at_gap [OF buf Cons.prems(6) this(2,1) thr, of T c]
  obtain g' b' where d: "drainJitterBuffer T fuel (at_gap T ev c g ?b) = Some (at_gap T ev c g' b')"
    "buffered ev g' b'" "g \<le> g'" "{g..<g'} \<subseteq> fst ` set ?b" "g' \<notin> fst ` set ?b" "fst ` set b' = fst ` set ?b - {..<g'}"
    by blast
  have "{1..<g'} \<subseteq> {1..<g} \<union> {g..<g'}" by auto
  then have "{1..<g'} \<subseteq> set ?p" using d(4) sub(1) unfolding keys by blast
  moreover have "g' \<notin> set ?p" using d(3,5) unfolding keys by simp
  moreover have "fst ` set b' = set ?p - {..<g'}" using d(3,6) unfolding keys by auto
  ultimately have "consumeRecords T fuel (seqRecords j ev ks) (at_gap T ev c g' b') = Some (at_gap T ev c (int n + 1) [])"
    using Cons.prems(1-3,6,9-11) d(2,3) by (intro Cons.IH [of ?p]) auto
  moreover have "processRecord T fuel (KRecord j (KSeq k (ev k))) (at_gap T ev c g b) = Some (at_gap T ev c g' b')"
    using d(1) Cons.prems(11) by (simp add: processRecord_def processBody_def)
  ultimately show ?case by (simp add: seqRecords_def)
qed


section \<open>Concrete inputs of the witnesses\<close>

definition jev :: "int \<Rightarrow> cevent" where
  "jev k = CAck (4294967296 + k) ''accepted'' 1000 0"

lemma swapped_run: "\<exists>c. consumeRecords alist_ops 5 (seqRecords ''job'' jev [2, 1, 3]) (NewConsumer ''job'' 1) = Some c"
  by (simp add: seqRecords_def processRecord_def processBody_def NewConsumer_def eval_nat_numeral
      wrap64_def       jitterGapThreshold_def Let_def)

section \<open>Properties\<close>



text \<open>A stream in which no event is late by more than 99 places is repaired completely: the consumer ends in
  the state that handling the events in the order of the engine gives, with an empty buffer.\<close>

lemma reordered_stream_is_repaired:
  assumes "distinct ks" "set ks = {1..int n}" "\<forall>i < length ks. int i < ks ! i + 99"
    and "n < fuel" "int n + int fuel < 2 ^ 62"
  shows "consumeRecords T fuel (seqRecords j ev ks) (NewConsumer j w) =
     Some ((inOrder T ev (int n) (NewConsumer j w))\<lparr>nextSeqID := int n + 1, jitterBuffer := [], delivered := rev [1..int n]\<rparr>)"
proof -
  have "NewConsumer j w = at_gap T ev (NewConsumer j w) 1 []" by (simp add: at_gap_def inOrder_def NewConsumer_def)
  moreover have "consumeRecords T fuel (seqRecords j ev ks) (at_gap T ev (NewConsumer j w) 1 []) =
      Some (at_gap T ev (NewConsumer j w) (int n + 1) [])"
    using assms by (intro consume_from_gap [of "[]"]) (simp_all add: buffered_def NewConsumer_def)
  ultimately show ?thesis by (simp add: at_gap_def NewConsumer_def)
qed

lemma reordered_stream_is_repaired_witness:
  "consumeRecords alist_ops 5 (seqRecords ''job'' jev [2, 1, 3]) (NewConsumer ''job'' 1) =
     Some ((inOrder alist_ops jev 3 (NewConsumer ''job'' 1))\<lparr>nextSeqID := 4, jitterBuffer := [], delivered := rev [1..3]\<rparr>)"
proof -
  have "set [2, 1, 3] = {1..int 3}" by auto
  from reordered_stream_is_repaired [OF _ this, of 5 alist_ops "''job''" jev 1] show ?thesis
    by (simp add: less_Suc_eq numeral_3_eq_3)
qed



lemma stale_prefix:
  assumes "m < jitterGapThreshold" "int m < nextSeqID c" "jitterBuffer c = []" "0 < fuel" "cjobID c = j"
  shows "consumeRecords T fuel (seqRecords j ev [1..int m]) c = Some (c\<lparr>jitterBuffer := map (\<lambda>k. (k, ev k)) [1..int m]\<rparr>)"
  using assms
proof (induction m)
  case 0
  then show ?case by (simp add: seqRecords_def)
next
  case (Suc m)
  let ?b = "map (\<lambda>k. (k, ev k)) [1..int m]" and ?k = "int m + 1"
  have app: "consumeRecords T fuel (rs @ [r]) c' = Option.bind (consumeRecords T fuel rs c') (processRecord T fuel r)" for rs r c'
    by (induction rs arbitrary: c') (auto split: option.splits)
  have up: "[1..?k] = [1..int m] @ [?k]" using upto_rec2 [of 1 ?k] by simp
  have "AList.update ?k (ev ?k) ?b = map (\<lambda>k. (k, ev k)) [1..?k]" using up by (simp add: update_new image_iff)
  moreover have "map_of (map (\<lambda>k. (k, ev k)) [1..?k]) (nextSeqID c) = None"
    using Suc.prems(2) by (auto simp: map_of_eq_None_iff)
  ultimately have "processRecord T fuel (KRecord j (KSeq ?k (ev ?k))) (c\<lparr>jitterBuffer := ?b\<rparr>) =
      Some (c\<lparr>jitterBuffer := map (\<lambda>k. (k, ev k)) [1..?k]\<rparr>)"
    using Suc.prems by (cases fuel) (simp_all add: processRecord_def processBody_def nat_add_distrib)
  moreover have "consumeRecords T fuel (seqRecords j ev [1..int m]) c = Some (c\<lparr>jitterBuffer := ?b\<rparr>)"
    using Suc by simp
  moreover have "seqRecords j ev [1..?k] = seqRecords j ev [1..int m] @ [KRecord j (KSeq ?k (ev ?k))]"
    using up by (simp add: seqRecords_def)
  moreover have "int (Suc m) = ?k" by simp
  ultimately show ?case by (simp only: app Option.bind.simps)
qed


text \<open>C25: A redelivery hangs the consumer: once it has gone past number 100, receiving the numbers 1 to 100 again
  fills the buffer with events it will never ask for, and \<^verbatim>\<open>drainJitterBuffer\<close> counts upwards without returning.\<close>

theorem redelivery_livelock:
  assumes "100 < nextSeqID c" "jitterBuffer c = []" "cjobID c = j" "nextSeqID c + int fuel < 2 ^ 63"
  shows "consumeRecords T fuel (seqRecords j ev [1..100] @ rs) c = None"
proof (cases fuel)
  case 0
  have "[1..100] = 1 # [2..100 :: int]" using upto_rec1 [of 1 "100 :: int"] by simp
  then show ?thesis using assms 0 by (simp add: seqRecords_def processRecord_def processBody_def)
next
  case (Suc f)
  let ?c = "c\<lparr>jitterBuffer := map (\<lambda>k. (k, ev k)) [1..99]\<rparr>" and ?b = "map (\<lambda>k. (k, ev k)) [1..100 :: int]"
  have app: "consumeRecords T fuel (as @ bs) c' = Option.bind (consumeRecords T fuel as c') (consumeRecords T fuel bs)" for as bs c'
    by (induction as arbitrary: c') (auto split: option.splits)
  have up: "[1..100] = [1..99] @ [100 :: int]" using upto_rec2 [of 1 "100 :: int"] by simp
  have 1: "consumeRecords T fuel (seqRecords j ev [1..99]) c = Some ?c"
    using stale_prefix [of 99 c fuel j T ev] assms Suc by (simp add: jitterGapThreshold_def)
  have "AList.update 100 (ev 100) (map (\<lambda>k. (k, ev k)) [1..99 :: int]) = ?b"
    using up by (simp add: update_new image_iff)
  moreover have "drainJitterBuffer T fuel (c\<lparr>jitterBuffer := ?b\<rparr>) = None"
    using assms by (intro drain_stale) (auto simp: jitterGapThreshold_def)
  ultimately have "processRecord T fuel (KRecord j (KSeq 100 (ev 100))) ?c = None"
    using assms(3) by (simp add: processRecord_def processBody_def)
  then show ?thesis using 1 by (simp add: up app seqRecords_def)
qed

theorem redelivery_livelock_witness:
  "consumeRecords alist_ops 1000000 (seqRecords ''job'' jev [1..100] @ [])
     ((NewConsumer ''job'' 1 :: alist_tree Consumer)\<lparr>nextSeqID := 101\<rparr>) = None"
  by (rule redelivery_livelock) (simp_all add: NewConsumer_def)

end
