(* ===== verification/Producer.thy ===== *)
theory Producer
  imports Telemetry Go_Strings "HOL-Library.Sublist"
begin

text \<open>
  \<^verbatim>\<open>bot-fleet/telemetry/producer.go\<close> and \<^verbatim>\<open>events.go\<close>: what a worker publishes about its orders. The Kafka client is
  the parameter \<open>K :: 'k kafka_ops\<close>, the JSON encoder the parameter \<open>mar\<close> (\<open>Inl\<close>: it failed). \<open>kafka_client\<close> states what the
  documentation of the client promises: records with one key go to one partition and stay in their order
  there, some may be lost, and a flush that succeeds leaves nothing behind.
  The lemmas show what the keys and the flush are for: the events of one order reach the log in the order in which
  they were published, and the marker of a worker comes after all of its events.
\<close>

section \<open>Events\<close>

record OrderEvent =
  oe_JobID :: string
  oe_WorkerID :: string
  oe_BotID :: string
  oe_OrderID :: int
  oe_OrderType :: string
  oe_Side :: string
  oe_Price :: int
  oe_Quantity :: int
  oe_SentAtNs :: int

record AckEvent =
  ae_JobID :: string
  ae_WorkerID :: string
  ae_BotID :: string
  ae_OrderID :: int
  ae_Status :: string
  ae_LatencyNs :: int
  ae_ReceivedNs :: int
  ae_EngineSeqID :: int
  ae_EngineLatencyNs :: int

record FillEvent =
  fe_JobID :: string
  fe_WorkerID :: string
  fe_OrderID :: int
  fe_FilledQty :: int
  fe_FilledPrice :: int
  fe_MatchedWith :: int
  fe_EngineSeqID :: int

record WorkerDoneEvent =
  we_JobID :: string
  we_WorkerID :: string
  we_TotalSent :: int
  we_TotalFailed :: int

datatype event = OrderSent OrderEvent | OrderAck AckEvent | Filled FillEvent | WorkerDone WorkerDoneEvent

fun wireRecord :: "event \<Rightarrow> krecord" where
  \<comment> \<open>what the consumer decodes from the encoding of an event\<close>
  "wireRecord (OrderSent e) = KRecord (oe_JobID e) (KOrder (oe_OrderID e) (oe_OrderType e) (oe_Side e) (oe_Price e) (oe_Quantity e))"
| "wireRecord (OrderAck e) = KRecord (ae_JobID e)
     (KSeq (ae_EngineSeqID e) (CAck (ae_OrderID e) (ae_Status e) (ae_LatencyNs e) (ae_EngineLatencyNs e)))"
| "wireRecord (Filled e) = KRecord (fe_JobID e)
     (KSeq (fe_EngineSeqID e) (CFill (fe_OrderID e) (fe_FilledQty e) (fe_FilledPrice e) (fe_MatchedWith e)))"
| "wireRecord (WorkerDone e) = KRecord (we_JobID e) KWorkerDone"

section \<open>The producer\<close>

definition TopicOrderEvents :: string where "TopicOrderEvents = ''order-events''"

record kmessage =
  km_Topic :: string
  km_Key :: string
  km_Value :: string

record 'k kafka_ops =
  kafka_produce :: "kmessage \<Rightarrow> 'k \<Rightarrow> 'k"
  kafka_flush :: "'k \<Rightarrow> string option \<times> 'k"
  kafka_produceSync :: "kmessage \<Rightarrow> 'k \<Rightarrow> string option \<times> 'k"

definition PublishOrderAsync :: "(event \<Rightarrow> string + string) \<Rightarrow> 'k kafka_ops \<Rightarrow> OrderEvent \<Rightarrow> 'k \<Rightarrow> 'k" where
  "PublishOrderAsync mar K e k =
     (case mar (OrderSent e) of Inl err \<Rightarrow> k
      | Inr d \<Rightarrow> kafka_produce K \<lparr>km_Topic = TopicOrderEvents, km_Key = Itoa (oe_OrderID e), km_Value = d\<rparr> k)"

definition PublishAckAsync :: "(event \<Rightarrow> string + string) \<Rightarrow> 'k kafka_ops \<Rightarrow> AckEvent \<Rightarrow> 'k \<Rightarrow> 'k" where
  "PublishAckAsync mar K e k =
     (case mar (OrderAck e) of Inl err \<Rightarrow> k
      | Inr d \<Rightarrow> kafka_produce K \<lparr>km_Topic = TopicOrderEvents, km_Key = Itoa (ae_OrderID e), km_Value = d\<rparr> k)"

definition PublishFillAsync :: "(event \<Rightarrow> string + string) \<Rightarrow> 'k kafka_ops \<Rightarrow> FillEvent \<Rightarrow> 'k \<Rightarrow> 'k" where
  "PublishFillAsync mar K e k =
     (case mar (Filled e) of Inl err \<Rightarrow> k
      | Inr d \<Rightarrow> kafka_produce K \<lparr>km_Topic = TopicOrderEvents, km_Key = Itoa (fe_OrderID e), km_Value = d\<rparr> k)"

definition PublishWorkerDone :: "(event \<Rightarrow> string + string) \<Rightarrow> 'k kafka_ops \<Rightarrow> WorkerDoneEvent \<Rightarrow> 'k \<Rightarrow> string option \<times> 'k" where
  \<comment> \<open>the error, if there is one\<close>
  "PublishWorkerDone mar K e k =
     (case mar (WorkerDone e) of Inl err \<Rightarrow> (Some err, k)
      | Inr d \<Rightarrow>
          case kafka_flush K k of
            (Some err, k1) \<Rightarrow> (Some (''flush failed: '' @ err), k1)
          | (None, k1) \<Rightarrow> kafka_produceSync K \<lparr>km_Topic = TopicOrderEvents, km_Key = we_WorkerID e, km_Value = d\<rparr> k1)"

fun publish :: "(event \<Rightarrow> string + string) \<Rightarrow> 'k kafka_ops \<Rightarrow> event \<Rightarrow> 'k \<Rightarrow> 'k" where
  \<comment> \<open>the calls of a bot\<close>
  "publish mar K (OrderSent e) = PublishOrderAsync mar K e"
| "publish mar K (OrderAck e) = PublishAckAsync mar K e"
| "publish mar K (Filled e) = PublishFillAsync mar K e"
| "publish mar K (WorkerDone e) = id"

fun message :: "(event \<Rightarrow> string + string) \<Rightarrow> event \<Rightarrow> kmessage option" where
  \<comment> \<open>specification: the record of an event of a bot\<close>
  "message mar (WorkerDone e) = None"
| "message mar ev = (case mar ev of Inl err \<Rightarrow> None | Inr d \<Rightarrow> Some \<lparr>km_Topic = TopicOrderEvents,
     km_Key = Itoa (case ev of OrderSent e \<Rightarrow> oe_OrderID e | OrderAck e \<Rightarrow> ae_OrderID e | Filled e \<Rightarrow> fe_OrderID e | WorkerDone e \<Rightarrow> 0), km_Value = d\<rparr>)"

lemma publish_message: "publish mar K ev k = (case message mar ev of None \<Rightarrow> k | Some m \<Rightarrow> kafka_produce K m k)"
  by (cases ev) (simp_all add: PublishOrderAsync_def PublishAckAsync_def PublishFillAsync_def split: sum.splits)

section \<open>What the client promises\<close>

definition onKey :: "string \<Rightarrow> kmessage list \<Rightarrow> kmessage list" where
  "onKey x ms = filter (\<lambda>m. km_Key m = x) ms"

lemma onKey_append [simp]: "onKey x (a @ b) = onKey x a @ onKey x b"
  by (simp add: onKey_def)

lemma onKey_Nil [simp]: "onKey x [] = []"
  by (simp add: onKey_def)

locale kafka_client =
  fixes K :: "'k kafka_ops"
    and logged :: "'k \<Rightarrow> kmessage list" \<comment> \<open>the records that the brokers hold, in the order of their arrival\<close>
    and queued :: "'k \<Rightarrow> kmessage list" \<comment> \<open>the records that the client has still to send\<close>
  assumes produce_order: "subseq (onKey x (logged (kafka_produce K m k) @ queued (kafka_produce K m k))) (onKey x (logged k @ queued k @ [m]))"
    and produce_log: "prefix (logged k) (logged (kafka_produce K m k))"
    and flush_order: "subseq (onKey x (logged (snd (kafka_flush K k)) @ queued (snd (kafka_flush K k)))) (onKey x (logged k @ queued k))"
    and flush_done: "kafka_flush K k = (None, k') \<Longrightarrow> queued k' = []"
    and sync_done: "queued k = [] \<Longrightarrow> kafka_produceSync K m k = (None, k') \<Longrightarrow> logged k' = logged k @ [m] \<and> queued k' = []"
begin

lemma publish_order:
  "subseq (onKey x (logged (publish mar K ev k) @ queued (publish mar K ev k)))
     (onKey x (logged k @ queued k @ (case message mar ev of None \<Rightarrow> [] | Some m \<Rightarrow> [m])))"
  using produce_order by (auto simp: publish_message split: option.split)

lemma publishes_in_order:
  "subseq (onKey x (logged (fold (publish mar K) evs k) @ queued (fold (publish mar K) evs k)))
     (onKey x (logged k @ queued k @ List.map_filter (message mar) evs))"
proof (induction evs rule: rev_induct)
  case (snoc ev evs)
  let ?k = "fold (publish mar K) evs k"
  have "subseq (onKey x (logged (publish mar K ev ?k) @ queued (publish mar K ev ?k)))
      (onKey x (logged ?k @ queued ?k) @ onKey x (case message mar ev of None \<Rightarrow> [] | Some m \<Rightarrow> [m]))"
    using publish_order [of x mar ev ?k] by simp
  also have "subseq \<dots> (onKey x (logged k @ queued k @ List.map_filter (message mar) evs) @
      onKey x (case message mar ev of None \<Rightarrow> [] | Some m \<Rightarrow> [m]))"
    using snoc.IH by (intro list_emb_append_mono) auto
  also have "\<dots> = onKey x (logged k @ queued k @ List.map_filter (message mar) (evs @ [ev]))"
    by (simp add: map_filter_def split: option.split)
  finally show ?case by simp
qed (simp add: map_filter_def)

lemma marker_follows_events:
  assumes pub: "PublishWorkerDone mar K e (fold (publish mar K) evs k) = (None, k')"
  obtains d where "mar (WorkerDone e) = Inr d" "queued k' = []"
    "logged k' = butlast (logged k') @ [\<lparr>km_Topic = TopicOrderEvents, km_Key = we_WorkerID e, km_Value = d\<rparr>]"
    "\<And>x. subseq (onKey x (butlast (logged k'))) (onKey x (logged k @ queued k @ List.map_filter (message mar) evs))"
proof -
  let ?k = "fold (publish mar K) evs k"
  from pub obtain d k1 where d: "mar (WorkerDone e) = Inr d" and f: "kafka_flush K ?k = (None, k1)"
    and s: "kafka_produceSync K \<lparr>km_Topic = TopicOrderEvents, km_Key = we_WorkerID e, km_Value = d\<rparr> k1 = (None, k')"
    by (auto simp: PublishWorkerDone_def split: option.splits prod.splits sum.splits)
  have q: "queued k1 = []" by (rule flush_done [OF f])
  have "subseq (onKey x (logged k1)) (onKey x (logged k @ queued k @ List.map_filter (message mar) evs))" for x
    using subseq_order.order_trans [OF flush_order [of x ?k] publishes_in_order [of x mar evs k]] f q by simp
  then show ?thesis using sync_done [OF q s] by (intro that [OF d]) auto
qed

end

section \<open>A client that satisfies the laws\<close>

definition kafka0 :: "(kmessage list \<times> kmessage list) kafka_ops" where
  \<comment> \<open>a client with a queue of its own and brokers that always answer: log and queue\<close>
  "kafka0 = \<lparr>kafka_produce = (\<lambda>m (l, q). (l, q @ [m])), kafka_flush = (\<lambda>(l, q). (None, (l @ q, []))),
     kafka_produceSync = (\<lambda>m (l, q). (None, (l @ q @ [m], [])))\<rparr>"

interpretation kafka0: kafka_client kafka0 fst snd
  by unfold_locales (auto simp: kafka0_def)

section \<open>The consumer on the events of a worker\<close>

lemma drain_workersDone: "drainJitterBuffer T n c = Some c' \<Longrightarrow> workersDone c' = workersDone c \<and> cjobID c' = cjobID c"
proof (induction n arbitrary: c)
  case (Suc n)
  have "workersDone (takeEvent T s e c) = workersDone c" for s e c
    by (simp add: takeEvent_def handleEvent_def Let_def split: cevent.split)
  then show ?case using Suc by (fastforce simp: Let_def split: option.splits if_splits)
qed simp

lemma processRecord_workersDone:
  assumes "processRecord T n (wireRecord ev) c = Some c'" "cjobID c = j"
  shows "cjobID c' = j \<and> workersDone c' = (case ev of WorkerDone e \<Rightarrow> if we_JobID e = j then workersDone c + 1 else workersDone c | _ \<Rightarrow> workersDone c)"
  using assms by (cases ev) (auto simp: processRecord_def processBody_def dest!: drain_workersDone split: if_splits)

lemma consumer_counts_workers:
  assumes "consumeRecords T n (map wireRecord evs) c = Some c'"
  shows "workersDone c' = workersDone c + length (filter (\<lambda>ev. case ev of WorkerDone e \<Rightarrow> we_JobID e = cjobID c | _ \<Rightarrow> False) evs)"
  using assms
proof (induction evs arbitrary: c)
  case (Cons ev evs)
  then obtain c1 where p: "processRecord T n (wireRecord ev) c = Some c1" and r: "consumeRecords T n (map wireRecord evs) c1 = Some c'"
    by (auto split: option.splits)
  show ?case using Cons.IH [OF r] processRecord_workersDone [OF p refl] by (auto split: event.splits if_splits)
qed simp

end
