(* ===== verification/Fill_Sync.thy ===== *)
theory Fill_Sync
  imports Shadow_Perfect
begin

text \<open>
  The bookkeeping of fills while reports are under way. The shadow book expects the fills of an order as
  soon as it sees the acknowledgement, the engine reports them one by one afterwards; \<open>fills_ok P s\<close> says that
  the fills expected are those reported followed by those in \<open>P\<close>, which are still to come. The clean-up of an
  order removes its fills only when none is to come.
\<close>

type_synonym fill4 = "int \<times> int \<times> int \<times> int" \<comment> \<open>order, quantity, price, counterparty\<close>

definition pendOf :: "int \<Rightarrow> fill4 list \<Rightarrow> Fill list" where
  "pendOf i P = map (\<lambda>(j, q, p, m). \<lparr>OrderID = j, FilledQty = q, FilledPrice = p, MatchedWith = m\<rparr>) (filter (\<lambda>f. fst f = i) P)"

definition fills_ok :: "fill4 list \<Rightarrow> 't SymbolShard \<Rightarrow> bool" where
  "fills_ok P s \<longleftrightarrow> (\<forall>i. get_or [] (expectedFills s) i = get_or [] (actualFills s) i @ pendOf i P)"

definition pend_ok :: "fill4 list \<Rightarrow> bool" where
  \<comment> \<open>quantities are positive and those of one order do not add up to an overflow\<close>
  "pend_ok P \<longleftrightarrow> (\<forall>f \<in> set P. 0 < fst (snd f)) \<and> (\<forall>i. (\<Sum>f\<leftarrow>pendOf i P. FilledQty f) < 2 ^ 63)"

lemma pendOf_simps [simp]:
  "pendOf i [] = []"
  "pendOf i ((j, q, p, m) # P) = (if j = i then \<lparr>OrderID = j, FilledQty = q, FilledPrice = p, MatchedWith = m\<rparr> # pendOf i P else pendOf i P)"
  "pendOf i (P @ Q) = pendOf i P @ pendOf i Q"
  by (simp_all add: pendOf_def)

lemma pend_ok_Nil [simp]: "pend_ok []"
  by (simp add: pend_ok_def)

lemma pendOf_pos: "\<forall>f \<in> set P. 0 < fst (snd f) \<Longrightarrow> f \<in> set (pendOf i P) \<Longrightarrow> 0 < FilledQty f"
  by (auto simp: pendOf_def)

lemma sum_pos_list: "(\<And>x. x \<in> set xs \<Longrightarrow> 0 < f x) \<Longrightarrow> 0 \<le> (\<Sum>x\<leftarrow>xs. f x :: int)" "xs \<noteq> [] \<Longrightarrow> (\<And>x. x \<in> set xs \<Longrightarrow> 0 < f x) \<Longrightarrow> 0 < (\<Sum>x\<leftarrow>xs. f x :: int)"
proof -
  show "(\<And>x. x \<in> set xs \<Longrightarrow> 0 < f x) \<Longrightarrow> 0 \<le> (\<Sum>x\<leftarrow>xs. f x)" by (rule sum_list_nonneg) (auto simp: less_imp_le)
  show "xs \<noteq> [] \<Longrightarrow> (\<And>x. x \<in> set xs \<Longrightarrow> 0 < f x) \<Longrightarrow> 0 < (\<Sum>x\<leftarrow>xs. f x)"
    by (induction xs) (simp, metis (no_types, lifting) add_pos_pos list.map(2) list.set_intros(1) list.set_intros(2) list.simps(8) sum_list.Cons sum_list.Nil add.right_neutral)
qed

lemma pend_ok_append: "pend_ok (P @ Q) \<Longrightarrow> pend_ok P \<and> pend_ok Q"
proof -
  assume a: "pend_ok (P @ Q)"
  have pos: "\<forall>f \<in> set P. 0 < fst (snd f)" "\<forall>f \<in> set Q. 0 < fst (snd f)" using a by (auto simp: pend_ok_def)
  have "0 \<le> (\<Sum>f\<leftarrow>pendOf i P. FilledQty f)" "0 \<le> (\<Sum>f\<leftarrow>pendOf i Q. FilledQty f)" for i
    using pendOf_pos [OF pos(1)] pendOf_pos [OF pos(2)] by (intro sum_pos_list(1); blast)+
  moreover have "(\<Sum>f\<leftarrow>pendOf i P. FilledQty f) + (\<Sum>f\<leftarrow>pendOf i Q. FilledQty f) < 2 ^ 63" for i using a by (simp add: pend_ok_def)
  ultimately show ?thesis using a unfolding pend_ok_def by (smt (verit) Un_iff set_append)
qed

lemma cleanup_fills_ok:
  assumes "fills_ok P s" "pend_ok P"
  shows "fills_ok P (checkCleanup i s)"
proof (cases "pendOf i P = []")
  case True
  then have e: "get_or [] (expectedFills s) i = get_or [] (actualFills s) i" using assms(1) by (simp add: fills_ok_def)
  then show ?thesis using assms(1) True by (auto simp: checkCleanup_def Let_def fills_ok_def gomap_simps)
next
  case False
  have s: "0 < (\<Sum>f\<leftarrow>pendOf i P. FilledQty f)" "(\<Sum>f\<leftarrow>pendOf i P. FilledQty f) < 2 ^ 63"
    using False assms(2) by (auto intro!: sum_pos_list(2) pendOf_pos simp: pend_ok_def)
  have "sum64 FilledQty (get_or [] (expectedFills s) i) 0 \<noteq> sum64 FilledQty (get_or [] (actualFills s) i) 0"
  proof
    define a where "a = (\<Sum>f\<leftarrow>get_or [] (actualFills s) i. FilledQty f)"
    define b where "b = (\<Sum>f\<leftarrow>pendOf i P. FilledQty f)"
    assume "sum64 FilledQty (get_or [] (expectedFills s) i) 0 = sum64 FilledQty (get_or [] (actualFills s) i) 0"
    then have "wrap64 (a + b) = wrap64 a" using assms(1) by (simp add: fills_ok_def sum64_0 a_def b_def)
    then have "wrap64 b = wrap64 0" using wrap64_add_cong(1) [of "a + b" a "- a"] by simp
    then have "b = 0" using s wrap64_id [of b] by (simp add: b_def in64_def)
    then show False using s by (simp add: b_def)
  qed
  then show ?thesis using assms(1) by (simp add: checkCleanup_def Let_def)
qed

lemma recordExpectedFill_fills_ok:
  "fills_ok P s \<Longrightarrow> fills_ok (P @ [(i, q, p, m)]) (recordExpectedFill i q p m s)"
  by (simp add: fills_ok_def recordExpectedFill_def gomap_simps)

lemma fills_ok_cong:
  "expectedFills s' = expectedFills s \<Longrightarrow> actualFills s' = actualFills s \<Longrightarrow> fills_ok P s' = fills_ok P s"
  by (simp add: fills_ok_def)

definition tradeFills :: "int \<Rightarrow> trade list \<Rightarrow> fill4 list" where
  \<comment> \<open>the two fills of each trade, the incoming order first\<close>
  "tradeFills inc ts = concat (map (\<lambda>t. [(inc, t_qty t, t_price t, t_resting t), (t_resting t, t_qty t, t_price t, inc)]) ts)"

lemma tradeFills_simps [simp]:
  "tradeFills inc [] = []"
  "tradeFills inc (t # ts) = (inc, t_qty t, t_price t, t_resting t) # (t_resting t, t_qty t, t_price t, inc) # tradeFills inc ts"
  by (simp_all add: tradeFills_def)

lemma applyTrade_fills_ok:
  assumes "fills_ok P s" "pend_ok (P @ tradeFills inc [t])"
  shows "fills_ok (P @ tradeFills inc [t]) (applyTrade inc t s)"
proof -
  define s2 where "s2 = recordExpectedFill (t_resting t) (t_qty t) (t_price t) inc (recordExpectedFill inc (t_qty t) (t_price t) (t_resting t) s)"
  have "fills_ok ((P @ [(inc, t_qty t, t_price t, t_resting t)]) @ [(t_resting t, t_qty t, t_price t, inc)]) s2"
    unfolding s2_def by (intro recordExpectedFill_fills_ok assms(1))
  then have f: "fills_ok (P @ tradeFills inc [t]) s2" by simp
  moreover have "fills_ok (P @ tradeFills inc [t]) (s2\<lparr>orderMap := m\<rparr>)" for m using f by (subst fills_ok_cong [of _ s2]) simp_all
  ultimately show ?thesis using cleanup_fills_ok [OF _ assms(2), of "s2\<lparr>orderMap := AList.delete (t_resting t) (orderMap s2)\<rparr>"]
    by (simp add: applyTrade_def Let_def s2_def [symmetric] del: tradeFills_simps)
qed

lemma applyTrades_fills_ok:
  assumes "fills_ok P s" "pend_ok (P @ tradeFills inc ts)"
  shows "fills_ok (P @ tradeFills inc ts) (applyTrades inc ts s)"
  using assms
proof (induction ts arbitrary: P s)
  case (Cons t ts)
  have p: "pend_ok ((P @ tradeFills inc [t]) @ tradeFills inc ts)" using Cons.prems(2) by simp
  then show ?case using Cons.IH [OF applyTrade_fills_ok [OF Cons.prems(1)] p] pend_ok_append [OF p] by simp
qed simp

lemma shardFill_fills_ok:
  assumes "fills_ok ((i, q, p, m) # P) s" "pend_ok P"
  shows "fills_ok P (shardFill i q p [m] s)"
proof -
  have "fills_ok P (s\<lparr>actualFills := AList.update i (get_or [] (actualFills s) i @ [\<lparr>OrderID = i, FilledQty = q, FilledPrice = p, MatchedWith = m\<rparr>]) (actualFills s)\<rparr>)"
    using assms(1) by (auto simp: fills_ok_def gomap_simps)
  then show ?thesis using assms(2) by (simp add: shardFill_def cleanup_fills_ok)
qed

lemma fills_ok_agree: "fills_ok [] s \<Longrightarrow> agree s i"
  by (simp add: fills_ok_def agree_def list_all2_refl sameFill_def)

lemma tradeFills_pend_ok:
  assumes "\<forall>t \<in> set ts. 0 < t_qty t \<and> t_resting t \<noteq> inc" "(\<Sum>t\<leftarrow>ts. t_qty t) < 2 ^ 63"
  shows "pend_ok (tradeFills inc ts)"
proof -
  have "(\<Sum>f\<leftarrow>pendOf i (tradeFills inc ts). FilledQty f) \<le> (\<Sum>t\<leftarrow>ts. t_qty t)" for i
    using assms(1) by (induction ts) (auto simp: add_increasing less_imp_le)
  moreover have "\<forall>f \<in> set (tradeFills inc ts). 0 < fst (snd f)" using assms(1) by (auto simp: tradeFills_def)
  ultimately show ?thesis using assms(2) unfolding pend_ok_def by (meson order_le_less_trans)
qed

end
