(* ===== verification/Fix_Codec.thy ===== *)
theory Fix_Codec
  imports Go_Strings
begin

text \<open>
  The FIX 4.4 encoding of \<^verbatim>\<open>services/testing/runner.go\<close>: \<^verbatim>\<open>BuildFIX\<close>, \<^verbatim>\<open>ParseFIX\<close>, the checksum and the framing
  loop that reads one message from a connection. A Go map is an association list with distinct keys in
  the order in which it happens to be iterated, so the theorems hold for every iteration order. The input
  of a reader is the bytes still to come.
\<close>

section \<open>Definitions\<close>

definition SOH :: char where "SOH = CHR 0x01"

definition CalculateFIXChecksum :: "string \<Rightarrow> nat" where
  "CalculateFIXChecksum data = (foldl (\<lambda>sum b. sum + of_char b) 0 data) mod 256"

definition pad3 :: "nat \<Rightarrow> string" where
  \<comment> \<open>the verb \<^verbatim>\<open>%03d\<close>\<close>
  "pad3 n = (let s = utoa n in replicate (3 - length s) (CHR ''0'') @ s)"

definition fixField :: "int \<times> string \<Rightarrow> string" where
  "fixField f = Itoa (fst f) @ CHR ''='' # snd f"

definition fixBody :: "(int \<times> string) list \<Rightarrow> string" where
  "fixBody fields =
     fixField (35, get_or [] fields 35) @ [SOH] @
     concat (map (\<lambda>f. if fst f = 8 \<or> fst f = 9 \<or> fst f = 35 \<or> fst f = 10 then [] else fixField f @ [SOH]) fields)"

definition BuildFIX :: "(int \<times> string) list \<Rightarrow> string" where
  "BuildFIX fields =
     (let body = fixBody fields;
          buf = fixField (8, get_or [] fields 8) @ [SOH] @ fixField (9, Itoa (int (length body))) @ [SOH] @ body in
      buf @ ''10='' @ pad3 (CalculateFIXChecksum buf) @ [SOH])"

definition parseField :: "string \<Rightarrow> (int \<times> string) option" where
  "parseField part =
     (if CHR ''='' \<notin> set part then None
      else map_option (\<lambda>tag. (tag, tl (dropWhile (\<lambda>c. c \<noteq> CHR ''='') part))) (Atoi (takeWhile (\<lambda>c. c \<noteq> CHR ''='') part)))"

definition ParseFIX :: "string \<Rightarrow> (int \<times> string) list" where
  "ParseFIX msg =
     fold (\<lambda>part fields. if part = [] then fields
             else case parseField part of None \<Rightarrow> fields | Some (tag, v) \<Rightarrow> AList.update tag v fields)
       (split_char SOH msg) []"

definition ReadBytes :: "string \<Rightarrow> (string \<times> string) option" where
  \<comment> \<open>\<^verbatim>\<open>bufio.Reader.ReadBytes(1)\<close>: up to and with the next separator, or an error at the end of the input\<close>
  "ReadBytes inp =
     (case dropWhile (\<lambda>c. c \<noteq> SOH) inp of [] \<Rightarrow> None | _ # rest \<Rightarrow> Some (takeWhile (\<lambda>c. c \<noteq> SOH) inp @ [SOH], rest))"

lemma ReadBytes_shorter: "ReadBytes inp = Some (line, rest) \<Longrightarrow> length rest < length inp"
  using length_dropWhile_le [of "\<lambda>c. c \<noteq> SOH" inp] by (auto simp: ReadBytes_def split: list.splits)

function readFIXLoop :: "string \<Rightarrow> string \<Rightarrow> (string \<times> string) option" where
  "readFIXLoop respBytes inp =
     (case ReadBytes inp of None \<Rightarrow> None
      | Some (line, rest) \<Rightarrow>
          let resp = respBytes @ line in
          if Contains resp (SOH # ''10='') \<and> HasSuffix resp [SOH] then Some (resp, rest) else readFIXLoop resp rest)"
  by pat_completeness auto

termination readFIXLoop
  by (relation "measure (\<lambda>(respBytes, inp). length inp)") (auto dest: ReadBytes_shorter)

declare readFIXLoop.simps [simp del]

definition readFIX :: "string \<Rightarrow> (string \<times> string) option" where
  \<comment> \<open>one message and the input behind it\<close>
  "readFIX inp = (case ReadBytes inp of None \<Rightarrow> None | Some (line, rest) \<Rightarrow> readFIXLoop line rest)"

section \<open>Fields\<close>

definition field_ok :: "int \<times> string \<Rightarrow> bool" where
  "field_ok f \<longleftrightarrow> in64 (fst f) \<and> SOH \<notin> set (snd f)"

lemma digit_not: "is_digit c \<Longrightarrow> c \<noteq> SOH \<and> c \<noteq> CHR ''=''"
  by (auto simp: is_digit_def SOH_def)

lemma Itoa_chars: "c \<in> set (Itoa i) \<Longrightarrow> c \<noteq> SOH \<and> c \<noteq> CHR ''=''"
  using utoa_digits digit_not by (auto simp: Itoa_def SOH_def list_all_iff split: if_splits)

lemma fixField_no_SOH: "field_ok f \<Longrightarrow> SOH \<notin> set (fixField f)"
  using Itoa_chars by (auto simp: fixField_def field_ok_def SOH_def)

lemma fixField_nonempty [simp]: "fixField f \<noteq> []"
  by (simp add: fixField_def)

lemma parseField_fixField: "field_ok f \<Longrightarrow> parseField (fixField f) = Some f"
proof -
  assume f: "field_ok f"
  have "takeWhile (\<lambda>c. c \<noteq> CHR ''='') (Itoa (fst f) @ CHR ''='' # snd f) = Itoa (fst f)"
    and "dropWhile (\<lambda>c. c \<noteq> CHR ''='') (Itoa (fst f) @ CHR ''='' # snd f) = CHR ''='' # snd f"
    using Itoa_chars by (simp_all add: takeWhile_append2 dropWhile_append2)
  then show ?thesis using f by (simp add: parseField_def fixField_def field_ok_def Atoi_Itoa)
qed

definition fixText :: "(int \<times> string) list \<Rightarrow> string" where
  "fixText fs = concat (map (\<lambda>f. fixField f @ [SOH]) fs)"

lemma ParseFIX_fields:
  assumes "list_all field_ok fs"
  shows "ParseFIX (fixText fs) = fold (\<lambda>f. AList.update (fst f) (snd f)) fs []"
proof -
  have s: "split_char SOH (concat (map (\<lambda>f. fixField f @ [SOH]) fs)) = map fixField fs @ [[]]"
    using assms by (induction fs) (simp_all add: split_char_append fixField_no_SOH)
  have "fold (\<lambda>part fields. if part = [] then fields
             else case parseField part of None \<Rightarrow> fields | Some (tag, v) \<Rightarrow> AList.update tag v fields) (map fixField fs) m =
      fold (\<lambda>f. AList.update (fst f) (snd f)) fs m" for m
    using assms by (induction fs arbitrary: m) (simp_all add: parseField_fixField split_beta)
  then show ?thesis by (simp add: ParseFIX_def fixText_def s)
qed

lemma get_or_fold_update:
  "distinct (map fst fs) \<Longrightarrow>
   get_or z (fold (\<lambda>f. AList.update (fst f) (snd f)) fs m) k = (case map_of fs k of Some v \<Rightarrow> v | None \<Rightarrow> get_or z m k)"
proof (induction fs arbitrary: m)
  case (Cons f fs)
  show ?case
  proof (cases "fst f = k")
    case True
    then have "map_of fs k = None" using Cons.prems by (simp add: map_of_eq_None_iff)
    then show ?thesis using Cons True by (cases f) (simp add: gomap_simps)
  next
    case False
    then show ?thesis using Cons by (cases f) (simp add: gomap_simps split: option.splits)
  qed
qed simp

section \<open>Messages as lists of fields\<close>

definition bodyFields :: "(int \<times> string) list \<Rightarrow> (int \<times> string) list" where
  "bodyFields fields = (35, get_or [] fields 35) # filter (\<lambda>f. \<not> (fst f = 8 \<or> fst f = 9 \<or> fst f = 35 \<or> fst f = 10)) fields"

definition headFields :: "(int \<times> string) list \<Rightarrow> (int \<times> string) list" where
  "headFields fields = (8, get_or [] fields 8) # (9, Itoa (int (length (fixBody fields)))) # bodyFields fields"

lemma fixBody_text: "fixBody fields = fixText (bodyFields fields)"
proof -
  have "concat (map (\<lambda>f. if fst f = 8 \<or> fst f = 9 \<or> fst f = 35 \<or> fst f = 10 then [] else fixField f @ [SOH]) fields) =
      fixText (filter (\<lambda>f. \<not> (fst f = 8 \<or> fst f = 9 \<or> fst f = 35 \<or> fst f = 10)) fields)"
    by (induction fields) (simp_all add: fixText_def)
  then show ?thesis by (simp add: fixBody_def bodyFields_def fixText_def)
qed

lemma Itoa_10: "Itoa 10 = ''10''"
  by code_simp

lemma BuildFIX_text:
  "BuildFIX fields = fixText (headFields fields @ [(10, pad3 (CalculateFIXChecksum (fixText (headFields fields))))])"
  by (simp add: BuildFIX_def Let_def fixText_def headFields_def fixBody_text fixField_def [of "(10, _)"] Itoa_10)

lemma pad3_digits: "list_all is_digit (pad3 n)"
  using utoa_digits by (auto simp: pad3_def Let_def list_all_iff is_digit_def)

lemma get_or_no_SOH: "\<forall>f \<in> set fields. SOH \<notin> set (snd f) \<Longrightarrow> SOH \<notin> set (get_or [] fields t)"
  using map_of_SomeD [of fields t] by (cases "map_of fields t") (auto simp: get_or_def)

lemma headFields_ok:
  assumes "list_all field_ok fields" shows "list_all field_ok (headFields fields)"
proof -
  have n: "SOH \<notin> set (get_or [] fields t)" for t using assms by (intro get_or_no_SOH) (auto simp: list_all_iff field_ok_def)
  have "list_all field_ok (filter P fields)" for P using assms by (auto simp: list_all_iff)
  then show ?thesis using n Itoa_chars by (auto simp: headFields_def bodyFields_def field_ok_def in64_def)
qed

lemma checksum_field_ok: "field_ok (10, pad3 n)"
  using pad3_digits [of n] digit_not by (auto simp: field_ok_def in64_def list_all_iff)

section \<open>Round trip\<close>

lemma ParseFIX_BuildFIX:
  assumes "list_all field_ok fields" "distinct (gokeys fields)"
  shows "get_or [] (ParseFIX (BuildFIX fields)) t =
     (if t = 10 then pad3 (CalculateFIXChecksum (fixText (headFields fields)))
      else if t = 9 then Itoa (int (length (fixBody fields))) else get_or [] fields t)"
proof -
  let ?c = "(10 :: int, pad3 (CalculateFIXChecksum (fixText (headFields fields))))"
  let ?F = "filter (\<lambda>f. \<not> (fst f = 8 \<or> fst f = 9 \<or> fst f = 35 \<or> fst f = 10)) fields"
  have ok: "list_all field_ok (headFields fields @ [?c])"
    using headFields_ok [OF assms(1)] checksum_field_ok by simp
  have "distinct (map fst ?F)" using assms(2) by (rule distinct_map_filter)
  then have d: "distinct (map fst (headFields fields @ [?c]))" by (auto simp: headFields_def bodyFields_def)
  have "map_of ?F t = (if t = 8 \<or> t = 9 \<or> t = 35 \<or> t = 10 then None else map_of fields t)"
    by (induction fields) auto
  then have "map_of (headFields fields @ [?c]) t =
      (if t = 8 then Some (get_or [] fields 8) else if t = 9 then Some (Itoa (int (length (fixBody fields))))
       else if t = 35 then Some (get_or [] fields 35) else if t = 10 then Some (snd ?c) else map_of fields t)"
    by (auto simp: headFields_def bodyFields_def map_add_def split: option.splits)
  moreover have "get_or [] (ParseFIX (BuildFIX fields)) t = (case map_of (headFields fields @ [?c]) t of Some v \<Rightarrow> v | None \<Rightarrow> [])"
    unfolding BuildFIX_text ParseFIX_fields [OF ok] get_or_fold_update [OF d] by (simp only: get_or_Nil)
  ultimately show ?thesis by (simp add: get_or_def)
qed


section \<open>Framing\<close>

lemma ReadBytes_word: "SOH \<notin> set w \<Longrightarrow> ReadBytes (w @ SOH # rest) = Some (w @ [SOH], rest)"
proof -
  assume "SOH \<notin> set w"
  then have "takeWhile (\<lambda>c. c \<noteq> SOH) (w @ SOH # rest) = w" "dropWhile (\<lambda>c. c \<noteq> SOH) (w @ SOH # rest) = SOH # rest"
    by (induction w) auto
  then show ?thesis by (simp add: ReadBytes_def)
qed

lemma HasSuffix_snoc [simp]: "HasSuffix (s @ [c]) [c]"
  by (simp add: HasSuffix_def)

lemma HasPrefix_soh: "SOH \<notin> set p \<Longrightarrow> HasPrefix (w @ SOH # r) p \<longleftrightarrow> HasPrefix w p"
  by (induction w p rule: HasPrefix.induct) auto

lemma Contains_word: "p \<noteq> [] \<Longrightarrow> hd p \<notin> set w \<Longrightarrow> Contains (w @ r) p \<longleftrightarrow> Contains r p"
  by (induction w) (auto simp: neq_Nil_conv)

lemma Contains_soh:
  assumes "SOH \<notin> set w" "SOH \<notin> set p"
  shows "Contains (a @ SOH # w @ [SOH]) (SOH # p) \<longleftrightarrow> Contains (a @ [SOH]) (SOH # p) \<or> HasPrefix w p \<or> p = []"
proof (induction a)
  case Nil
  have "Contains [SOH] (SOH # p) \<longleftrightarrow> p = []" by (cases p) auto
  moreover have "Contains (w @ [SOH]) (SOH # p) \<longleftrightarrow> Contains [SOH] (SOH # p)" using assms(1) by (intro Contains_word) auto
  ultimately show ?case using HasPrefix_soh [OF assms(2), of w "[]"] by auto
next
  case (Cons c a)
  have "HasPrefix (a @ SOH # w @ [SOH]) p \<longleftrightarrow> HasPrefix (a @ [SOH]) p"
    using HasPrefix_soh [OF assms(2), of a "w @ [SOH]"] HasPrefix_soh [OF assms(2), of a "[]"] by simp
  then show ?case using Cons by auto
qed

lemma readFIXLoop_fields:
  assumes "list_all field_ok fs" "\<forall>f \<in> set fs. fst f \<noteq> 10" "field_ok g" "fst g = 10" "\<not> Contains (acc @ [SOH]) (SOH # ''10='')"
  shows "readFIXLoop (acc @ [SOH]) (fixText (fs @ [g]) @ rest) = Some (acc @ SOH # fixText (fs @ [g]), rest)"
  using assms
proof (induction fs arbitrary: acc)
  case Nil
  have "HasPrefix (fixField g) ''10=''" using Nil.prems(4) by (simp add: fixField_def Itoa_10)
  then have "Contains (acc @ SOH # fixField g @ [SOH]) (SOH # ''10='')"
    using fixField_no_SOH [OF Nil.prems(3)] Contains_soh [of "fixField g" "''10=''" acc] by (simp add: SOH_def)
  then show ?case
    using ReadBytes_word [OF fixField_no_SOH [OF Nil.prems(3)], of rest] HasSuffix_snoc [of "acc @ SOH # fixField g" SOH]
    by (subst readFIXLoop.simps) (simp add: fixText_def)
next
  case (Cons f fs)
  have f: "SOH \<notin> set (fixField f)" using Cons.prems(1) fixField_no_SOH by simp
  have "\<not> HasPrefix (fixField f) ''10=''"
  proof
    assume "HasPrefix (fixField f) ''10=''"
    then obtain r where "fixField f = ''10'' @ CHR ''='' # r" by (auto simp: HasPrefix_iff)
    then have "takeWhile (\<lambda>c. c \<noteq> CHR ''='') (Itoa (fst f) @ CHR ''='' # snd f) = ''10''" by (simp add: fixField_def)
    then have "Itoa (fst f) = ''10''" using Itoa_chars by (simp add: takeWhile_append2)
    then have "Atoi (Itoa (fst f)) = Atoi (Itoa 10)" by (simp only: Itoa_10)
    then show False using Cons.prems(1,2) Atoi_Itoa [of "fst f"] Atoi_Itoa [of 10] by (simp add: field_ok_def in64_def)
  qed
  then have n: "\<not> Contains ((acc @ SOH # fixField f) @ [SOH]) (SOH # ''10='')"
    using Contains_soh [OF f, of "''10=''" acc] Cons.prems(5) by (simp add: SOH_def)
  have "readFIXLoop (acc @ [SOH]) (fixText ((f # fs) @ [g]) @ rest) =
      readFIXLoop ((acc @ SOH # fixField f) @ [SOH]) (fixText (fs @ [g]) @ rest)"
    using ReadBytes_word [OF f, of "fixText (fs @ [g]) @ rest"] n
    by (subst readFIXLoop.simps) (simp add: fixText_def)
  then show ?case using Cons.IH [OF _ _ Cons.prems(3,4) n] Cons.prems(1,2) by (simp add: fixText_def)
qed

lemma readFIX_BuildFIX:
  assumes "list_all field_ok fields"
  shows "readFIX (BuildFIX fields @ rest) = Some (BuildFIX fields, rest)"
proof -
  let ?g = "(10, pad3 (CalculateFIXChecksum (fixText (headFields fields))))"
  obtain f fs where h: "headFields fields = f # fs" "fst f = 8" by (simp add: headFields_def)
  have ok: "field_ok f" "list_all field_ok fs" using headFields_ok [OF assms] h by auto
  have "\<forall>x \<in> set fs. fst x \<noteq> 10" using h(1) by (auto simp: headFields_def bodyFields_def)
  moreover have "\<not> Contains (fixField f @ [SOH]) (SOH # ''10='')"
    using Contains_word [of "SOH # ''10=''" "fixField f" "[SOH]"] fixField_no_SOH [OF ok(1)] by simp
  ultimately have "readFIXLoop (fixField f @ [SOH]) (fixText (fs @ [?g]) @ rest) = Some (fixField f @ SOH # fixText (fs @ [?g]), rest)"
    using ok(2) checksum_field_ok by (intro readFIXLoop_fields) auto
  moreover have "BuildFIX fields = fixField f @ SOH # fixText (fs @ [?g])"
    unfolding BuildFIX_text h(1) by (simp add: fixText_def)
  ultimately show ?thesis
    using ReadBytes_word [OF fixField_no_SOH [OF ok(1)], of "fixText (fs @ [?g]) @ rest"] by (simp add: readFIX_def)
qed

end
