(* ===== verification/Pretest_Bot.thy ===== *)
theory Pretest_Bot
  imports Bot_Orders "HOL-Library.Sublist"
begin

text \<open>
  \<^verbatim>\<open>services/testing/runner.go\<close>: the deterministic bots of the pretest and the system test. The generator of
  \<^verbatim>\<open>math/rand\<close> is the parameter \<open>R\<close> of \<open>Bots\<close>; a panic of \<^verbatim>\<open>Int63n\<close> or of an index is \<open>None\<close>. The messages of
  \<^verbatim>\<open>pkg/protocol\<close> are records; their unsigned fields are the integers from 0 to \<open>2\<^sup>64 - 1\<close>.
\<close>

section \<open>Messages\<close>

datatype POrderType = LIMIT | MARKET | CANCEL
datatype PSide = BUY | SELL

record POrder =
  po_BotId :: int
  po_OrderId :: int
  po_Type :: POrderType
  po_Side :: PSide
  po_Price :: int
  po_Quantity :: int

section \<open>Bots\<close>

record 'r PretestBot =
  pb_NumericID :: int
  pb_StringID :: string
  pb_Strategy :: StrategyType
  pb_MidPrice :: int
  pb_Spread :: int
  pb_OrdersToSend :: int
  pb_RatePerSec :: rat
  pb_Seed :: int
  pb_rng :: 'r
  pb_seqNum :: int
  pb_ordersSent :: int
  pb_activeOrders :: "int list"
  pb_SendTimes :: "int list"

definition NewPretestBot :: "'r rng_ops \<Rightarrow> int \<Rightarrow> string \<Rightarrow> StrategyType \<Rightarrow> rat \<Rightarrow> rat \<Rightarrow> int \<Rightarrow> rat \<Rightarrow> int \<Rightarrow> 'r PretestBot option" where
  "NewPretestBot R numericID stringID strategy midPrice spread ordersToSend ratePerSec seed =
     (if ordersToSend + 1 < 0 then None
      else Some \<lparr>pb_NumericID = numericID, pb_StringID = stringID, pb_Strategy = strategy,
        pb_MidPrice = trunc64 (fmul midPrice 100), pb_Spread = trunc64 (fmul spread 100), pb_OrdersToSend = ordersToSend,
        pb_RatePerSec = ratePerSec, pb_Seed = seed, pb_rng = NewSource R seed, pb_seqNum = 0, pb_ordersSent = 0,
        pb_activeOrders = [], pb_SendTimes = replicate (nat (ordersToSend + 1)) 0\<rparr>)"

datatype draft =
    DCancel int
  | DOrder POrderType PSide int int \<comment> \<open>type, side, price, quantity\<close>

definition popActive :: "'r PretestBot \<Rightarrow> int \<times> 'r PretestBot" where
  "popActive b = (hd (pb_activeOrders b), b\<lparr>pb_activeOrders := tl (pb_activeOrders b)\<rparr>)"

definition makerDraft :: "'r rng_ops \<Rightarrow> int \<Rightarrow> 'r PretestBot \<Rightarrow> (draft \<times> 'r PretestBot) option" where
  "makerDraft R seq b =
     (case Int63n R (wrap64 (pb_Spread b sdiv 10 + 1)) (pb_rng b) of None \<Rightarrow> None | Some (variation, r1) \<Rightarrow>
      let (side, price) =
            (if seq smod 2 = 0 then (BUY, wrap64 (wrap64 (pb_MidPrice b - pb_Spread b sdiv 2) - variation))
             else (SELL, wrap64 (wrap64 (pb_MidPrice b + pb_Spread b sdiv 2) + variation))) in
      case Int63n R 500 r1 of None \<Rightarrow> None | Some (q, r2) \<Rightarrow>
        Some (DOrder LIMIT side price (wrap64 (500 + q)), b\<lparr>pb_rng := r2\<rparr>))"

definition momentumDraft :: "'r rng_ops \<Rightarrow> int \<Rightarrow> 'r PretestBot \<Rightarrow> (draft \<times> 'r PretestBot) option" where
  "momentumDraft R seq b =
     (if seq smod 5 = 0 \<and> pb_activeOrders b \<noteq> [] then
        let (cancelID, b1) = popActive b in Some (DCancel cancelID, b1)
      else
        let (u, r1) = rngFloat64 R (pb_rng b) in
        case (if u < fl (2 / 10)
              then (case Int63n R (wrap64 (wrap64 (pb_Spread b * 2) + 1)) r1 of None \<Rightarrow> None
                    | Some (variation, r2) \<Rightarrow> Some (LIMIT, wrap64 (wrap64 (pb_MidPrice b - pb_Spread b) + variation), r2))
              else Some (MARKET, 0, r1)) of
          None \<Rightarrow> None
        | Some (orderType, price, r3) \<Rightarrow>
            case Int63n R 3000 r3 of None \<Rightarrow> None | Some (q, r4) \<Rightarrow>
            case Intn R 2 r4 of None \<Rightarrow> None | Some (coin, r5) \<Rightarrow>
              Some (DOrder orderType (if coin = 0 then SELL else BUY) price (wrap64 (2000 + q)), b\<lparr>pb_rng := r5\<rparr>))"

definition noiseDraft :: "'r rng_ops \<Rightarrow> 'r PretestBot \<Rightarrow> (draft \<times> 'r PretestBot) option" where
  "noiseDraft R b =
     (let (roll, r1) = rngFloat64 R (pb_rng b) in
      if \<not> roll < fl (60 / 100) \<and> \<not> roll < fl (85 / 100) \<and> pb_activeOrders b \<noteq> [] then
        let (cancelID, b1) = popActive b in Some (DCancel cancelID, b1\<lparr>pb_rng := r1\<rparr>)
      else
        case (if roll < fl (60 / 100) then
                (case Int63n R (wrap64 (pb_MidPrice b sdiv 10 + 1)) r1 of None \<Rightarrow> None | Some (variation, r2) \<Rightarrow>
                 case Intn R 2 r2 of None \<Rightarrow> None | Some (coin, r3) \<Rightarrow>
                   Some (LIMIT, wrap64 (if coin = 0 then pb_MidPrice b + variation else pb_MidPrice b - variation), r3))
              else if roll < fl (85 / 100) then Some (MARKET, pb_MidPrice b, r1)
              else Some (LIMIT, pb_MidPrice b, r1)) of
          None \<Rightarrow> None
        | Some (orderType, price, r4) \<Rightarrow>
            case Intn R 2 r4 of None \<Rightarrow> None | Some (coin, r5) \<Rightarrow>
            let (q, r6) = zipfQuantity R r5 in
              Some (DOrder orderType (if coin = 0 then SELL else BUY) price q, b\<lparr>pb_rng := r6\<rparr>))"

definition nextDraft :: "'r rng_ops \<Rightarrow> int \<Rightarrow> 'r PretestBot \<Rightarrow> (draft \<times> 'r PretestBot) option" where
  "nextDraft R seq b =
     (if pb_Strategy b = MarketMaker then makerDraft R seq b
      else if pb_Strategy b = MomentumTrader then momentumDraft R seq b
      else if pb_Strategy b = NoiseTrader then noiseDraft R b
      else Some (DOrder LIMIT BUY (pb_MidPrice b) 100, b))"

definition GenerateNextOrder :: "'r rng_ops \<Rightarrow> 'r PretestBot \<Rightarrow> (POrder \<times> 'r PretestBot) option" where
  "GenerateNextOrder R b0 =
     (let seq = wrap64 (pb_seqNum b0 + 1);
          b = b0\<lparr>pb_ordersSent := wrap64 (pb_ordersSent b0 + 1), pb_seqNum := seq\<rparr> in
      case nextDraft R seq b of
        None \<Rightarrow> None
      | Some (DCancel cancelID, b1) \<Rightarrow>
          Some (\<lparr>po_BotId = u64 (pb_NumericID b), po_OrderId = u64 cancelID, po_Type = CANCEL, po_Side = BUY, po_Price = 0, po_Quantity = 0\<rparr>, b1)
      | Some (DOrder orderType side price qty, b1) \<Rightarrow>
          let orderID = mkOrderID (pb_NumericID b) seq in
          Some (\<lparr>po_BotId = u64 (pb_NumericID b), po_OrderId = u64 orderID, po_Type = orderType, po_Side = side,
                 po_Price = price, po_Quantity = u64 qty\<rparr>,
                if orderType = LIMIT then b1\<lparr>pb_activeOrders := pb_activeOrders b1 @ [orderID]\<rparr> else b1))"

definition recordSend :: "int \<Rightarrow> POrder \<Rightarrow> 'r PretestBot \<Rightarrow> 'r PretestBot option" where
  \<comment> \<open>the send loop: \<^verbatim>\<open>b.SendTimes[order.OrderId & 0xFFFFFFFF] = now\<close>\<close>
  "recordSend now order b =
     (let seq = nat (low32 (po_OrderId order)) in
      if seq < length (pb_SendTimes b) then Some (b\<lparr>pb_SendTimes := (pb_SendTimes b)[seq := now]\<rparr>) else None)"

section \<open>One step of the send loop\<close>

definition pcfg_ok :: "'r PretestBot \<Rightarrow> bool" where
  "pcfg_ok b \<longleftrightarrow> 0 \<le> pb_Spread b \<and> pb_Spread b < 2 ^ 60 \<and> 0 \<le> pb_MidPrice b \<and> pb_MidPrice b < 2 ^ 60 \<and>
     0 \<le> pb_NumericID b \<and> pb_NumericID b < 2 ^ 31"

text \<open>What a strategy leaves untouched, and the only change it makes to the open orders.\<close>

definition same_bot :: "'r PretestBot \<Rightarrow> 'r PretestBot \<Rightarrow> bool" where
  "same_bot b b' \<longleftrightarrow> pb_NumericID b' = pb_NumericID b \<and> pb_Spread b' = pb_Spread b \<and> pb_MidPrice b' = pb_MidPrice b \<and>
     pb_OrdersToSend b' = pb_OrdersToSend b \<and> pb_SendTimes b' = pb_SendTimes b \<and> pb_Strategy b' = pb_Strategy b"

definition draft_ok :: "'r PretestBot \<Rightarrow> draft \<Rightarrow> 'r PretestBot \<Rightarrow> bool" where
  "draft_ok b d b' \<longleftrightarrow> same_bot b b' \<and> pb_seqNum b' = pb_seqNum b \<and>
     (case d of DCancel c \<Rightarrow> pb_activeOrders b = c # pb_activeOrders b'
      | DOrder t s p q \<Rightarrow> pb_activeOrders b' = pb_activeOrders b \<and> t \<noteq> CANCEL \<and> 0 < q \<and> q \<le> 10000)"

context rng_source
begin

lemma makerDraft_ok:
  assumes "pcfg_ok b" shows "\<exists>d b'. makerDraft R seq b = Some (d, b') \<and> draft_ok b d b'"
proof -
  have s: "0 < wrap64 (pb_Spread b sdiv 10 + 1)"
    using assms sdiv_10_bounds [of "pb_Spread b"] by (simp add: pcfg_ok_def wrap64_id')
  have q: "rngInt63n R 500 r = (x, r') \<Longrightarrow> 0 < wrap64 (500 + x) \<and> wrap64 (500 + x) \<le> 10000" for r x r'
    using int63n_range [of 500 r] by (simp add: wrap64_id')
  show ?thesis using s q
    by (auto simp: makerDraft_def Let_def Int63n_def draft_ok_def same_bot_def split: prod.splits)
qed

lemma momentumDraft_ok:
  assumes "pcfg_ok b" shows "\<exists>d b'. momentumDraft R seq b = Some (d, b') \<and> draft_ok b d b'"
proof -
  have s: "0 < wrap64 (pb_Spread b * 2 + 1)" using assms by (simp add: pcfg_ok_def wrap64_id')
  have q: "rngInt63n R 3000 r = (x, r') \<Longrightarrow> 0 < wrap64 (2000 + x) \<and> wrap64 (2000 + x) \<le> 10000" for r x r'
    using int63n_range [of 3000 r] by (simp add: wrap64_id')
  show ?thesis using s q
    by (auto simp: momentumDraft_def Let_def Int63n_def Intn_def draft_ok_def same_bot_def popActive_def split: prod.splits)
qed

lemma noiseDraft_ok:
  assumes "pcfg_ok b" shows "\<exists>d b'. noiseDraft R b = Some (d, b') \<and> draft_ok b d b'"
proof -
  have s: "0 < wrap64 (pb_MidPrice b sdiv 10 + 1)"
    using assms sdiv_10_bounds [of "pb_MidPrice b"] by (simp add: pcfg_ok_def wrap64_id')
  have z: "zipfQuantity R r = (x, r') \<Longrightarrow> 0 < x \<and> x \<le> 10000" for r x r'
    using zipfQuantity_range [of r] by auto
  show ?thesis using s z
    by (auto simp: noiseDraft_def Let_def Int63n_def Intn_def draft_ok_def same_bot_def popActive_def split: prod.splits)
qed

end


section \<open>A whole run\<close>

fun sendOrders :: "'r rng_ops \<Rightarrow> int list \<Rightarrow> 'r PretestBot \<Rightarrow> (POrder list \<times> 'r PretestBot) option" where
  \<comment> \<open>one order per clock reading\<close>
  "sendOrders R [] b = Some ([], b)"
| "sendOrders R (now # nows) b =
     (case GenerateNextOrder R b of None \<Rightarrow> None | Some (m, b1) \<Rightarrow>
      case recordSend now m b1 of None \<Rightarrow> None | Some b2 \<Rightarrow>
      case sendOrders R nows b2 of None \<Rightarrow> None | Some (ms, b3) \<Rightarrow> Some (m # ms, b3))"

definition limitIDs :: "POrder list \<Rightarrow> int list" where
  "limitIDs ms = map po_OrderId (filter (\<lambda>m. po_Type m = LIMIT) ms)"

definition cancelIDs :: "POrder list \<Rightarrow> int list" where
  "cancelIDs ms = map po_OrderId (filter (\<lambda>m. po_Type m = CANCEL) ms)"

definition fresh_ids :: "int \<Rightarrow> POrder list \<Rightarrow> bool" where
  "fresh_ids n ms \<longleftrightarrow> (\<forall>i < length ms. po_Type (ms ! i) \<noteq> CANCEL \<longrightarrow> po_OrderId (ms ! i) = mkOrderID n (int i + 1))"

definition run_inv :: "'r PretestBot \<Rightarrow> POrder list \<Rightarrow> bool" where
  "run_inv b ms \<longleftrightarrow> pcfg_ok b \<and> pb_seqNum b = int (length ms) \<and> int (length (pb_SendTimes b)) = pb_OrdersToSend b + 1 \<and>
     limitIDs ms = cancelIDs ms @ pb_activeOrders b \<and> fresh_ids (pb_NumericID b) ms"

lemma fresh_ids_snoc:
  "fresh_ids n (ms @ [m]) \<longleftrightarrow> fresh_ids n ms \<and> (po_Type m \<noteq> CANCEL \<longrightarrow> po_OrderId m = mkOrderID n (int (length ms) + 1))"
  by (auto simp: fresh_ids_def nth_append less_Suc_eq)

lemma limitIDs_snoc [simp]: "limitIDs (ms @ [m]) = limitIDs ms @ (if po_Type m = LIMIT then [po_OrderId m] else [])"
  by (simp add: limitIDs_def)

lemma cancelIDs_snoc [simp]: "cancelIDs (ms @ [m]) = cancelIDs ms @ (if po_Type m = CANCEL then [po_OrderId m] else [])"
  by (simp add: cancelIDs_def)

lemma limitIDs_fresh:
  assumes "fresh_ids n ms" "i \<in> set (limitIDs ms)"
  shows "\<exists>k. 0 < k \<and> k \<le> int (length ms) \<and> i = mkOrderID n k"
proof -
  obtain m where "m \<in> set ms" "po_Type m = LIMIT" "i = po_OrderId m" using assms(2) by (auto simp: limitIDs_def)
  then obtain j where "j < length ms" "po_Type (ms ! j) = LIMIT" "i = po_OrderId (ms ! j)" by (auto simp: in_set_conv_nth)
  then show ?thesis using assms(1) by (intro exI [of _ "int j + 1"]) (auto simp: fresh_ids_def)
qed

lemma limitIDs_distinct:
  assumes "fresh_ids n ms" "0 \<le> n" "n < 2 ^ 31" "int (length ms) < 2 ^ 32"
  shows "distinct (limitIDs ms)"
  using assms
proof (induction ms rule: rev_induct)
  case (snoc m ms)
  have "po_OrderId m \<notin> set (limitIDs ms)" if "po_Type m = LIMIT"
  proof
    assume "po_OrderId m \<in> set (limitIDs ms)"
    then obtain k where k: "0 < k" "k \<le> int (length ms)" "po_OrderId m = mkOrderID n k"
      using limitIDs_fresh [of n ms] snoc.prems(1) by (auto simp: fresh_ids_snoc)
    have "po_OrderId m = mkOrderID n (int (length ms) + 1)" using snoc.prems(1) that by (simp add: fresh_ids_snoc)
    then show False using k snoc.prems(2-4) by (simp add: mkOrderID_eq)
  qed
  then show ?case using snoc by (auto simp: fresh_ids_snoc)
qed (simp add: limitIDs_def)

lemma mkOrderID_u64:
  assumes "0 \<le> n" "n < 2 ^ 31" "0 \<le> k" "k < 2 ^ 32"
  shows "u64 (mkOrderID n k) = mkOrderID n k" and "low32 (mkOrderID n k) = k"
  using mkOrderID_parts [OF assms] mkOrderID_eq [OF assms] assms by (auto simp: u64_def)

context rng_source
begin

lemma draft_step:
  assumes "pcfg_ok b"
  shows "\<exists>d b'. nextDraft R seq b = Some (d, b') \<and> draft_ok b d b'"
proof -
  have "draft_ok b (DOrder LIMIT BUY (pb_MidPrice b) 100) b" by (simp add: draft_ok_def same_bot_def)
  then show ?thesis
    unfolding nextDraft_def using makerDraft_ok [OF assms, of seq] momentumDraft_ok [OF assms, of seq] noiseDraft_ok [OF assms]
    by simp
qed

lemma GenerateNextOrder_ok:
  assumes inv: "run_inv b ms" and len: "int (length ms) < pb_OrdersToSend b" "pb_OrdersToSend b < 2 ^ 31"
  shows "\<exists>m b1 b2. GenerateNextOrder R b = Some (m, b1) \<and> recordSend now m b1 = Some b2 \<and> run_inv b2 (ms @ [m]) \<and>
     pb_OrdersToSend b2 = pb_OrdersToSend b \<and> pb_NumericID b2 = pb_NumericID b"
proof -
  let ?seq = "wrap64 (pb_seqNum b + 1)"
  let ?b = "b\<lparr>pb_ordersSent := wrap64 (pb_ordersSent b + 1), pb_seqNum := ?seq\<rparr>"
  let ?n = "pb_NumericID b"
  have seq: "?seq = int (length ms) + 1" using inv len by (simp add: run_inv_def wrap64_id')
  have cfg: "pcfg_ok ?b" and n: "0 \<le> ?n" "?n < 2 ^ 31" using inv by (auto simp: run_inv_def pcfg_ok_def)
  obtain d b1 where d: "nextDraft R ?seq ?b = Some (d, b1)" and ok: "draft_ok ?b d b1"
    using draft_step [OF cfg, of ?seq] by auto
  have "int (length ms) + 1 < int (length (pb_SendTimes b1))"
    using ok inv len(1) by (simp add: draft_ok_def same_bot_def run_inv_def)
  then have in_table: "nat k < length (pb_SendTimes b1)" if "0 < k" "k \<le> int (length ms) + 1" for k
    using that by linarith
  show ?thesis
  proof (cases d)
    case (DCancel c)
    have c: "pb_activeOrders b = c # pb_activeOrders b1" using ok DCancel by (simp add: draft_ok_def)
    then have "c \<in> set (limitIDs ms)" using inv by (simp add: run_inv_def)
    then obtain k where k: "0 < k" "k \<le> int (length ms)" "c = mkOrderID ?n k"
      using limitIDs_fresh [of ?n ms c] inv by (auto simp: run_inv_def)
    have "u64 c = c" "low32 c = k" using mkOrderID_u64 [OF n, of k] k len by auto
    then show ?thesis using d ok DCancel c k inv seq in_table [of k]
      by (auto simp: GenerateNextOrder_def Let_def recordSend_def run_inv_def draft_ok_def same_bot_def pcfg_ok_def fresh_ids_snoc)
  next
    case (DOrder t s p q)
    have "u64 (mkOrderID ?n ?seq) = mkOrderID ?n ?seq" "low32 (mkOrderID ?n ?seq) = ?seq"
      using mkOrderID_u64 [OF n, of ?seq] seq len by auto
    then show ?thesis using d ok DOrder inv seq in_table [of ?seq]
      by (auto simp: GenerateNextOrder_def Let_def recordSend_def run_inv_def draft_ok_def same_bot_def pcfg_ok_def fresh_ids_snoc)
  qed
qed

lemma sendOrders_ok:
  assumes "run_inv b hist" "int (length hist + length nows) \<le> pb_OrdersToSend b" "pb_OrdersToSend b < 2 ^ 31"
  shows "\<exists>ms b'. sendOrders R nows b = Some (ms, b') \<and> length ms = length nows \<and> fresh_ids (pb_NumericID b) (hist @ ms) \<and>
     (\<forall>k \<le> length ms. prefix (cancelIDs (hist @ take k ms)) (limitIDs (hist @ take k ms)))"
  using assms
proof (induction nows arbitrary: b hist)
  case Nil
  then show ?case by (auto simp: run_inv_def)
next
  case (Cons now nows)
  obtain m b1 b2 where m: "GenerateNextOrder R b = Some (m, b1)" "recordSend now m b1 = Some b2" "run_inv b2 (hist @ [m])"
    "pb_OrdersToSend b2 = pb_OrdersToSend b" "pb_NumericID b2 = pb_NumericID b"
    using GenerateNextOrder_ok [OF Cons.prems(1), of now] Cons.prems(2,3) by auto
  obtain ms b' where ms: "sendOrders R nows b2 = Some (ms, b')" "length ms = length nows" "fresh_ids (pb_NumericID b) ((hist @ [m]) @ ms)"
    and pre: "\<forall>k \<le> length ms. prefix (cancelIDs ((hist @ [m]) @ take k ms)) (limitIDs ((hist @ [m]) @ take k ms))"
    using Cons.IH [OF m(3)] Cons.prems(2,3) m(4,5) by auto
  have "prefix (cancelIDs (hist @ take k (m # ms))) (limitIDs (hist @ take k (m # ms)))" if "k \<le> Suc (length ms)" for k
  proof (cases k)
    case 0
    then show ?thesis using Cons.prems(1) by (simp add: run_inv_def)
  next
    case (Suc j)
    then show ?thesis using pre that by simp
  qed
  then show ?case using m ms by simp
qed

end

section \<open>Properties\<close>

text \<open>A pretest bot never panics while it sends: it stays within its table of send times, the i-th order that is
  not a cancellation carries the i-th identifier of the bot, and at every moment its cancellations name
  its oldest limit orders in the order of their submission, none of them twice.\<close>

lemma pretest_bot_cancels_own_oldest:
  assumes "rng_source R" "NewPretestBot R num name strategy mid spread n rate seed = Some b" "pcfg_ok b"
    and "int (length nows) \<le> n" "n < 2 ^ 31"
  shows "\<exists>ms b'. sendOrders R nows b = Some (ms, b') \<and> length ms = length nows \<and> fresh_ids num ms \<and> distinct (limitIDs ms) \<and>
     (\<forall>k \<le> length ms. prefix (cancelIDs (take k ms)) (limitIDs (take k ms)))"
proof -
  have b: "run_inv b []" "pb_OrdersToSend b = n" "pb_NumericID b = num"
    using assms(2,3,4) by (auto simp: NewPretestBot_def run_inv_def limitIDs_def cancelIDs_def fresh_ids_def split: if_splits)
  obtain ms b' where ms: "sendOrders R nows b = Some (ms, b')" "length ms = length nows" "fresh_ids num ms"
    "\<forall>k \<le> length ms. prefix (cancelIDs (take k ms)) (limitIDs (take k ms))"
    using rng_source.sendOrders_ok [OF assms(1) b(1), of nows] assms(4,5) b by auto
  moreover have "distinct (limitIDs ms)"
    using limitIDs_distinct [OF ms(3)] assms(3-5) b(3) ms(2) by (auto simp: pcfg_ok_def)
  ultimately show ?thesis by blast
qed

lemma pretest_bot_cancels_own_oldest_witness:
  "\<exists>ms b'. sendOrders lcg_ops [11, 12, 13, 14, 15, 16] (the (NewPretestBot lcg_ops 2 ''bot-2'' MomentumTrader 100 (1 / 10) 6 50 7)) = Some (ms, b') \<and>
     length ms = 6 \<and> fresh_ids 2 ms \<and> distinct (limitIDs ms)"
proof -
  let ?b = "the (NewPretestBot lcg_ops 2 ''bot-2'' MomentumTrader 100 (1 / 10) 6 50 7)"
  have "NewPretestBot lcg_ops 2 ''bot-2'' MomentumTrader 100 (1 / 10) 6 50 7 = Some ?b" by (simp add: NewPretestBot_def)
  moreover have "pcfg_ok ?b" by code_simp
  ultimately show ?thesis using pretest_bot_cancels_own_oldest [OF lcg.rng_source_axioms, of 2 _ _ _ _ 6 _ _ ?b "[11, 12, 13, 14, 15, 16]"]
    by fastforce
qed

end
