(* ===== verification/Fix_Adapter.thy ===== *)
theory Fix_Adapter
  imports Fix_Codec Pretest_Bot
begin

text \<open>
  The protocol adapters of \<^verbatim>\<open>services/testing/runner.go\<close> that carry an encoding of their own: the FIX session of
  a bot (logon, orders out, execution reports in) and the JSON reports of the WebSocket and REST adapters.
  A connection is the bytes still to be read; a write is the bytes written and may fail. Clock readings are
  arguments. Maps are written in any order: the theorems take any permutation of the fields.
\<close>

section \<open>Reports\<close>

datatype PStatus = ACCEPTED | FILLED | PARTIAL | REJECTED | CANCELLED

record ExecutionReport =
  er_OrderId :: int
  er_Status :: PStatus
  er_FilledQty :: int
  er_FilledPrice :: int
  er_EngineSeqId :: int
  er_ProcessingNs :: int
  er_MatchedWith :: int

record PretestEvent =
  ev_Report :: "ExecutionReport option"
  ev_IsOwn :: bool
  ev_ReceivedAt :: int
  ev_IsFailure :: bool

section \<open>Numbers\<close>

definition ParseUint :: "string \<Rightarrow> int" where
  \<comment> \<open>the value of \<^verbatim>\<open>strconv.ParseUint(s, 10, 64)\<close> when its error is ignored\<close>
  "ParseUint s =
     (if s = [] \<or> \<not> list_all is_digit s then 0 else if int (atou s) < 2 ^ 64 then int (atou s) else 2 ^ 64 - 1)"

definition ParseInt :: "string \<Rightarrow> int" where
  \<comment> \<open>the value of \<^verbatim>\<open>strconv.ParseInt(s, 10, 64)\<close> when its error is ignored\<close>
  "ParseInt s =
     (let (neg, ds) = (case s of c # cs \<Rightarrow> if c = CHR ''-'' then (True, cs) else if c = CHR ''+'' then (False, cs) else (False, s)
                       | [] \<Rightarrow> (False, s)) in
      if ds = [] \<or> \<not> list_all is_digit ds then 0
      else if neg then max (- (2 ^ 63)) (- int (atou ds)) else min (2 ^ 63 - 1) (int (atou ds)))"

definition FormatUint :: "int \<Rightarrow> string" where
  "FormatUint n = utoa (nat n)"

lemma ParseUint_FormatUint: "0 \<le> n \<Longrightarrow> n < 2 ^ 64 \<Longrightarrow> ParseUint (FormatUint n) = n"
  using utoa_digits [of "nat n"] by (simp add: ParseUint_def FormatUint_def)

lemma ParseInt_Itoa: "in64 i \<Longrightarrow> ParseInt (Itoa i) = i"
proof -
  assume i: "in64 i"
  have d: "utoa n \<noteq> []" "list_all is_digit (utoa n)" for n using utoa_digits by auto
  show ?thesis
  proof (cases "i < 0")
    case True
    then show ?thesis using d i by (simp add: ParseInt_def Itoa_def Let_def in64_def)
  next
    case False
    obtain c cs where c: "utoa (nat i) = c # cs" using d by (meson neq_Nil_conv)
    then have "c \<noteq> CHR ''-''" "c \<noteq> CHR ''+''" using d(2) [of "nat i"] digit_not_sign by auto
    then have "(case utoa (nat i) of c # cs \<Rightarrow> if c = CHR ''-'' then (True, cs) else if c = CHR ''+'' then (False, cs) else (False, utoa (nat i))
        | [] \<Rightarrow> (False, utoa (nat i))) = (False, utoa (nat i))" using c by simp
    then show ?thesis using False d i by (simp add: ParseInt_def Itoa_def Let_def in64_def)
  qed
qed

section \<open>The FIX session\<close>

record FIXAdapter =
  fa_botID :: int
  fa_seqIn :: int
  fa_seqOut :: int
  fa_compID :: string
  fa_targetID :: string

definition tag :: "(int \<times> string) list \<Rightarrow> int \<Rightarrow> string" where
  "tag tags t = get_or [] tags t"

definition logonFields :: "FIXAdapter \<Rightarrow> (int \<times> string) list" where
  "logonFields a = [(8, ''FIX.4.4''), (35, ''A''), (49, fa_compID a), (56, fa_targetID a), (34, Itoa (fa_seqOut a)), (98, ''0''), (108, ''30'')]"

function logonReply :: "string \<Rightarrow> string \<Rightarrow> string \<times> string" where
  \<comment> \<open>unlike the receiver, the logon takes what it has when the connection ends\<close>
  "logonReply respBytes inp =
     (case ReadBytes inp of None \<Rightarrow> (respBytes, [])
      | Some (line, rest) \<Rightarrow>
          let resp = respBytes @ line in
          if Contains resp (SOH # ''10='') \<and> HasSuffix resp [SOH] then (resp, rest) else logonReply resp rest)"
  by pat_completeness auto

termination logonReply
  by (relation "measure (\<lambda>(respBytes, inp). length inp)") (auto dest: ReadBytes_shorter)

declare logonReply.simps [simp del]

datatype init_error = Dial_Failed | Write_Failed | Read_Failed | Not_Logon string

definition FIX_Init :: "bool \<Rightarrow> bool \<Rightarrow> ((int \<times> string) list \<Rightarrow> (int \<times> string) list) \<Rightarrow> int \<Rightarrow> string \<Rightarrow>
    (init_error + FIXAdapter \<times> string \<times> string)" where
  \<comment> \<open>the session, the bytes written and the input behind the reply; \<open>ord\<close> is the iteration order\<close>
  "FIX_Init dialOk writeOk ord botID inp =
     (let a = \<lparr>fa_botID = botID, fa_seqIn = 0, fa_seqOut = 0, fa_compID = ''BOT-'' @ Itoa botID, fa_targetID = ''CONTESTANT''\<rparr> in
      if \<not> dialOk then Inl Dial_Failed
      else
        let a1 = a\<lparr>fa_seqOut := wrap64 (fa_seqOut a + 1)\<rparr>; out = BuildFIX (ord (logonFields a1)) in
        if \<not> writeOk then Inl Write_Failed
        else case ReadBytes inp of None \<Rightarrow> Inl Read_Failed
          | Some (line, rest) \<Rightarrow>
              let (resp, rest') = logonReply line rest; tags = ParseFIX resp in
              if tag tags 35 \<noteq> ''A'' then Inl (Not_Logon (tag tags 35))
              else Inr (a1\<lparr>fa_seqIn := 1\<rparr>, out, rest'))"

definition orderFields :: "int \<Rightarrow> POrder \<Rightarrow> FIXAdapter \<Rightarrow> (int \<times> string) list" where
  "orderFields now order a =
     (let sideVal = (if po_Side order = BUY then ''1'' else ''2'');
          typeVal = (if po_Type order = LIMIT then ''2'' else ''1'');
          fields = [(8, ''FIX.4.4''), (35, ''D''), (49, fa_compID a), (56, fa_targetID a), (34, Itoa (fa_seqOut a)),
            (11, FormatUint (po_OrderId order)), (54, sideVal), (38, FormatUint (po_Quantity order)),
            (44, Itoa (po_Price order)), (40, typeVal), (55, ''BTCUSD''), (1, Itoa (fa_botID a))] in
      if po_Type order = CANCEL
      then AList.update 41 (FormatUint (po_OrderId order))
             (AList.update 11 (Itoa (mkOrderID (fa_botID a) now)) (AList.update 35 ''F'' fields))
      else fields)"

definition FIX_SendOrder :: "((int \<times> string) list \<Rightarrow> (int \<times> string) list) \<Rightarrow> int \<Rightarrow> POrder \<Rightarrow> FIXAdapter \<Rightarrow> string \<times> FIXAdapter" where
  "FIX_SendOrder ord now order a =
     (let a1 = a\<lparr>fa_seqOut := wrap64 (fa_seqOut a + 1)\<rparr> in (BuildFIX (ord (orderFields now order a1)), a1))"

definition fixStatus :: "string \<Rightarrow> PStatus" where
  "fixStatus s =
     (if s = ''0'' \<or> s = ''accepted'' then ACCEPTED
      else if s = ''1'' \<or> s = ''partial'' then PARTIAL
      else if s = ''2'' \<or> s = ''filled'' then FILLED
      else if s = ''4'' \<or> s = ''cancelled'' then CANCELLED
      else if s = ''8'' \<or> s = ''rejected'' then REJECTED
      else ACCEPTED)"

definition fixReport :: "(int \<times> string) list \<Rightarrow> ExecutionReport option" where
  "fixReport tags =
     (if tag tags 35 = ''8'' then
        let orderID = ParseUint (tag tags 11);
            qty = ParseUint (tag tags 32);
            qty = (if qty = 0 then ParseUint (tag tags 38) else qty);
            price = ParseInt (tag tags 31);
            price = (if price = 0 then ParseInt (tag tags 44) else price);
            seqID = ParseUint (tag tags 17);
            seqID = (if seqID = 0 then ParseUint (tag tags 34) else seqID) in
        Some \<lparr>er_OrderId = orderID, er_Status = fixStatus (tag tags 39), er_FilledQty = qty, er_FilledPrice = price,
              er_EngineSeqId = seqID, er_ProcessingNs = ParseUint (tag tags 9000), er_MatchedWith = ParseUint (tag tags 9001)\<rparr>
      else None)"

lemma readFIXLoop_shorter: "readFIXLoop acc inp = Some (m, rest) \<Longrightarrow> length rest < length inp"
proof (induction acc inp rule: readFIXLoop.induct)
  case (1 acc inp)
  obtain line r where r: "ReadBytes inp = Some (line, r)" using 1(2) by (subst (asm) readFIXLoop.simps) (auto split: option.splits)
  have "length r < length inp" using r by (rule ReadBytes_shorter)
  moreover have "readFIXLoop acc inp =
      (if Contains (acc @ line) (SOH # ''10='') \<and> HasSuffix (acc @ line) [SOH] then Some (acc @ line, r) else readFIXLoop (acc @ line) r)"
    using r by (subst readFIXLoop.simps) (simp add: Let_def)
  ultimately show ?case using 1(1) [OF r refl refl] 1(2) by (fastforce split: if_splits)
qed

lemma readFIX_shorter: "readFIX inp = Some (m, rest) \<Longrightarrow> length rest < length inp"
  by (auto simp: readFIX_def split: option.splits dest!: ReadBytes_shorter readFIXLoop_shorter)

function FIX_receive :: "(nat \<Rightarrow> int) \<Rightarrow> string \<Rightarrow> FIXAdapter \<Rightarrow> PretestEvent list \<times> FIXAdapter" where
  \<comment> \<open>the receiver of a connection that ends with \<open>inp\<close>; \<open>clock k\<close> is the time read when k bytes are left\<close>
  "FIX_receive clock inp a =
     (case readFIX inp of None \<Rightarrow> ([], a)
      | Some (msg, rest) \<Rightarrow>
          let a1 = a\<lparr>fa_seqIn := wrap64 (fa_seqIn a + 1)\<rparr>;
              (evs, a2) = FIX_receive clock rest a1 in
          (case fixReport (ParseFIX msg) of None \<Rightarrow> (evs, a2)
           | Some report \<Rightarrow>
               (\<lparr>ev_Report = Some report, ev_IsOwn = (wrap64 (er_OrderId report div 2 ^ 32) = fa_botID a),
                 ev_ReceivedAt = clock (length inp), ev_IsFailure = False\<rparr> # evs, a2)))"
  by pat_completeness auto

termination FIX_receive
  by (relation "measure (\<lambda>(clock, inp, a). length inp)") (auto dest: readFIX_shorter)

declare FIX_receive.simps [simp del]

section \<open>JSON reports\<close>

datatype json = JNum rat | JStr string | JOther

definition getFloatAsUint64 :: "(rat \<Rightarrow> int) \<Rightarrow> json option \<Rightarrow> int \<times> bool" where
  \<comment> \<open>\<open>conv\<close> is the conversion of a value outside the range, which depends on the machine\<close>
  "getFloatAsUint64 conv v =
     (case v of Some (JNum f) \<Rightarrow> (if 0 \<le> f \<and> f < 2 ^ 64 then trunc64 f else conv f, True) | _ \<Rightarrow> (0, False))"

definition getFloatAsInt64 :: "(rat \<Rightarrow> int) \<Rightarrow> json option \<Rightarrow> int \<times> bool" where
  "getFloatAsInt64 conv v =
     (case v of Some (JNum f) \<Rightarrow> (if - (2 ^ 63) \<le> f \<and> f < 2 ^ 63 then trunc64 f else conv f, True) | _ \<Rightarrow> (0, False))"

definition jsonStatus :: "string \<Rightarrow> PStatus" where
  \<comment> \<open>an unknown status leaves the zero value\<close>
  "jsonStatus s =
     (let u = ToUpper s in
      if u = ''ACCEPTED'' then ACCEPTED else if u = ''FILLED'' then FILLED else if u = ''PARTIAL'' then PARTIAL
      else if u = ''REJECTED'' then REJECTED else if u = ''CANCELLED'' then CANCELLED else ACCEPTED)"

definition mapJSONToExecutionReport :: "(rat \<Rightarrow> int) \<Rightarrow> (string \<times> json) list \<Rightarrow> ExecutionReport" where
  "mapJSONToExecutionReport conv repMap =
     (let num = (\<lambda>k. fst (getFloatAsUint64 conv (map_of repMap k)));
          statusStr = (case map_of repMap ''status'' of Some (JStr s) \<Rightarrow> s | _ \<Rightarrow> []) in
      \<lparr>er_OrderId = num ''order_id'', er_Status = jsonStatus statusStr, er_FilledQty = num ''filled_qty'',
       er_FilledPrice = fst (getFloatAsInt64 conv (map_of repMap ''filled_price'')), er_EngineSeqId = num ''engine_seq_id'',
       er_ProcessingNs = num ''processing_ns'', er_MatchedWith = num ''matched_with''\<rparr>)"

definition WS_receive :: "(rat \<Rightarrow> int) \<Rightarrow> int \<Rightarrow> (int \<times> (string \<times> json) list option) list \<Rightarrow> PretestEvent list" where
  \<comment> \<open>the receiver of the WebSocket adapter on the payloads read until the connection ends; \<open>None\<close>: not JSON\<close>
  "WS_receive conv botID payloads =
     concat (map (\<lambda>(receivedAt, p). case p of None \<Rightarrow> [] | Some repMap \<Rightarrow>
        let report = mapJSONToExecutionReport conv repMap in
        [\<lparr>ev_Report = Some report, ev_IsOwn = (wrap64 (er_OrderId report div 2 ^ 32) = botID), ev_ReceivedAt = receivedAt,
          ev_IsFailure = False\<rparr>]) payloads)"

definition REST_receive :: "(rat \<Rightarrow> int) \<Rightarrow> (string \<Rightarrow> (string \<times> json) list option) \<Rightarrow> int \<Rightarrow> (int \<times> string) list \<Rightarrow> PretestEvent list" where
  \<comment> \<open>the event stream of the REST adapter, line by line; only its own reports pass\<close>
  "REST_receive conv unmarshal botID ls =
     concat (map (\<lambda>(receivedAt, line).
        if HasPrefix line ''data:'' then
          case unmarshal (TrimSpace (TrimPrefix line ''data:'')) of None \<Rightarrow> [] | Some repMap \<Rightarrow>
            let report = mapJSONToExecutionReport conv repMap; isOwn = (wrap64 (er_OrderId report div 2 ^ 32) = botID) in
            if isOwn then [\<lparr>ev_Report = Some report, ev_IsOwn = isOwn, ev_ReceivedAt = receivedAt, ev_IsFailure = False\<rparr>] else []
        else []) ls)"

end
