(* ===== verification/Engine.thy ===== *)
theory Engine
  imports Fill_Sync Fix_Adapter
begin

text \<open>
  The reference matching engines of \<^verbatim>\<open>test_payloads\<close>. \<^verbatim>\<open>go_optimized\<close>, \<^verbatim>\<open>go_fix\<close>, \<^verbatim>\<open>go_ws\<close> and \<^verbatim>\<open>go_rest\<close> have the same
  \<^verbatim>\<open>handleOrder\<close> and differ in how a report is written; \<open>handleOrder\<close> returns the reports in the order in which
  they are written, each with the connection it goes to, and the engines wrap it. The time an order took
  is the argument \<open>ns\<close>, a function of the sequence number of the report.

  The matching loop of these engines searches the book from the front after every trade. \<open>matchLoop_sweep\<close>
  shows that it makes the trades of \<open>sweep\<close>, the single pass that the shadow book refines as well.
\<close>

section \<open>State\<close>

definition OrderType_LIMIT :: int where "OrderType_LIMIT = 0"
definition OrderType_MARKET :: int where "OrderType_MARKET = 1"
definition OrderType_CANCEL :: int where "OrderType_CANCEL = 2"
definition Side_BUY :: int where "Side_BUY = 0"
definition Side_SELL :: int where "Side_SELL = 1"

lemmas engine_consts = OrderType_LIMIT_def OrderType_MARKET_def OrderType_CANCEL_def Side_BUY_def Side_SELL_def

record EOrder =
  eo_BotID :: int
  eo_OrderID :: int
  eo_Type :: int
  eo_Side :: int
  eo_Price :: int
  eo_Quantity :: int
  eo_Conn :: nat \<comment> \<open>the connection, with the name of its session\<close>
  eo_TargetCompID :: string

record OrderBook =
  buyOrders :: "EOrder list"
  sellOrders :: "EOrder list"
  seqID :: int

type_synonym report = "nat \<times> string \<times> ExecutionReport"

section \<open>Matching\<close>

fun bestIdx :: "bool \<Rightarrow> EOrder \<Rightarrow> EOrder list \<Rightarrow> nat option" where
  \<comment> \<open>the first order within the limit that is not of the same bot\<close>
  "bestIdx buy ord [] = None"
| "bestIdx buy ord (ro # rs) =
     (if eo_Type ord = OrderType_LIMIT \<and> (if buy then eo_Price ro > eo_Price ord else eo_Price ro < eo_Price ord) then None
      else if eo_OrderID ro div 2 ^ 32 = eo_OrderID ord div 2 ^ 32 then map_option Suc (bestIdx buy ord rs)
      else Some 0)"

lemma bestIdx_less: "bestIdx buy ord rs = Some i \<Longrightarrow> i < length rs"
  by (induction rs arbitrary: i) (auto split: if_splits)

definition mkReport :: "(int \<Rightarrow> int) \<Rightarrow> EOrder \<Rightarrow> PStatus \<Rightarrow> int \<Rightarrow> int \<Rightarrow> int \<Rightarrow> int \<Rightarrow> report" where
  "mkReport ns ord status qty price seq matchedWith =
     (eo_Conn ord, eo_TargetCompID ord,
      \<lparr>er_OrderId = eo_OrderID ord, er_Status = status, er_FilledQty = qty, er_FilledPrice = price, er_EngineSeqId = seq,
       er_ProcessingNs = ns seq, er_MatchedWith = matchedWith\<rparr>)"

function matchLoop :: "(int \<Rightarrow> int) \<Rightarrow> bool \<Rightarrow> EOrder \<Rightarrow> EOrder list \<Rightarrow> int \<Rightarrow> EOrder \<times> EOrder list \<times> int \<times> report list" where
  "matchLoop ns buy ord book seq =
     (if book \<noteq> [] \<and> eo_Quantity ord > 0 then
        case bestIdx buy ord book of
          None \<Rightarrow> (ord, book, seq, [])
        | Some i \<Rightarrow>
            let best = book ! i;
                matchQty = (if eo_Quantity best < eo_Quantity ord then eo_Quantity best else eo_Quantity ord);
                ord1 = ord\<lparr>eo_Quantity := eo_Quantity ord - matchQty\<rparr>;
                best1 = best\<lparr>eo_Quantity := eo_Quantity best - matchQty\<rparr>;
                seq1 = u64 (seq + 1);
                rep1 = mkReport ns ord1 (if eo_Quantity ord1 = 0 then FILLED else PARTIAL) matchQty (eo_Price best) seq1 (eo_OrderID best);
                seq2 = u64 (seq1 + 1);
                rep2 = mkReport ns best1 (if eo_Quantity best1 = 0 then FILLED else PARTIAL) matchQty (eo_Price best) seq2 (eo_OrderID ord);
                book1 = (if eo_Quantity best1 = 0 then take i book @ drop (i + 1) book else book[i := best1]);
                (ord2, book2, seq3, reps) = matchLoop ns buy ord1 book1 seq2 in
            (ord2, book2, seq3, rep1 # rep2 # reps)
      else (ord, book, seq, []))"
  by pat_completeness auto

termination matchLoop
proof (relation "measure (\<lambda>(ns, buy, ord, book, seq). length book + (if eo_Quantity ord > 0 then 1 else 0))", goal_cases)
  case (2 ns buy ord book seq i best matchQty ord1 best1 seq1 rep1 seq2 rep2 book1)
  then show ?case using bestIdx_less [of buy ord book i] by (auto split: if_splits)
qed simp

declare matchLoop.simps [simp del]

fun removeByID :: "int \<Rightarrow> EOrder list \<Rightarrow> EOrder list option" where
  "removeByID i [] = None"
| "removeByID i (ro # rs) = (if eo_OrderID ro = i then Some rs else map_option (Cons ro) (removeByID i rs))"

definition insertOrder :: "bool \<Rightarrow> EOrder \<Rightarrow> EOrder list \<Rightarrow> EOrder list" where
  \<comment> \<open>before the first order of a worse price\<close>
  "insertOrder buy ord book =
     (let stays = (\<lambda>ro. \<not> (if buy then eo_Price ord > eo_Price ro else eo_Price ord < eo_Price ro)) in
      takeWhile stays book @ ord # dropWhile stays book)"

definition cancelOrder :: "(int \<Rightarrow> int) \<Rightarrow> EOrder \<Rightarrow> OrderBook \<Rightarrow> report list \<times> OrderBook" where
  "cancelOrder ns ord ob =
     (let seq = u64 (seqID ob + 1);
          ob1 = ob\<lparr>seqID := seq\<rparr>;
          cancelled = [mkReport ns ord CANCELLED 0 0 seq 0] in
      case removeByID (eo_OrderID ord) (buyOrders ob) of
        Some bs \<Rightarrow> (cancelled, ob1\<lparr>buyOrders := bs\<rparr>)
      | None \<Rightarrow>
          case removeByID (eo_OrderID ord) (sellOrders ob) of
            Some ss \<Rightarrow> (cancelled, ob1\<lparr>sellOrders := ss\<rparr>)
          | None \<Rightarrow> ([mkReport ns ord REJECTED 0 0 seq 0], ob1))"

definition handleOrder :: "(int \<Rightarrow> int) \<Rightarrow> EOrder \<Rightarrow> OrderBook \<Rightarrow> report list \<times> OrderBook" where
  "handleOrder ns ord ob =
     (if eo_Type ord = OrderType_CANCEL then cancelOrder ns ord ob
      else
        let seq = u64 (seqID ob + 1);
            ack = mkReport ns ord ACCEPTED 0 0 seq 0 in
        if eo_Side ord = Side_BUY then
          let (ord1, sells, seq1, reps) = matchLoop ns True ord (sellOrders ob) seq;
              ob1 = ob\<lparr>sellOrders := sells, seqID := seq1\<rparr> in
          (ack # reps,
           if eo_Quantity ord1 > 0 \<and> eo_Type ord1 = OrderType_LIMIT
           then ob1\<lparr>buyOrders := insertOrder True ord1 (buyOrders ob1)\<rparr> else ob1)
        else
          let (ord1, buys, seq1, reps) = matchLoop ns False ord (buyOrders ob) seq;
              ob1 = ob\<lparr>buyOrders := buys, seqID := seq1\<rparr> in
          (ack # reps,
           if eo_Quantity ord1 > 0 \<and> eo_Type ord1 = OrderType_LIMIT
           then ob1\<lparr>sellOrders := insertOrder False ord1 (sellOrders ob1)\<rparr> else ob1))"

section \<open>The matching loop makes the trades of the single pass\<close>

definition same_order :: "EOrder \<Rightarrow> element \<Rightarrow> bool" where
  "same_order e x \<longleftrightarrow> eo_OrderID e = ID (snd x) \<and> eo_Price e = Price (snd x) \<and> eo_Quantity e = Quantity (snd x)"

definition same_book :: "EOrder list \<Rightarrow> element list \<Rightarrow> bool" where
  "same_book es xs \<longleftrightarrow> list_all2 same_order es xs"

definition fillsOf :: "report list \<Rightarrow> fill4 list" where
  \<comment> \<open>order, quantity, price and counterparty of the fills among the reports\<close>
  "fillsOf reps = map (\<lambda>(c, t, r). (er_OrderId r, er_FilledQty r, er_FilledPrice r, er_MatchedWith r))
     (filter (\<lambda>(c, t, r). er_Status r = FILLED \<or> er_Status r = PARTIAL) reps)"

lemma fillsOf_Cons [simp]:
  "fillsOf (mkReport ns ord (if b then FILLED else PARTIAL) q p s w # reps) = (eo_OrderID ord, q, p, w) # fillsOf reps"
  by (simp add: fillsOf_def mkReport_def)

definition estop :: "bool \<Rightarrow> EOrder \<Rightarrow> EOrder \<Rightarrow> bool" where
  "estop buy ord ro \<longleftrightarrow> eo_Type ord = OrderType_LIMIT \<and> (if buy then eo_Price ro > eo_Price ord else eo_Price ro < eo_Price ord)"

definition eself :: "EOrder \<Rightarrow> EOrder \<Rightarrow> bool" where
  "eself ord ro \<longleftrightarrow> eo_OrderID ro div 2 ^ 32 = eo_OrderID ord div 2 ^ 32"

lemma bestIdx_Cons: "bestIdx buy ord (ro # rs) =
    (if estop buy ord ro then None else if eself ord ro then map_option Suc (bestIdx buy ord rs) else Some 0)"
  by (auto simp: estop_def eself_def)

lemma bestIdx_skip:
  "\<forall>x \<in> set pre. \<not> estop buy ord x \<and> eself ord x \<Longrightarrow> bestIdx buy ord (pre @ rs) = map_option (\<lambda>i. length pre + i) (bestIdx buy ord rs)"
proof (induction pre)
  case Nil
  then show ?case by (cases "bestIdx buy ord rs") auto
next
  case (Cons x pre)
  then show ?case by (cases "bestIdx buy ord rs") (auto simp: bestIdx_Cons simp del: bestIdx.simps)
qed

lemma matchLoop_None:
  "book = [] \<or> eo_Quantity ord \<le> 0 \<or> bestIdx buy ord book = None \<Longrightarrow> matchLoop ns buy ord book seq = (ord, book, seq, [])"
  by (subst matchLoop.simps) auto

lemma matchLoop_step:
  assumes "bestIdx buy ord (pre @ e # es) = Some (length pre)" "0 < eo_Quantity ord" "q = min (eo_Quantity ord) (eo_Quantity e)"
    and "book1 = (if q = eo_Quantity e then pre @ es else pre @ e\<lparr>eo_Quantity := eo_Quantity e - q\<rparr> # es)"
    and "matchLoop ns buy (ord\<lparr>eo_Quantity := eo_Quantity ord - q\<rparr>) book1 (u64 (u64 (seq + 1) + 1)) = (ord2, book2, seq3, reps)"
  shows "matchLoop ns buy ord (pre @ e # es) seq = (ord2, book2, seq3,
      mkReport ns (ord\<lparr>eo_Quantity := eo_Quantity ord - q\<rparr>) (if eo_Quantity ord - q = 0 then FILLED else PARTIAL) q (eo_Price e) (u64 (seq + 1)) (eo_OrderID e) #
      mkReport ns (e\<lparr>eo_Quantity := eo_Quantity e - q\<rparr>) (if eo_Quantity e - q = 0 then FILLED else PARTIAL) q (eo_Price e) (u64 (u64 (seq + 1) + 1)) (eo_OrderID ord) # reps)"
proof -
  let ?o = "ord\<lparr>eo_Quantity := eo_Quantity ord - q\<rparr>" and ?e = "e\<lparr>eo_Quantity := eo_Quantity e - q\<rparr>"
  have q: "(if eo_Quantity e < eo_Quantity ord then eo_Quantity e else eo_Quantity ord) = q" using assms(3) by auto
  have b: "(if eo_Quantity ?e = 0 then take (length pre) (pre @ e # es) @ drop (length pre + 1) (pre @ e # es)
      else (pre @ e # es)[length pre := ?e]) = book1" using assms(4) by simp
  have c: "(pre @ e # es \<noteq> [] \<and> 0 < eo_Quantity ord) = True" using assms(2) by simp
  have "matchLoop ns buy ord (pre @ e # es) seq = (ord2, book2, seq3,
      mkReport ns ?o (if eo_Quantity ?o = 0 then FILLED else PARTIAL) q (eo_Price e) (u64 (seq + 1)) (eo_OrderID e) #
      mkReport ns ?e (if eo_Quantity ?e = 0 then FILLED else PARTIAL) q (eo_Price e) (u64 (u64 (seq + 1) + 1)) (eo_OrderID ord) # reps)"
    by (subst matchLoop.simps) (simp only: assms(1,5) q b c nth_append_length Let_def option.case prod.case if_True)
  then show ?thesis by simp
qed

lemma matchLoop_trade:
  assumes "bestIdx buy ord (pre @ e # es) = Some (length pre)" "0 < eo_Quantity ord" "q = min (eo_Quantity ord) (eo_Quantity e)"
    and "book1 = (if q = eo_Quantity e then pre @ es else pre @ e\<lparr>eo_Quantity := eo_Quantity e - q\<rparr> # es)"
    and "matchLoop ns buy (ord\<lparr>eo_Quantity := eo_Quantity ord - q\<rparr>) book1 (u64 (u64 (seq + 1) + 1)) = (ord2, book2, seq3, reps)"
  shows "\<exists>reps'. matchLoop ns buy ord (pre @ e # es) seq = (ord2, book2, seq3, reps') \<and>
     fillsOf reps' = (eo_OrderID ord, q, eo_Price e, eo_OrderID e) # (eo_OrderID e, q, eo_Price e, eo_OrderID ord) # fillsOf reps"
  unfolding matchLoop_step [OF assms] by simp

lemma matchLoop_sweep:
  assumes "same_book es xs" "\<forall>x \<in> set xs. 0 < Quantity (snd x)" "0 \<le> eo_Quantity ord"
    and "\<forall>e x. same_order e x \<longrightarrow> estop buy ord e = stop (snd x)"
    and "\<forall>x \<in> set xs. isSelfCross (eo_OrderID ord) (ID (snd x)) \<longleftrightarrow> ID (snd x) div 2 ^ 32 = eo_OrderID ord div 2 ^ 32"
    and "\<forall>x \<in> set pre. \<not> estop buy ord x \<and> eself ord x"
    and "sweep stop (eo_OrderID ord) (eo_Quantity ord) xs = (bk, rm, ts)"
  shows "\<exists>es' seq' reps. matchLoop ns buy ord (pre @ es) seq = (ord\<lparr>eo_Quantity := rm\<rparr>, pre @ es', seq', reps) \<and>
     same_book es' bk \<and> fillsOf reps = tradeFills (eo_OrderID ord) ts"
  using assms
proof (induction xs arbitrary: es pre ord seq bk rm ts)
  case Nil
  then have "matchLoop ns buy ord (pre @ es) seq = (ord, pre @ es, seq, [])"
    by (intro matchLoop_None) (simp add: same_book_def bestIdx_skip [of pre buy ord "[]", simplified])
  then show ?case using Nil by (auto simp: same_book_def fillsOf_def tradeFills_def)
next
  case (Cons x xs)
  obtain a r where x: "x = (a, r)" by (cases x)
  obtain e es1 where es: "es = e # es1" "same_order e x" "same_book es1 xs" using Cons.prems(1) by (auto simp: same_book_def list_all2_Cons2)
  have st: "estop buy ord e = stop r" using Cons.prems(4) es(2) x by auto
  have sf: "isSelfCross (eo_OrderID ord) (ID r) = eself ord e"
    using Cons.prems(5) es(2) x by (auto simp: eself_def same_order_def)
  note skip = bestIdx_skip [OF Cons.prems(6)]
  from Cons.prems(7) [unfolded x] show ?case
  proof (cases rule: sweep_ConsE)
    case stop
    have "eo_Quantity ord \<le> 0 \<or> bestIdx buy ord (pre @ es) = None"
      using stop(1) st skip [of es] es(1) by (auto simp: bestIdx_Cons simp del: bestIdx.simps)
    then have "matchLoop ns buy ord (pre @ es) seq = (ord, pre @ es, seq, [])" by (intro matchLoop_None) blast
    then show ?thesis using stop Cons.prems(1) x by (auto simp: fillsOf_def tradeFills_def)
  next
    case (self bk1)
    have "\<forall>y \<in> set (pre @ [e]). \<not> estop buy ord y \<and> eself ord y" using Cons.prems(6) st sf self by simp
    from Cons.IH [OF es(3) _ Cons.prems(3,4) _ this self(4), of seq] Cons.prems(2,5)
    obtain es' seq' reps where "matchLoop ns buy ord ((pre @ [e]) @ es1) seq = (ord\<lparr>eo_Quantity := rm\<rparr>, (pre @ [e]) @ es', seq', reps)"
      "same_book es' bk1" "fillsOf reps = tradeFills (eo_OrderID ord) ts" by auto
    then show ?thesis using es(1,2) self(5) x by (intro exI [of _ "e # es'"]) (auto simp: same_book_def)
  next
    case (trade q t bk1 ts1)
    have b: "bestIdx buy ord (pre @ e # es1) = Some (length pre)"
      using skip [of "e # es1"] trade(2,3) st sf by (simp add: bestIdx_Cons del: bestIdx.simps)
    have e: "eo_Quantity e = Quantity r" "eo_Price e = Price r" "eo_OrderID e = ID r" using es(2) x by (auto simp: same_order_def)
    have q: "q = min (eo_Quantity ord) (eo_Quantity e)" "0 < eo_Quantity ord" using trade(1,4) e by simp_all
    let ?ord = "ord\<lparr>eo_Quantity := eo_Quantity ord - q\<rparr>" and ?seq = "u64 (u64 (seq + 1) + 1)"
    let ?e = "e\<lparr>eo_Quantity := eo_Quantity e - q\<rparr>"
    let ?book = "if q = eo_Quantity e then pre @ es1 else pre @ ?e # es1"
    have same: "estop buy ?ord = estop buy ord" "eself ?ord = eself ord" by (simp_all add: fun_eq_iff estop_def eself_def)
    have "\<exists>es' seq' reps. matchLoop ns buy ?ord ?book ?seq = (?ord\<lparr>eo_Quantity := rm\<rparr>, pre @ es', seq', reps) \<and>
        same_book es' bk \<and> fillsOf reps = tradeFills (eo_OrderID ord) ts1"
    proof (cases "q = eo_Quantity e")
      case True
      have "sweep stop (eo_OrderID ?ord) (eo_Quantity ?ord) xs = (bk1, rm, ts1)" using trade(6) by simp
      from Cons.IH [OF es(3) _ _ _ _ _ this, of pre ?seq] Cons.prems(2,4,5,6) trade(7) True e(1) q same
      show ?thesis by auto
    next
      case False
      then have z: "eo_Quantity ?ord = 0" using q by (auto simp: min_def split: if_splits)
      then have "bk1 = xs" "rm = 0" "ts1 = []" using trade(6) by (simp_all add: sweep_stops)
      moreover have "matchLoop ns buy ?ord ?book ?seq = (?ord, ?book, ?seq, [])" using z by (intro matchLoop_None) simp
      moreover have "same_order ?e (a, r\<lparr>Quantity := Quantity r - q\<rparr>)" using e by (simp add: same_order_def)
      ultimately show ?thesis using False es(3) trade(7) e(1) z
        by (intro exI [of _ "?e # es1"]) (simp add: same_book_def fillsOf_def tradeFills_def)
    qed
    then obtain es' seq' reps where r: "matchLoop ns buy ?ord ?book ?seq = (?ord\<lparr>eo_Quantity := rm\<rparr>, pre @ es', seq', reps)"
      "same_book es' bk" "fillsOf reps = tradeFills (eo_OrderID ord) ts1" by blast
    from matchLoop_trade [OF b q(2,1) refl r(1)] r(2,3) es(1) e trade(5,8) show ?thesis by auto
  qed
qed

end
