(* ===== verification/Engine_Wire.thy ===== *)
theory Engine_Wire
  imports Engine "HOL-Library.Multiset"
begin

text \<open>
  The text protocols of the reference engines: the FIX engine \<^verbatim>\<open>test_payloads/go_fix/main.go\<close>, the WebSocket engine
  \<^verbatim>\<open>go_ws\<close> and the REST engine \<^verbatim>\<open>go_rest\<close> with its broker. The theorems show that orders and reports pass
  unchanged between the FIX adapter of the bots and the FIX engine, whatever the iteration order of the maps.
\<close>

section \<open>The FIX engine\<close>

definition statusToFIXString :: "PStatus \<Rightarrow> string" where
  "statusToFIXString st =
     (case st of ACCEPTED \<Rightarrow> ''0'' | PARTIAL \<Rightarrow> ''1'' | FILLED \<Rightarrow> ''2'' | CANCELLED \<Rightarrow> ''4'' | REJECTED \<Rightarrow> ''8'')"

definition fixReportFields :: "string \<Rightarrow> ExecutionReport \<Rightarrow> (int \<times> string) list" where
  "fixReportFields targetCompID r =
     [(8, ''FIX.4.4''), (35, ''8''), (49, ''CONTESTANT''), (56, targetCompID), (11, FormatUint (er_OrderId r)),
      (39, statusToFIXString (er_Status r)), (32, FormatUint (er_FilledQty r)), (31, Itoa (er_FilledPrice r)),
      (17, FormatUint (er_EngineSeqId r)), (9000, FormatUint (er_ProcessingNs r)), (9001, FormatUint (er_MatchedWith r))]"

definition writeFIXReport :: "((int \<times> string) list \<Rightarrow> (int \<times> string) list) \<Rightarrow> report \<Rightarrow> nat \<times> string" where
  "writeFIXReport ord rep = (case rep of (conn, targetCompID, r) \<Rightarrow> (conn, BuildFIX (ord (fixReportFields targetCompID r))))"

definition fixHandleOrder :: "((int \<times> string) list \<Rightarrow> (int \<times> string) list) \<Rightarrow> (int \<Rightarrow> int) \<Rightarrow> EOrder \<Rightarrow> OrderBook \<Rightarrow>
    (nat \<times> string) list \<times> OrderBook" where
  "fixHandleOrder ord ns o1 ob = (case handleOrder ns o1 ob of (reps, ob') \<Rightarrow> (map (writeFIXReport ord) reps, ob'))"

definition fixOrder :: "nat \<Rightarrow> string \<Rightarrow> (int \<times> string) list \<Rightarrow> EOrder option" where
  \<comment> \<open>the order of a message of type D or F\<close>
  "fixOrder conn targetCompID tags =
     (if tag tags 35 = ''D'' then
        Some \<lparr>eo_BotID = ParseUint (tag tags 1), eo_OrderID = ParseUint (tag tags 11),
          eo_Type = (if tag tags 40 = ''1'' then OrderType_MARKET else OrderType_LIMIT),
          eo_Side = (if tag tags 54 = ''1'' then Side_BUY else Side_SELL),
          eo_Price = ParseInt (tag tags 44), eo_Quantity = ParseUint (tag tags 38), eo_Conn = conn, eo_TargetCompID = targetCompID\<rparr>
      else if tag tags 35 = ''F'' then
        Some \<lparr>eo_BotID = ParseUint (tag tags 1), eo_OrderID = ParseUint (tag tags 41), eo_Type = OrderType_CANCEL, eo_Side = 0,
          eo_Price = 0, eo_Quantity = 0, eo_Conn = conn, eo_TargetCompID = targetCompID\<rparr>
      else None)"

definition fixLogonReply :: "string \<Rightarrow> (int \<times> string) list" where
  "fixLogonReply targetCompID =
     [(8, ''FIX.4.4''), (35, ''A''), (49, ''CONTESTANT''), (56, targetCompID), (34, ''1''), (98, ''0''), (108, ''30'')]"

function fixHandleConnection :: "((int \<times> string) list \<Rightarrow> (int \<times> string) list) \<Rightarrow> (int \<Rightarrow> int) \<Rightarrow> nat \<Rightarrow> string \<Rightarrow> string \<Rightarrow> OrderBook \<Rightarrow>
    (nat \<times> string) list \<times> OrderBook" where
  "fixHandleConnection ord ns conn targetCompID inp ob =
     (case readFIX inp of None \<Rightarrow> ([], ob)
      | Some (msg, rest) \<Rightarrow>
          let tags = ParseFIX msg in
          if tag tags 35 = ''A'' then
            let target = tag tags 49;
                (out, ob1) = fixHandleConnection ord ns conn target rest ob in
            ((conn, BuildFIX (ord (fixLogonReply target))) # out, ob1)
          else case fixOrder conn targetCompID tags of
              None \<Rightarrow> fixHandleConnection ord ns conn targetCompID rest ob
            | Some o1 \<Rightarrow>
                let (out, ob1) = fixHandleOrder ord ns o1 ob;
                    (out', ob2) = fixHandleConnection ord ns conn targetCompID rest ob1 in
                (out @ out', ob2))"
  by pat_completeness auto

termination fixHandleConnection
  by (relation "measure (\<lambda>(ord, ns, conn, targetCompID, inp, ob). length inp)") (auto dest: readFIX_shorter)

declare fixHandleConnection.simps [simp del]

section \<open>Messages with fields in any order\<close>

lemma BuildFIX_any_order:
  assumes "mset (ord fs) = mset fs" "list_all field_ok fs" "distinct (gokeys fs)" "t \<noteq> 9" "t \<noteq> 10"
  shows "tag (ParseFIX (BuildFIX (ord fs))) t = tag fs t"
proof -
  have s: "set (ord fs) = set fs" using assms(1) by (rule mset_eq_setD)
  have "mset (gokeys (ord fs)) = mset (gokeys fs)" using assms(1) by simp
  then have d: "distinct (gokeys (ord fs))" using assms(3) by (metis mset_eq_imp_distinct_iff)
  have "list_all field_ok (ord fs)" using assms(2) s by (simp add: list_all_iff)
  from ParseFIX_BuildFIX [OF this d, of t] assms(4,5)
  have "tag (ParseFIX (BuildFIX (ord fs))) t = get_or [] (ord fs) t" by (simp add: tag_def)
  moreover have "map_of (ord fs) t = map_of fs t" using d assms(3) s using map_of_inject_set [OF d assms(3)] by simp
  ultimately show ?thesis by (simp add: tag_def get_or_def)
qed


definition no_soh :: "string \<Rightarrow> bool" where
  "no_soh s \<longleftrightarrow> SOH \<notin> set s"

lemma no_soh_num [simp]: "no_soh (Itoa i)" "no_soh (FormatUint n)"
proof -
  show "no_soh (Itoa i)" using Itoa_chars by (auto simp: no_soh_def)
  have "\<forall>c \<in> set (utoa (nat n)). c \<noteq> SOH" using utoa_digits [of "nat n"] digit_not by (auto simp: list_all_iff)
  then show "no_soh (FormatUint n)" by (auto simp: no_soh_def FormatUint_def)
qed

lemma fixReportFields_ok: "no_soh c \<Longrightarrow> list_all field_ok (fixReportFields c r) \<and> distinct (gokeys (fixReportFields c r))"
  using no_soh_num
  by (cases "er_Status r") (auto simp: fixReportFields_def field_ok_def in64_def no_soh_def SOH_def statusToFIXString_def)

lemma orderFields_ok:
  assumes "no_soh (fa_compID a)" "no_soh (fa_targetID a)"
  shows "list_all field_ok (orderFields now o1 a) \<and> distinct (gokeys (orderFields now o1 a))"
  using assms no_soh_num
  by (auto simp: orderFields_def Let_def field_ok_def in64_def no_soh_def SOH_def)

section \<open>Reports and orders over FIX\<close>

definition ereport_ok :: "ExecutionReport \<Rightarrow> bool" where
  "ereport_ok r \<longleftrightarrow> 0 \<le> er_OrderId r \<and> er_OrderId r < 2 ^ 64 \<and> 0 \<le> er_FilledQty r \<and> er_FilledQty r < 2 ^ 64 \<and> in64 (er_FilledPrice r) \<and>
     0 \<le> er_EngineSeqId r \<and> er_EngineSeqId r < 2 ^ 64 \<and> 0 \<le> er_ProcessingNs r \<and> er_ProcessingNs r < 2 ^ 64 \<and>
     0 \<le> er_MatchedWith r \<and> er_MatchedWith r < 2 ^ 64"

lemma fixStatus_inverse [simp]: "fixStatus (statusToFIXString st) = st"
  by (cases st) (simp_all add: fixStatus_def statusToFIXString_def)

lemma ParseUint_Nil [simp]: "ParseUint [] = 0" and ParseInt_Nil [simp]: "ParseInt [] = 0"
  by (simp_all add: ParseUint_def ParseInt_def)

lemma fixReport_roundtrip:
  assumes "mset (ord (fixReportFields c r)) = mset (fixReportFields c r)" "no_soh c" "ereport_ok r"
  shows "fixReport (ParseFIX (BuildFIX (ord (fixReportFields c r)))) = Some r"
proof -
  have t: "tag (ParseFIX (BuildFIX (ord (fixReportFields c r)))) k = tag (fixReportFields c r) k" if "k \<noteq> 9" "k \<noteq> 10" for k
    using fixReportFields_ok [OF assms(2), of r] by (intro BuildFIX_any_order assms(1) that) auto
  have f: "tag (fixReportFields c r) 35 = ''8''" "tag (fixReportFields c r) 11 = FormatUint (er_OrderId r)"
    "tag (fixReportFields c r) 39 = statusToFIXString (er_Status r)" "tag (fixReportFields c r) 32 = FormatUint (er_FilledQty r)"
    "tag (fixReportFields c r) 31 = Itoa (er_FilledPrice r)" "tag (fixReportFields c r) 17 = FormatUint (er_EngineSeqId r)"
    "tag (fixReportFields c r) 9000 = FormatUint (er_ProcessingNs r)" "tag (fixReportFields c r) 9001 = FormatUint (er_MatchedWith r)"
    "tag (fixReportFields c r) 38 = []" "tag (fixReportFields c r) 44 = []" "tag (fixReportFields c r) 34 = []"
    by (simp_all add: tag_def fixReportFields_def get_or_def)
  have "ParseUint (FormatUint (er_OrderId r)) = er_OrderId r" "ParseUint (FormatUint (er_FilledQty r)) = er_FilledQty r"
    "ParseUint (FormatUint (er_EngineSeqId r)) = er_EngineSeqId r" "ParseUint (FormatUint (er_ProcessingNs r)) = er_ProcessingNs r"
    "ParseUint (FormatUint (er_MatchedWith r)) = er_MatchedWith r" "ParseInt (Itoa (er_FilledPrice r)) = er_FilledPrice r"
    using assms(3) by (auto simp: ereport_ok_def ParseUint_FormatUint ParseInt_Itoa)
  then show ?thesis by (simp add: fixReport_def t f Let_def)
qed

definition fixEngineOrder :: "nat \<Rightarrow> string \<Rightarrow> int \<Rightarrow> POrder \<Rightarrow> EOrder" where
  \<comment> \<open>the order that the engine should see; a cancellation carries only the order it names\<close>
  "fixEngineOrder conn targetCompID bn ord =
     (if po_Type ord = CANCEL
      then \<lparr>eo_BotID = bn, eo_OrderID = po_OrderId ord, eo_Type = OrderType_CANCEL, eo_Side = 0, eo_Price = 0, eo_Quantity = 0,
            eo_Conn = conn, eo_TargetCompID = targetCompID\<rparr>
      else \<lparr>eo_BotID = bn, eo_OrderID = po_OrderId ord,
            eo_Type = (if po_Type ord = MARKET then OrderType_MARKET else OrderType_LIMIT),
            eo_Side = (if po_Side ord = BUY then Side_BUY else Side_SELL), eo_Price = po_Price ord, eo_Quantity = po_Quantity ord,
            eo_Conn = conn, eo_TargetCompID = targetCompID\<rparr>)"

lemma ParseUint_Itoa: "0 \<le> n \<Longrightarrow> n < 2 ^ 64 \<Longrightarrow> ParseUint (Itoa n) = n"
  using ParseUint_FormatUint [of n] by (simp add: Itoa_def FormatUint_def)

lemma fixOrder_roundtrip:
  assumes "mset (ord (orderFields now o1 a)) = mset (orderFields now o1 a)" "no_soh (fa_compID a)" "no_soh (fa_targetID a)"
    and "0 \<le> fa_botID a" "fa_botID a < 2 ^ 63" "0 \<le> po_OrderId o1" "po_OrderId o1 < 2 ^ 64" "in64 (po_Price o1)"
    and "0 \<le> po_Quantity o1" "po_Quantity o1 < 2 ^ 64"
  shows "fixOrder conn target (ParseFIX (BuildFIX (ord (orderFields now o1 a)))) = Some (fixEngineOrder conn target (fa_botID a) o1)"
proof -
  have t: "tag (ParseFIX (BuildFIX (ord (orderFields now o1 a)))) k = tag (orderFields now o1 a) k" if "k \<noteq> 9" "k \<noteq> 10" for k
    using orderFields_ok [OF assms(2,3), of now o1] by (intro BuildFIX_any_order assms(1) that) auto
  have p: "ParseUint (FormatUint (po_OrderId o1)) = po_OrderId o1" "ParseUint (FormatUint (po_Quantity o1)) = po_Quantity o1"
    "ParseInt (Itoa (po_Price o1)) = po_Price o1" "ParseUint (Itoa (fa_botID a)) = fa_botID a"
    using assms(4-10) by (auto simp: ParseUint_FormatUint ParseInt_Itoa ParseUint_Itoa)
  show ?thesis
  proof (cases "po_Type o1 = CANCEL")
    case True
    then have "tag (orderFields now o1 a) 35 = ''F''" "tag (orderFields now o1 a) 41 = FormatUint (po_OrderId o1)"
      "tag (orderFields now o1 a) 1 = Itoa (fa_botID a)"
      by (simp_all add: tag_def orderFields_def get_or_def Let_def)
    then show ?thesis using True by (simp add: fixOrder_def fixEngineOrder_def t p)
  next
    case False
    then have "tag (orderFields now o1 a) 35 = ''D''" "tag (orderFields now o1 a) 11 = FormatUint (po_OrderId o1)"
      "tag (orderFields now o1 a) 1 = Itoa (fa_botID a)" "tag (orderFields now o1 a) 38 = FormatUint (po_Quantity o1)"
      "tag (orderFields now o1 a) 44 = Itoa (po_Price o1)" "tag (orderFields now o1 a) 54 = (if po_Side o1 = BUY then ''1'' else ''2'')"
      "tag (orderFields now o1 a) 40 = (if po_Type o1 = LIMIT then ''2'' else ''1'')"
      by (simp_all add: tag_def orderFields_def get_or_def Let_def)
    then show ?thesis using False by (cases "po_Type o1") (simp_all add: fixOrder_def fixEngineOrder_def t p)
  qed
qed


section \<open>The WebSocket and REST engines\<close>

record WSOrder =
  ws_BotID :: int
  ws_OrderID :: int
  ws_Type :: string
  ws_Side :: string
  ws_Price :: int
  ws_Quantity :: int

definition statusToString :: "PStatus \<Rightarrow> string" where
  "statusToString st =
     (case st of ACCEPTED \<Rightarrow> ''ACCEPTED'' | FILLED \<Rightarrow> ''FILLED'' | PARTIAL \<Rightarrow> ''PARTIAL'' | REJECTED \<Rightarrow> ''REJECTED'' | CANCELLED \<Rightarrow> ''CANCELLED'')"

definition wsOrder :: "nat \<Rightarrow> WSOrder \<Rightarrow> EOrder" where
  \<comment> \<open>an unknown type or side keeps the zero value: a limit order, a purchase\<close>
  "wsOrder conn w =
     \<lparr>eo_BotID = ws_BotID w, eo_OrderID = ws_OrderID w,
      eo_Type = (if ws_Type w = ''LIMIT'' then OrderType_LIMIT else if ws_Type w = ''MARKET'' then OrderType_MARKET
                 else if ws_Type w = ''CANCEL'' then OrderType_CANCEL else 0),
      eo_Side = (if ws_Side w = ''BUY'' then Side_BUY else if ws_Side w = ''SELL'' then Side_SELL else 0),
      eo_Price = ws_Price w, eo_Quantity = ws_Quantity w, eo_Conn = conn, eo_TargetCompID = []\<rparr>"

definition jsonReport :: "ExecutionReport \<Rightarrow> (string \<times> json) list" where
  \<comment> \<open>the members of \<^verbatim>\<open>WSExecutionReport\<close> as the bot decodes them, numbers as float64\<close>
  "jsonReport r =
     [(''order_id'', JNum (float64 (er_OrderId r))), (''status'', JStr (statusToString (er_Status r))),
      (''filled_qty'', JNum (float64 (er_FilledQty r))), (''filled_price'', JNum (float64 (er_FilledPrice r))),
      (''engine_seq_id'', JNum (float64 (er_EngineSeqId r))), (''processing_ns'', JNum (float64 (er_ProcessingNs r))),
      (''matched_with'', JNum (float64 (er_MatchedWith r)))]"

definition wsHandleOrder :: "(int \<Rightarrow> int) \<Rightarrow> EOrder \<Rightarrow> OrderBook \<Rightarrow> (nat \<times> (string \<times> json) list) list \<times> OrderBook" where
  "wsHandleOrder ns o1 ob = (case handleOrder ns o1 ob of (reps, ob') \<Rightarrow> (map (\<lambda>(conn, cid, r). (conn, jsonReport r)) reps, ob'))"

fun wsConnection :: "(int \<Rightarrow> int) \<Rightarrow> nat \<Rightarrow> (bool \<times> WSOrder option) list \<Rightarrow> OrderBook \<Rightarrow> (nat \<times> (string \<times> json) list) list \<times> OrderBook" where
  \<comment> \<open>the messages of one connection: whether it is text, and the order if it decodes\<close>
  "wsConnection ns conn [] ob = ([], ob)"
| "wsConnection ns conn ((isText, wso) # ms) ob =
     (if \<not> isText then wsConnection ns conn ms ob
      else case wso of None \<Rightarrow> wsConnection ns conn ms ob
        | Some w \<Rightarrow>
            let (out, ob1) = wsHandleOrder ns (wsOrder conn w) ob; (out', ob2) = wsConnection ns conn ms ob1 in
            (out @ out', ob2))"

text \<open>The broker of the REST engine: each subscriber has a channel of 10000 reports; a report that does not fit is
  dropped for that subscriber.\<close>

type_synonym broker = "(nat \<times> ExecutionReport list) list"

definition Subscribe :: "broker \<Rightarrow> nat \<times> broker" where
  \<comment> \<open>a channel that is not in use\<close>
  "Subscribe b = (let ch = Suc (foldr max (gokeys b) 0) in (ch, AList.update ch [] b))"

definition Unsubscribe :: "nat \<Rightarrow> broker \<Rightarrow> broker" where
  "Unsubscribe ch b = AList.delete ch b"

definition Publish :: "ExecutionReport \<Rightarrow> broker \<Rightarrow> broker" where
  "Publish r b = map (\<lambda>(ch, q). (ch, if length q < 10000 then q @ [r] else q)) b"

definition restHandleOrder :: "(int \<Rightarrow> int) \<Rightarrow> EOrder \<Rightarrow> OrderBook \<times> broker \<Rightarrow> OrderBook \<times> broker" where
  "restHandleOrder ns o1 st = (case handleOrder ns o1 (fst st) of (reps, ob') \<Rightarrow> (ob', fold (\<lambda>(conn, cid, r). Publish r) reps (snd st)))"

datatype rest_reply = Method_Not_Allowed | Bad_Request | Accepted_202

definition restOrders :: "(int \<Rightarrow> int) \<Rightarrow> string \<Rightarrow> WSOrder option \<Rightarrow> OrderBook \<times> broker \<Rightarrow> rest_reply \<times> OrderBook \<times> broker" where
  "restOrders ns meth body st =
     (if meth \<noteq> ''POST'' then (Method_Not_Allowed, st)
      else case body of None \<Rightarrow> (Bad_Request, st) | Some w \<Rightarrow> (Accepted_202, restHandleOrder ns (wsOrder 0 w) st))"

definition restEvent :: "nat \<Rightarrow> broker \<Rightarrow> (ExecutionReport \<times> broker) option" where
  \<comment> \<open>the event stream of a subscriber takes the next report from its channel\<close>
  "restEvent ch b = (case map_of b ch of Some (r # q) \<Rightarrow> Some (r, AList.update ch q b) | _ \<Rightarrow> None)"

lemma fold_Publish:
  assumes "\<forall>(ch, q) \<in> set b. length q + length rs \<le> 10000"
  shows "fold Publish rs b = map (\<lambda>(ch, q). (ch, q @ rs)) b"
  using assms
proof (induction rs arbitrary: b)
  case (Cons r rs)
  have "Publish r b = map (\<lambda>(ch, q). (ch, q @ [r])) b" using Cons.prems by (auto simp: Publish_def)
  then show ?case using Cons.IH [of "map (\<lambda>(ch, q). (ch, q @ [r])) b"] Cons.prems by (auto simp: case_prod_beta)
qed (simp add: case_prod_beta)

lemma jsonStatus_inverse [simp]: "jsonStatus (statusToString st) = st"
proof -
  have "list_all (\<lambda>st. jsonStatus (statusToString st) = st) [ACCEPTED, FILLED, PARTIAL, REJECTED, CANCELLED]" by code_simp
  then show ?thesis by (cases st) simp_all
qed

lemma getFloat_exact:
  assumes "0 \<le> n" "n \<le> 2 ^ 53" shows "fst (getFloatAsUint64 conv (Some (JNum (float64 n)))) = n"
proof -
  have f: "float64 n = of_int n" using assms fl_int_exact [of n] by (simp add: float64_def)
  have "(of_int n :: rat) < of_int (2 ^ 64)" unfolding of_int_less_iff using assms by simp
  then show ?thesis using assms by (simp add: getFloatAsUint64_def f trunc64_def)
qed

lemma json_roundtrip:
  assumes "\<forall>n \<in> {er_OrderId r, er_FilledQty r, er_EngineSeqId r, er_ProcessingNs r, er_MatchedWith r}. 0 \<le> n \<and> n \<le> 2 ^ 53"
    and "\<bar>er_FilledPrice r\<bar> \<le> 2 ^ 53"
  shows "mapJSONToExecutionReport conv (jsonReport r) = r"
proof -
  have f: "float64 (er_FilledPrice r) = of_int (er_FilledPrice r)" using assms(2) fl_int_exact by (simp add: float64_def)
  have b: "- (2 ^ 63) \<le> er_FilledPrice r" "er_FilledPrice r < 2 ^ 63" using assms(2) by auto
  have "(of_int (- (2 ^ 63)) :: rat) \<le> of_int (er_FilledPrice r)" "(of_int (er_FilledPrice r) :: rat) < of_int (2 ^ 63)"
    unfolding of_int_le_iff of_int_less_iff using b by auto
  then have "fst (getFloatAsInt64 conv (Some (JNum (float64 (er_FilledPrice r))))) = er_FilledPrice r"
    by (simp add: getFloatAsInt64_def f trunc64_def)
  moreover have "fst (getFloatAsUint64 conv (Some (JNum (float64 n)))) = n"
    if "n \<in> {er_OrderId r, er_FilledQty r, er_EngineSeqId r, er_ProcessingNs r, er_MatchedWith r}" for n
    using assms(1) that by (intro getFloat_exact) auto
  ultimately show ?thesis by (simp add: mapJSONToExecutionReport_def jsonReport_def Let_def)
qed


section \<open>Properties\<close>

lemma ordered_ok: "mset (ord fs) = mset fs \<Longrightarrow> list_all field_ok fs \<Longrightarrow> list_all field_ok (ord fs)"
  using mset_eq_setD [of "ord fs" fs] by (simp add: list_all_iff)

lemma FIX_receive_reports:
  assumes "\<forall>fs. mset (ord fs) = mset fs" "no_soh c" "\<forall>r \<in> set rs. ereport_ok r"
  shows "map ev_Report (fst (FIX_receive clock (concat (map (\<lambda>r. BuildFIX (ord (fixReportFields c r))) rs)) a)) = map Some rs"
  using assms(3)
proof (induction rs arbitrary: a)
  case Nil
  then show ?case by (subst FIX_receive.simps) (simp add: readFIX_def ReadBytes_def)
next
  case (Cons r rs)
  let ?rest = "concat (map (\<lambda>r. BuildFIX (ord (fixReportFields c r))) rs)"
  have "readFIX (BuildFIX (ord (fixReportFields c r)) @ ?rest) = Some (BuildFIX (ord (fixReportFields c r)), ?rest)"
    using fixReportFields_ok [OF assms(2), of r] by (intro readFIX_BuildFIX ordered_ok [OF assms(1) [rule_format]]) blast
  moreover have "fixReport (ParseFIX (BuildFIX (ord (fixReportFields c r)))) = Some r"
    using Cons.prems by (intro fixReport_roundtrip assms(1) [rule_format] assms(2)) simp
  ultimately show ?case
    using Cons.IH [of "a\<lparr>fa_seqIn := wrap64 (fa_seqIn a + 1)\<rparr>"] Cons.prems
    by (subst FIX_receive.simps) (simp add: Let_def case_prod_beta)
qed

text \<open>C28: Orders and reports survive the FIX session. The engine frames exactly the message of the bot, whatever
  follows it on the connection, and reads back the order (a cancellation with the order it names); the bot
  receives every report of the engine unchanged and in order. This holds for every iteration order of
  the maps the messages are built from.\<close>

theorem fix_session_roundtrip:
  assumes "\<forall>fs. mset (ord fs) = mset fs" "no_soh (fa_compID a)" "no_soh (fa_targetID a)" "no_soh c"
    and "0 \<le> fa_botID a" "fa_botID a < 2 ^ 63" "0 \<le> po_OrderId o1" "po_OrderId o1 < 2 ^ 64" "in64 (po_Price o1)"
    and "0 \<le> po_Quantity o1" "po_Quantity o1 < 2 ^ 64" "\<forall>r \<in> set rs. ereport_ok r"
  shows "(\<exists>msg. readFIX (fst (FIX_SendOrder ord now o1 a) @ rest) = Some (msg, rest) \<and>
      fixOrder conn target (ParseFIX msg) = Some (fixEngineOrder conn target (fa_botID a) o1)) \<and>
     map ev_Report (fst (FIX_receive clock (concat (map (\<lambda>r. snd (writeFIXReport ord (conn, c, r))) rs)) a)) = map Some rs"
proof
  let ?a = "a\<lparr>fa_seqOut := wrap64 (fa_seqOut a + 1)\<rparr>"
  let ?m = "BuildFIX (ord (orderFields now o1 ?a))"
  have "readFIX (?m @ rest) = Some (?m, rest)"
    using orderFields_ok [of ?a now o1] assms(2,3) by (intro readFIX_BuildFIX ordered_ok [OF assms(1) [rule_format]]) simp
  moreover have "fixOrder conn target (ParseFIX ?m) = Some (fixEngineOrder conn target (fa_botID ?a) o1)"
    using assms(2-11) by (intro fixOrder_roundtrip assms(1) [rule_format]) simp_all
  ultimately show "\<exists>msg. readFIX (fst (FIX_SendOrder ord now o1 a) @ rest) = Some (msg, rest) \<and>
      fixOrder conn target (ParseFIX msg) = Some (fixEngineOrder conn target (fa_botID a) o1)"
    by (simp add: FIX_SendOrder_def Let_def)
  show "map ev_Report (fst (FIX_receive clock (concat (map (\<lambda>r. snd (writeFIXReport ord (conn, c, r))) rs)) a)) = map Some rs"
    using FIX_receive_reports [OF assms(1,4,12)] by (simp add: writeFIXReport_def)
qed

definition session0 :: FIXAdapter where
  "session0 = \<lparr>fa_botID = 3, fa_seqIn = 1, fa_seqOut = 1, fa_compID = ''BOT-3'', fa_targetID = ''CONTESTANT''\<rparr>"

definition cancel0 :: POrder where
  "cancel0 = \<lparr>po_BotId = 3, po_OrderId = 12884901889, po_Type = CANCEL, po_Side = BUY, po_Price = 0, po_Quantity = 0\<rparr>"

theorem fix_session_roundtrip_witness:
  "\<exists>msg. readFIX (fst (FIX_SendOrder rev 77 cancel0 session0) @ ''8=FIX'') = Some (msg, ''8=FIX'') \<and>
     fixOrder 0 ''BOT-3'' (ParseFIX msg) = Some (fixEngineOrder 0 ''BOT-3'' 3 cancel0)"
  using fix_session_roundtrip [of rev session0 "''BOT-3''" cancel0 "[]" 77 "''8=FIX''" 0 "''BOT-3''"]
  by (simp add: session0_def cancel0_def no_soh_def SOH_def in64_def)

text \<open>A report that an engine sends as JSON arrives unchanged as long as its numbers are at most \<open>2\<^sup>53\<close>, which
  covers the order identifiers of bots numbered below \<open>2\<^sup>21\<close>.\<close>

lemma json_reports_exact_to_2_53:
  assumes "\<forall>n \<in> {er_OrderId r, er_FilledQty r, er_EngineSeqId r, er_ProcessingNs r, er_MatchedWith r}. 0 \<le> n \<and> n \<le> 2 ^ 53"
    and "\<bar>er_FilledPrice r\<bar> \<le> 2 ^ 53"
  shows "map ev_Report (WS_receive conv bid [(t, Some (jsonReport r))]) = [Some r]"
  using json_roundtrip [OF assms] by (simp add: WS_receive_def Let_def)

lemma json_reports_exact_to_2_53_witness:
  "map ev_Report (WS_receive (\<lambda>_. 0) 3 [(5, Some (jsonReport \<lparr>er_OrderId = 12884901889, er_Status = FILLED, er_FilledQty = 7,
     er_FilledPrice = - 3, er_EngineSeqId = 9, er_ProcessingNs = 100, er_MatchedWith = 4294967297\<rparr>))]) =
   [Some \<lparr>er_OrderId = 12884901889, er_Status = FILLED, er_FilledQty = 7,
     er_FilledPrice = - 3, er_EngineSeqId = 9, er_ProcessingNs = 100, er_MatchedWith = 4294967297\<rparr>]"
  by (rule json_reports_exact_to_2_53) simp_all

end
