(* ===== verification/Engine_Sim.thy ===== *)
theory Engine_Sim
  imports Engine
begin

text \<open>
  The reference engine and the shadow book stay in step. \<open>sim ob P s\<close> relates the book of the engine after
  the orders whose acknowledgement the validator has seen to a shard of the validator: both hold the same
  orders in the same sequence, and the fills in \<open>P\<close> are those the validator still waits for. The lemmas show
  what an acknowledgement, a cancellation and a fill do to the relation.
\<close>

section \<open>The relation\<close>

definition id_ok :: "int \<Rightarrow> bool" where
  \<comment> \<open>an order identifier with the number of a bot\<close>
  "id_ok i \<longleftrightarrow> 2 ^ 32 \<le> i \<and> i < 2 ^ 63"

definition ebook :: "bool \<Rightarrow> OrderBook \<Rightarrow> EOrder list" where
  "ebook buy ob = (if buy then buyOrders ob else sellOrders ob)"

definition sideIds :: "'t rbt_ops \<Rightarrow> bool \<Rightarrow> 't SymbolShard \<Rightarrow> int list" where
  "sideIds T b s = map (\<lambda>x. ID (snd x)) (resting T b s)"

definition ids_ok :: "'t rbt_ops \<Rightarrow> 't SymbolShard \<Rightarrow> bool" where
  "ids_ok T s \<longleftrightarrow> (\<forall>b. distinct (sideIds T b s)) \<and> (\<forall>b. set (sideIds T b s) \<inter> set (sideIds T (\<not> b) s) = {}) \<and>
     (\<forall>i. has_key (orderMap s) i \<longleftrightarrow> (\<exists>b. i \<in> set (sideIds T b s))) \<and>
     (\<forall>i. has_key (orderMap s) i \<or> has_key (pendingOrders s) i \<longrightarrow> id_ok i) \<and>
     (\<forall>i. has_key (pendingOrders s) i \<longrightarrow> \<not> has_key (orderMap s) i)"

definition sim :: "'t rbt_ops \<Rightarrow> ('t \<Rightarrow> bool) \<Rightarrow> ('t \<Rightarrow> int \<Rightarrow> int \<Rightarrow> int) \<Rightarrow> OrderBook \<Rightarrow> fill4 list \<Rightarrow> 't SymbolShard \<Rightarrow> bool" where
  "sim T ok cmpOf ob P s \<longleftrightarrow> shard_ok T ok cmpOf s \<and> ids_ok T s \<and> (\<forall>b. same_book (ebook b ob) (resting T b s)) \<and>
     fills_ok P s \<and> pend_ok P \<and> (\<forall>(i, q, p, m) \<in> set P. id_ok i \<and> id_ok m) \<and> no_violations s"

lemma isSelfCross_iff: "id_ok i \<Longrightarrow> id_ok j \<Longrightarrow> isSelfCross i j \<longleftrightarrow> j div 2 ^ 32 = i div 2 ^ 32"
proof -
  assume "id_ok i" "id_ok j"
  then have "0 < i div 2 ^ 32" by (simp add: id_ok_def pos_imp_zdiv_pos_iff)
  then show ?thesis by (auto simp: isSelfCross_def botID_def shr32_def)
qed

lemma sim_keep:
  assumes "sim T ok cmpOf ob P s" "bids s' = bids s" "asks s' = asks s" "orderMap s' = orderMap s" "nextAddr s' = nextAddr s"
    "pendingOrders s' = pendingOrders s" "fills_ok P' s'" "pend_ok P'" "\<forall>(i, q, p, m) \<in> set P'. id_ok i \<and> id_ok m" "no_violations s'"
  shows "sim T ok cmpOf ob P' s'"
proof -
  have r: "resting T b s' = resting T b s" for b using bookSide_eqI [OF assms(2,3)] by (simp add: resting_def)
  have "ids_ok T s'" using assms(1) unfolding sim_def ids_ok_def sideIds_def r assms(4,6) by blast
  then show ?thesis using assms(1,7-10) shard_ok_cong [OF assms(2-6), of T ok cmpOf] by (simp add: sim_def r)
qed

lemma sim_cleanup: "sim T ok cmpOf ob P s \<Longrightarrow> sim T ok cmpOf ob P (checkCleanup i s)"
  by (rule sim_keep) (simp_all add: frame, auto simp: sim_def intro: cleanup_fills_ok)

lemma sim_fill:
  assumes "sim T ok cmpOf ob ((i, q, p, m) # P) s"
  shows "sim T ok cmpOf ob P (shardFill i q p [m] s)"
proof (rule sim_keep [OF assms])
  have "pend_ok ([(i, q, p, m)] @ P)" using assms by (simp add: sim_def)
  then show P: "pend_ok P" by (blast dest: pend_ok_append)
  show "fills_ok P (shardFill i q p [m] s)" using assms P by (intro shardFill_fills_ok) (simp_all add: sim_def)
  show "\<forall>(i, q, p, m) \<in> set P. id_ok i \<and> id_ok m" using assms by (simp add: sim_def)
  show "no_violations (shardFill i q p [m] s)" using assms by (simp add: sim_def shardFill_def Let_def) (simp add: no_violations_def)
qed (simp_all add: shardFill_def Let_def frame)

lemma sim_pending:
  assumes "sim T ok cmpOf ob P s" "\<And>i x. map_of ps i = Some x \<Longrightarrow> ID x = i \<and> in64 (Quantity x) \<and> id_ok i \<and> \<not> has_key (orderMap s) i"
  shows "sim T ok cmpOf ob P (s\<lparr>pendingOrders := ps\<rparr>)"
proof -
  have r: "resting T b (s\<lparr>pendingOrders := ps\<rparr>) = resting T b s" for b by (simp add: resting_def bookSide_def)
  have "shard_ok T ok cmpOf (s\<lparr>pendingOrders := ps\<rparr>)"
    using assms by (intro shard_ok_pending) (auto simp: sim_def pending_ok_eq)
  moreover have "id_ok i \<and> \<not> has_key (orderMap s) i" if "has_key ps i" for i
    using that assms(2) [of i] by (auto simp: has_key_def)
  ultimately show ?thesis using assms(1) fills_ok_cong [of "s\<lparr>pendingOrders := ps\<rparr>" s P]
    by (auto simp: sim_def ids_ok_def sideIds_def r no_violations_def)
qed

section \<open>Sending an order\<close>

lemma sim_order:
  assumes "sim T ok cmpOf ob P s" "ToLower ty \<noteq> ''cancel''" "id_ok i" "\<not> has_key (orderMap s) i" "\<not> has_key (pendingOrders s) i" "in64 q"
  shows "sim T ok cmpOf ob P (shardOrder i ty sd p q s)"
    and "pendingOrders (shardOrder i ty sd p q s) = AList.update i \<lparr>ID = i, Type = ty, Side = sd, Price = p, Quantity = q\<rparr> (pendingOrders s)"
    and "orderMap (shardOrder i ty sd p q s) = orderMap s"
proof -
  let ?s = "s\<lparr>pendingOrders := AList.update i \<lparr>ID = i, Type = ty, Side = sd, Price = p, Quantity = q\<rparr> (pendingOrders s)\<rparr>"
  have e: "shardOrder i ty sd p q s = checkCleanup i ?s" using assms(2,4,5) by (simp add: shardOrder_def)
  have "pending_ok s" "\<And>j. has_key (pendingOrders s) j \<Longrightarrow> id_ok j \<and> \<not> has_key (orderMap s) j"
    using assms(1) unfolding sim_def shard_ok_def ids_ok_def by blast+
  then have "sim T ok cmpOf ob P ?s"
    using assms(3-6) by (intro sim_pending [OF assms(1)]) (auto simp: gomap_simps pending_ok_def has_key_def split: if_splits)
  then show "sim T ok cmpOf ob P (shardOrder i ty sd p q s)" by (simp add: e sim_cleanup)
qed (use assms in \<open>simp_all add: shardOrder_def frame\<close>)

section \<open>Matching an order\<close>

lemma sweep_ids:
  assumes "sweep stop inc rem0 xs = (bk, rm, ts)" "distinct (map (\<lambda>x. ID (snd x)) xs)"
  shows "distinct (map (\<lambda>x. ID (snd x)) bk) \<and>
     set (map (\<lambda>x. ID (snd x)) bk) = set (map (\<lambda>x. ID (snd x)) xs) - t_resting ` {t \<in> set ts. t_done t}"
  using assms
proof (induction xs arbitrary: rem0 bk ts)
  case (Cons e xs)
  obtain b r where e: "e = (b, r)" by fastforce
  from Cons.prems(1) [unfolded e] show ?case
  proof (cases rule: sweep_ConsE)
    case stop
    then show ?thesis using Cons.prems(2) by (simp add: e)
  next
    case (self bk1)
    have "\<forall>t \<in> set ts. t_resting t \<in> (\<lambda>x. ID (snd x)) ` set xs" using sweep_trades [OF self(4)] by force
    then show ?thesis using Cons.IH [OF self(4)] Cons.prems(2) self(5) e by auto
  next
    case (trade q t bk1 ts1)
    define D where "D = t_resting ` {t \<in> set ts1. t_done t}"
    have sub: "D \<subseteq> (\<lambda>x. ID (snd x)) ` set xs" using sweep_trades [OF trade(6)] by (force simp: D_def)
    have "{t' \<in> set ts. t_done t'} = (if q = Quantity r then insert t {t' \<in> set ts1. t_done t'} else {t' \<in> set ts1. t_done t'})"
      using trade(5,8) by auto
    then have D: "t_resting ` {t' \<in> set ts. t_done t'} = (if q = Quantity r then insert (ID r) D else D)"
      using trade(5) by (simp add: D_def)
    have d: "distinct (map (\<lambda>x. ID (snd x)) xs)" "ID r \<notin> (\<lambda>x. ID (snd x)) ` set xs" using Cons.prems(2) e by auto
    note IH = Cons.IH [OF trade(6) d(1), folded D_def]
    show ?thesis unfolding D using IH sub d(2) trade(7) by (auto simp: e)
  qed
qed simp

lemma handleOrder_side:
  assumes "eo_Type e \<noteq> OrderType_CANCEL" "eo_Side e = (if buy then Side_BUY else Side_SELL)"
    and "matchLoop ns buy e (ebook (\<not> buy) ob) (u64 (seqID ob + 1)) = (e1, opp, seq1, reps)"
  obtains ob' where "handleOrder ns e ob = (mkReport ns e ACCEPTED 0 0 (u64 (seqID ob + 1)) 0 # reps, ob')"
    "ebook (\<not> buy) ob' = opp"
    "ebook buy ob' = (if 0 < eo_Quantity e1 \<and> eo_Type e1 = OrderType_LIMIT then insertOrder buy e1 (ebook buy ob) else ebook buy ob)"
  using assms by (cases buy) (auto simp: handleOrder_def Let_def ebook_def engine_consts)

lemma insertOrder_same:
  assumes "same_book es (xs @ ys)" "same_order e x"
    and "\<forall>y \<in> set xs. \<not> better buy (Price (snd x)) (Price (snd y))" "\<forall>y \<in> set ys. better buy (Price (snd x)) (Price (snd y))"
  shows "same_book (insertOrder buy e es) (xs @ x # ys)"
proof -
  obtain es1 es2 where es: "es = es1 @ es2" "same_book es1 xs" "same_book es2 ys"
    using assms(1) by (auto simp: same_book_def list_all2_append2)
  let ?stays = "\<lambda>ro. \<not> (if buy then eo_Price e > eo_Price ro else eo_Price e < eo_Price ro)"
  have "\<exists>y \<in> set xs. same_order a y" if "a \<in> set es1" for a
    using es(2) that by (auto simp: same_book_def list_all2_conv_all_nth in_set_conv_nth) (metis nth_mem)
  then have 1: "\<forall>a \<in> set es1. ?stays a" using assms(2,3) by (fastforce simp: same_order_def better_def split: if_splits)
  have 2: "es2 = [] \<or> \<not> ?stays (hd es2)"
    using es(3) assms(2,4) by (cases es2) (auto simp: same_book_def list_all2_Cons1 same_order_def better_def split: if_splits)
  have "takeWhile ?stays es = es1" "dropWhile ?stays es = es2"
    using 1 2 unfolding es(1) by (auto simp: takeWhile_append2 dropWhile_append2 takeWhile_eq_Nil_iff dropWhile_eq_self_iff simp del: not_less not_le)
  then have "insertOrder buy e es = es1 @ e # es2" by (simp add: insertOrder_def Let_def)
  then show ?thesis using es(2,3) assms(2) by (auto simp: same_book_def list_all2_appendI)
qed

lemma all_side: "(\<forall>b. P b) \<longleftrightarrow> P c \<and> P (\<not> c)"
  by (cases c) (auto intro: bool_induct)

lemma ex_side: "(\<exists>b. P b) \<longleftrightarrow> P c \<or> P (\<not> c)"
  by (cases c) (auto simp: ex_bool_eq)

lemma applyTrades_no_violations [simp]: "no_violations (applyTrades inc ts s) = no_violations s"
proof (induction ts arbitrary: s)
  case (Cons t ts)
  have "no_violations (applyTrade inc t s) = no_violations s"
    by (simp add: applyTrade_def Let_def) (simp add: no_violations_def recordExpectedFill_def)
  then show ?case using Cons by simp
qed simp

lemma setBookSide_no_violations [simp]: "no_violations (setBookSide b t s) = no_violations s" "no_violations (s\<lparr>orderMap := m\<rparr>) = no_violations s"
  by (simp_all add: no_violations_def setBookSide_def)

lemma ids_ok_side:
  "ids_ok T s \<longleftrightarrow> distinct (sideIds T c s) \<and> distinct (sideIds T (\<not> c) s) \<and> set (sideIds T c s) \<inter> set (sideIds T (\<not> c) s) = {} \<and>
     (\<forall>i. has_key (orderMap s) i \<longleftrightarrow> i \<in> set (sideIds T c s) \<or> i \<in> set (sideIds T (\<not> c) s)) \<and>
     (\<forall>i. has_key (orderMap s) i \<or> has_key (pendingOrders s) i \<longrightarrow> id_ok i) \<and>
     (\<forall>i. has_key (pendingOrders s) i \<longrightarrow> \<not> has_key (orderMap s) i)"
proof -
  have "(\<exists>b. i \<in> set (sideIds T b s)) \<longleftrightarrow> i \<in> set (sideIds T c s) \<or> i \<in> set (sideIds T (\<not> c) s)" for i by (rule ex_side)
  then show ?thesis unfolding ids_ok_def all_side [of "\<lambda>b. distinct (sideIds T b s)" c]
    all_side [of "\<lambda>b. set (sideIds T b s) \<inter> set (sideIds T (\<not> b) s) = {}" c] by (auto simp: Int_commute)
qed

lemma ids_ok_trades:
  assumes "ids_ok T s" "sweep stop inc rem0 (resting T c s) = (bk, rm, ts)"
    and s': "resting T c s' = bk" "resting T (\<not> c) s' = resting T (\<not> c) s" "pendingOrders s' = pendingOrders s"
    and om: "\<And>i. has_key (orderMap s') i \<longleftrightarrow> has_key (orderMap s) i \<and> i \<notin> t_resting ` {t \<in> set ts. t_done t}"
  shows "ids_ok T s'"
proof -
  let ?D = "t_resting ` {t \<in> set ts. t_done t}"
  have i: "distinct (sideIds T c s)" "distinct (sideIds T (\<not> c) s)" "set (sideIds T c s) \<inter> set (sideIds T (\<not> c) s) = {}"
     "\<And>i. has_key (orderMap s) i \<longleftrightarrow> i \<in> set (sideIds T c s) \<or> i \<in> set (sideIds T (\<not> c) s)"
    using assms(1) unfolding ids_ok_side [of T s c] by blast+
  have b: "distinct (sideIds T c s')" "set (sideIds T c s') = set (sideIds T c s) - ?D"
    using sweep_ids [OF assms(2)] i(1) by (simp_all add: sideIds_def s'(1))
  have n: "sideIds T (\<not> c) s' = sideIds T (\<not> c) s" by (simp add: sideIds_def s'(2))
  have D: "?D \<subseteq> set (sideIds T c s)" 
  proof
    fix j assume "j \<in> ?D"
    then obtain t where "t \<in> set ts" "j = t_resting t" by auto
    then show "j \<in> set (sideIds T c s)" using sweep_trades [OF assms(2), of t] by (force simp: sideIds_def)
  qed
  have "has_key (orderMap s') j \<longleftrightarrow> j \<in> set (sideIds T c s') \<or> j \<in> set (sideIds T (\<not> c) s')" for j
    unfolding om b(2) n i(4) using D i(3) by blast
  moreover have "\<forall>i. has_key (orderMap s') i \<or> has_key (pendingOrders s') i \<longrightarrow> id_ok i"
    "\<forall>i. has_key (pendingOrders s') i \<longrightarrow> \<not> has_key (orderMap s') i"
    using assms(1) unfolding ids_ok_def om s'(3) by blast+
  moreover have "distinct (sideIds T (\<not> c) s')" using i(2) n by simp
  moreover have "set (sideIds T c s') \<inter> set (sideIds T (\<not> c) s') = {}" unfolding b(2) n using i(3) by blast
  ultimately show ?thesis using b(1) unfolding ids_ok_side [of T s' c] by blast
qed

context price_tree
begin

lemma sim_matchSide:
  assumes s: "sim T ok cmpOf ob [] s" and q: "in64 (Quantity order)" "0 \<le> Quantity order"
    and i: "id_ok (ID order)" "\<not> has_key (orderMap s) (ID order)"
    and sw: "sweep (limitStop buy ul order) (ID order) (Quantity order) (resting T (\<not> buy) s) = (bk, rm, ts)"
    and ob': "same_book (ebook (\<not> buy) ob') bk" "ebook buy ob' = ebook buy ob"
  obtains s' where "matchSide T buy order ul s = (rm, s')" "sim T ok cmpOf ob' (tradeFills (ID order) ts) s'"
    "pendingOrders s' = pendingOrders s" "\<not> has_key (orderMap s') (ID order)"
proof -
  have ok: "shard_ok T ok cmpOf s" "ids_ok T s" "fills_ok [] s" "no_violations s" "\<And>b. same_book (ebook b ob) (resting T b s)"
    using s by (simp_all add: sim_def)
  note nb = shard_ok_book [OF ok(1), of "\<not> buy"]
  note pos = resting_posQty [OF nb]
  obtain s' where m: "matchSide T buy order ul s = (rm, s')" and s': "shard_ok T ok cmpOf s'"
    "resting T (\<not> buy) s' = bk" "resting T buy s' = resting T buy s"
    by (rule matchSide_shard_ok [OF ok(1) q(1) sw])
  obtain t' where e: "s' = applyTrades (ID order) ts (setBookSide (\<not> buy) t' s)"
    using matchSide_sweep [of buy s order ul bk rm ts] nb q(1) sw m by (auto simp: book_ok_def resting_def)
  have om: "has_key (orderMap s') j \<longleftrightarrow> has_key (orderMap s) j \<and> j \<notin> t_resting ` {t \<in> set ts. t_done t}" for j
    by (auto simp: e has_key_def applyTrades_orderMap frame)
  have pn: "pendingOrders s' = pendingOrders s" by (simp add: e frame)
  have "ids_ok T s'" using s'(2,3) om by (intro ids_ok_trades [OF ok(2) sw _ _ pn]) simp_all
  moreover have tr: "0 < t_qty t \<and> t_resting t \<noteq> ID order \<and> id_ok (t_resting t)" if t: "t \<in> set ts" for t
  proof -
    obtain a r where r: "(a, r) \<in> set (resting T (\<not> buy) s)" "t_resting t = ID r" using sweep_trades [OF sw t] by auto
    then have "t_resting t \<in> set (sideIds T (\<not> buy) s)" by (force simp: sideIds_def)
    then have k: "has_key (orderMap s) (t_resting t)" using ok(2) unfolding ids_ok_def by blast
    then have "id_ok (t_resting t)" using ok(2) unfolding ids_ok_def by blast
    then show ?thesis using k i(2) sweep_conserves [OF sw pos] t by auto
  qed
  have "(\<Sum>t\<leftarrow>ts. t_qty t) < 2 ^ 63" using sweep_conserves [OF sw pos] sweep_in64 [OF sw pos q(1)] q by (simp add: in64_def)
  then have po: "pend_ok (tradeFills (ID order) ts)" using tr by (intro tradeFills_pend_ok) auto
  moreover have "fills_ok ([] @ tradeFills (ID order) ts) s'" unfolding e
    using ok(3) po by (intro applyTrades_fills_ok) (simp_all add: fills_ok_def frame)
  moreover have "\<forall>(j, q, p, m) \<in> set (tradeFills (ID order) ts). id_ok j \<and> id_ok m" using tr i(1) by (auto simp: tradeFills_def)
  moreover have "no_violations s'" using ok(4) by (simp add: e)
  moreover have "same_book (ebook b ob') (resting T b s')" for b using ob' ok(5) [of buy] s'(2,3) by (cases "b = buy") auto
  ultimately have "sim T ok cmpOf ob' (tradeFills (ID order) ts) s'" using s'(1) by (simp add: sim_def)
  then show thesis using that [OF m] pn om i(2) by blast
qed

lemma sim_add:
  assumes s: "sim T ok cmpOf ob P s" and o: "0 < Quantity order" "in64 (Quantity order)" "ToLower (Side order) = (if b then ''buy'' else ''sell'')"
    and i: "id_ok (ID order)" "\<not> has_key (orderMap s) (ID order)" "\<not> has_key (pendingOrders s) (ID order)"
    and ok': "shard_ok T ok cmpOf (addOrderToBook T order b s)"
    and e: "eo_OrderID e = ID order" "eo_Price e = Price order" "eo_Quantity e = Quantity order"
    and ob': "ebook b ob' = insertOrder b e (ebook b ob)" "ebook (\<not> b) ob' = ebook (\<not> b) ob"
  shows "sim T ok cmpOf ob' P (addOrderToBook T order b s)"
proof -
  let ?s = "addOrderToBook T order b s"
  have ok: "shard_ok T ok cmpOf s" "ids_ok T s" "\<And>b. same_book (ebook b ob) (resting T b s)" using s by (simp_all add: sim_def)
  obtain xs ys where r: "resting T b s = xs @ ys" "resting T b ?s = xs @ (nextAddr s, order) # ys"
    "\<forall>(a, r) \<in> set xs. \<not> better b (Price order) (Price r)" "\<forall>(a, r) \<in> set ys. better b (Price order) (Price r)"
    by (rule addOrderToBook_resting [OF shard_ok_book [OF ok(1)] o])
  have n: "resting T (\<not> b) ?s = resting T (\<not> b) s" by (simp add: resting_def addOrderToBook_def Let_def frame)
  have f: "orderMap ?s = AList.update (ID order) \<lparr>ref_addr = nextAddr s, ref_side = Side order, ref_price = Price order\<rparr> (orderMap s)"
    "pendingOrders ?s = pendingOrders s" "expectedFills ?s = expectedFills s" "actualFills ?s = actualFills s" "no_violations ?s = no_violations s"
    by (simp_all add: addOrderToBook_def Let_def frame) (simp add: no_violations_def)
  have "same_book (ebook b ob') (resting T b ?s)" unfolding ob'(1) r(2)
    using ok(3) [of b] r(1,3,4) e by (intro insertOrder_same) (auto simp: same_order_def)
  then have "same_book (ebook c ob') (resting T c ?s)" for c using n ob'(2) ok(3) by (cases "c = b") auto
  moreover have "ids_ok T ?s"
  proof -
    obtain ix iy where x: "sideIds T b s = ix @ iy" "sideIds T b ?s = ix @ ID order # iy" by (simp add: sideIds_def r(1,2))
    have y: "sideIds T (\<not> b) ?s = sideIds T (\<not> b) s" by (simp add: sideIds_def n)
    have "ID order \<notin> set (sideIds T c s)" for c using i(2) ok(2) unfolding ids_ok_def by blast
    from this [of b] this [of "\<not> b"] show ?thesis using ok(2) i(1,3) unfolding ids_ok_side [of _ _ b] x y f(1,2)
      by (auto simp: gomap_simps)
  qed
  ultimately show ?thesis using s ok' fills_ok_cong [OF f(3,4)] f(5) by (simp add: sim_def)
qed

end

section \<open>Acknowledgements\<close>

lemma sim_ebook: "sim T ok cmpOf ob P s \<Longrightarrow> \<forall>b. ebook b ob' = ebook b ob \<Longrightarrow> sim T ok cmpOf ob' P s"
  by (simp add: sim_def)

lemma limit_estop:
  assumes "eo_Price e = Price order" "eo_Type e = (if ul then OrderType_LIMIT else OrderType_MARKET)"
  shows "\<forall>f x. same_order f x \<longrightarrow> estop buy e f = limitStop buy ul order (snd x)"
  using assms by (auto simp: same_order_def estop_def limitStop_def beyondLimit_def engine_consts split: if_splits)

context price_tree
begin

lemma engine_matches:
  assumes s: "sim T ok cmpOf ob [] s" and q: "0 \<le> Quantity order" and i: "id_ok (ID order)"
    and e: "eo_OrderID e = ID order" "eo_Price e = Price order" "eo_Quantity e = Quantity order"
      "eo_Type e = (if ul then OrderType_LIMIT else OrderType_MARKET)" "eo_Side e = (if buy then Side_BUY else Side_SELL)"
    and sw: "sweep (limitStop buy ul order) (ID order) (Quantity order) (resting T (\<not> buy) s) = (bk, rm, ts)"
  obtains reps ob' where "handleOrder ns e ob = (mkReport ns e ACCEPTED 0 0 (u64 (seqID ob + 1)) 0 # reps, ob')"
    "fillsOf reps = tradeFills (ID order) ts" "same_book (ebook (\<not> buy) ob') bk"
    "ebook buy ob' = (if 0 < rm \<and> ul then insertOrder buy (e\<lparr>eo_Quantity := rm\<rparr>) (ebook buy ob) else ebook buy ob)"
proof -
  have ok: "shard_ok T ok cmpOf s" "ids_ok T s" "same_book (ebook (\<not> buy) ob) (resting T (\<not> buy) s)" using s by (simp_all add: sim_def)
  have pos: "\<forall>x \<in> set (resting T (\<not> buy) s). 0 < Quantity (snd x)"
    using resting_posQty [OF shard_ok_book [OF ok(1)], of "\<not> buy"] by (auto simp: posQty_def)
  have self: "\<forall>x \<in> set (resting T (\<not> buy) s). isSelfCross (eo_OrderID e) (ID (snd x)) \<longleftrightarrow> ID (snd x) div 2 ^ 32 = eo_OrderID e div 2 ^ 32"
  proof
    fix x assume "x \<in> set (resting T (\<not> buy) s)"
    then have "ID (snd x) \<in> set (sideIds T (\<not> buy) s)" by (simp add: sideIds_def)
    then have "id_ok (ID (snd x))" using ok(2) unfolding ids_ok_def by blast
    then show "isSelfCross (eo_OrderID e) (ID (snd x)) \<longleftrightarrow> ID (snd x) div 2 ^ 32 = eo_OrderID e div 2 ^ 32"
      using isSelfCross_iff [OF i] by (simp add: e(1))
  qed
  obtain es' seq' reps where m: "matchLoop ns buy e (ebook (\<not> buy) ob) (u64 (seqID ob + 1)) = (e\<lparr>eo_Quantity := rm\<rparr>, es', seq', reps)"
    "same_book es' bk" "fillsOf reps = tradeFills (ID order) ts"
    using matchLoop_sweep [OF ok(3) pos _ limit_estop [OF e(2,4), of buy] self, where pre = "[]" and bk = bk and rm = rm and ts = ts and ns = ns and seq = "u64 (seqID ob + 1)"] q sw e(1,3) by auto
  have "eo_Type e \<noteq> OrderType_CANCEL" using e(4) by (simp add: engine_consts)
  then obtain ob' where "handleOrder ns e ob = (mkReport ns e ACCEPTED 0 0 (u64 (seqID ob + 1)) 0 # reps, ob')" "ebook (\<not> buy) ob' = es'"
    "ebook buy ob' = (if 0 < rm \<and> eo_Type e = OrderType_LIMIT then insertOrder buy (e\<lparr>eo_Quantity := rm\<rparr>) (ebook buy ob) else ebook buy ob)"
    by (rule handleOrder_side [OF _ e(5) m(1)]) simp
  then show thesis using that m(2,3) e(4) by (simp add: engine_consts split: if_splits)
qed

lemma shardAck_accepted:
  assumes "map_of (pendingOrders s) i = Some order" "ToLower (Type order) = (if ul then ''limit'' else ''market'')"
  shows "shardAck T i ''accepted'' s = checkCleanup i
    (if ul then matchLimitOrder T order (s\<lparr>pendingOrders := AList.delete i (pendingOrders s)\<rparr>)
     else matchMarketOrder T order (s\<lparr>pendingOrders := AList.delete i (pendingOrders s)\<rparr>))"
  using assms by (simp add: shardAck_def ToLower_def lower_char_def)

lemma sim_ack:
  assumes s: "sim T ok cmpOf ob [] s" and p: "map_of (pendingOrders s) i = Some order"
    and o: "0 \<le> Quantity order" "ToLower (Type order) = (if ul then ''limit'' else ''market'')" "ToLower (Side order) = (if buy then ''buy'' else ''sell'')"
    and e: "eo_OrderID e = i" "eo_Price e = Price order" "eo_Quantity e = Quantity order"
      "eo_Type e = (if ul then OrderType_LIMIT else OrderType_MARKET)" "eo_Side e = (if buy then Side_BUY else Side_SELL)"
  obtains reps ob' where "handleOrder ns e ob = (mkReport ns e ACCEPTED 0 0 (u64 (seqID ob + 1)) 0 # reps, ob')"
    "sim T ok cmpOf ob' (fillsOf reps) (shardAck T i ''accepted'' s)"
    "pendingOrders (shardAck T i ''accepted'' s) = AList.delete i (pendingOrders s)"
proof -
  define s1 where "s1 = s\<lparr>pendingOrders := AList.delete i (pendingOrders s)\<rparr>"
  have po: "ID order = i" "in64 (Quantity order)" using s p by (auto simp: sim_def shard_ok_def pending_ok_def)
  have k: "has_key (pendingOrders s) j \<Longrightarrow> id_ok j \<and> \<not> has_key (orderMap s) j" for j using s unfolding sim_def ids_ok_def by blast
  have ik: "id_ok (ID order)" "\<not> has_key (orderMap s1) (ID order)" "\<not> has_key (pendingOrders s1) (ID order)"
    using k [of i] p po(1) by (simp_all add: s1_def has_key_def gomap_simps)
  have pk: "\<And>j x. map_of (pendingOrders s) j = Some x \<Longrightarrow> ID x = j \<and> in64 (Quantity x)" using s by (simp add: sim_def shard_ok_def pending_ok_def)
  have s1: "sim T ok cmpOf ob [] s1" unfolding s1_def
    using k pk by (intro sim_pending [OF s]) (auto simp: gomap_simps has_key_def split: if_splits)
  obtain bk rm ts where sw: "sweep (limitStop buy ul order) (ID order) (Quantity order) (resting T (\<not> buy) s1) = (bk, rm, ts)" by (rule sweep_ex)
  have ok1: "shard_ok T ok cmpOf s1" using s1 by (simp add: sim_def)
  have rm: "in64 rm" using sweep_in64 [OF sw resting_posQty [OF shard_ok_book [OF ok1]] po(2)] by simp
  obtain reps ob' where h: "handleOrder ns e ob = (mkReport ns e ACCEPTED 0 0 (u64 (seqID ob + 1)) 0 # reps, ob')"
    "fillsOf reps = tradeFills (ID order) ts" "same_book (ebook (\<not> buy) ob') bk"
    "ebook buy ob' = (if 0 < rm \<and> ul then insertOrder buy (e\<lparr>eo_Quantity := rm\<rparr>) (ebook buy ob) else ebook buy ob)"
    by (rule engine_matches [OF s1 o(1) ik(1) e(1) [folded po(1)] e(2-5) sw])
  define ob1 where "ob1 = (if buy then ob\<lparr>sellOrders := ebook False ob'\<rparr> else ob\<lparr>buyOrders := ebook True ob'\<rparr>)"
  have ob1: "ebook (\<not> buy) ob1 = ebook (\<not> buy) ob'" "ebook buy ob1 = ebook buy ob" by (auto simp: ob1_def ebook_def)
  obtain s2 where m: "matchSide T buy order ul s1 = (rm, s2)" and s2: "sim T ok cmpOf ob1 (tradeFills (ID order) ts) s2"
    "pendingOrders s2 = pendingOrders s1" "\<not> has_key (orderMap s2) (ID order)"
    by (rule sim_matchSide [OF s1 po(2) o(1) ik(1,2) sw _ ob1(2)]) (use h(3) ob1 in auto)
  have mi: "matchIncoming T order ul s1 = (rm, s2)" using m o(3) by (cases buy) (simp_all add: matchIncoming_def)
  let ?r = "if ul then matchLimitOrder T order s1 else matchMarketOrder T order s1"
  let ?o = "order\<lparr>Quantity := rm\<rparr>"
  have r: "?r = (if 0 < rm \<and> ul then addOrderToBook T ?o buy s2 else s2)"
    using mi o(3) by (cases buy; cases ul) (simp_all add: matchLimitOrder_def matchMarketOrder_def Let_def)
  have "sim T ok cmpOf ob' (fillsOf reps) ?r"
  proof (cases "0 < rm \<and> ul")
    case True
    then have "shard_ok T ok cmpOf (addOrderToBook T ?o buy s2)" using matchLimitOrder_shard_ok [OF ok1 po(2)] r by simp
    then show ?thesis unfolding r h(2)
      using True rm o(3) ik s2 e(1-3) po(1) ob1 h(4) sim_add [OF s2(1), of ?o buy "e\<lparr>eo_Quantity := rm\<rparr>" ob'] by simp
  next
    case False
    then have "ebook b ob' = ebook b ob1" for b using ob1 h(4) by (cases "b = buy") auto
    then show ?thesis unfolding r h(2) using False sim_ebook [OF s2(1), of ob'] by auto
  qed
  moreover have "pendingOrders ?r = pendingOrders s1" unfolding r using s2(2) by (simp add: addOrderToBook_def Let_def frame)
  moreover have "shardAck T i ''accepted'' s = checkCleanup i ?r" using shardAck_accepted [OF p o(2)] by (simp add: s1_def)
  ultimately show thesis using that [OF h(1)] by (simp add: sim_cleanup frame s1_def)
qed

end

section \<open>Cancellations\<close>

lemma removeByID_same:
  assumes "same_book es xs" "distinct (map (\<lambda>x. ID (snd x)) xs)"
  shows "if i \<in> (\<lambda>x. ID (snd x)) ` set xs then \<exists>es'. removeByID i es = Some es' \<and> same_book es' (filter (\<lambda>x. ID (snd x) \<noteq> i) xs)
     else removeByID i es = None"
  using assms
proof (induction xs arbitrary: es)
  case Nil
  then show ?case by (simp add: same_book_def)
next
  case (Cons x xs)
  obtain e es1 where es: "es = e # es1" "same_order e x" "same_book es1 xs" using Cons.prems(1) by (auto simp: same_book_def list_all2_Cons2)
  note IH = Cons.IH [OF es(3)]
  show ?case
  proof (cases "ID (snd x) = i")
    case True
    then have "filter (\<lambda>x. ID (snd x) \<noteq> i) xs = xs" using Cons.prems(2) by (auto simp: filter_id_conv image_iff)
    then show ?thesis using True es by (simp add: same_order_def)
  next
    case False
    then have r: "removeByID i es = map_option (Cons e) (removeByID i es1)" using es by (simp add: same_order_def)
    show ?thesis
    proof (cases "i \<in> (\<lambda>x. ID (snd x)) ` set xs")
      case True
      then obtain es' where "removeByID i es1 = Some es'" "same_book es' (filter (\<lambda>x. ID (snd x) \<noteq> i) xs)"
        using IH Cons.prems(2) by auto
      then show ?thesis using True False r es(2) by (simp add: same_book_def)
    qed (use False IH Cons.prems(2) r in auto)
  qed
qed

context price_tree
begin

lemma cancel_removes:
  assumes s: "sim T ok cmpOf ob P s" and i: "has_key (orderMap s) i"
  obtains b s' where "removeRestingOrder T i s = (True, s')" "i \<in> set (sideIds T b s)"
    "resting T b s' = filter (\<lambda>x. ID (snd x) \<noteq> i) (resting T b s)" "resting T (\<not> b) s' = resting T (\<not> b) s"
    "orderMap s' = AList.delete i (orderMap s)" "pendingOrders s' = pendingOrders s" "shard_ok T ok cmpOf s'"
    "expectedFills s' = expectedFills s" "actualFills s' = actualFills s" "no_violations s' = no_violations s"
proof -
  have ok: "shard_ok T ok cmpOf s" "ids_ok T s" using s by (simp_all add: sim_def)
  obtain el where el: "map_of (orderMap s) i = Some el" using i by (auto simp: has_key_def)
  define b where "b = (ToLower (ref_side el) = ''buy'')"
  obtain s' where r: "removeRestingOrder T i s = (True, s')" "resting T b s' = filter (\<lambda>(a, r). a \<noteq> ref_addr el) (resting T b s)"
    "bookSide (\<not> b) s' = bookSide (\<not> b) s" "orderMap s' = AList.delete i (orderMap s)" "pendingOrders s' = pendingOrders s"
    using removeRestingOrder_found [OF ok(1) el, folded b_def] by metis
  obtain ord where ord: "(ref_addr el, ord) \<in> set (resting T b s)" "ID ord = i" using ok(1) el unfolding shard_ok_def refs_ok_def b_def by blast
  have d: "distinct (map fst (resting T b s))" using ok(1) by (cases b) (auto simp: shard_ok_def addrs_ok_def)
  have di: "distinct (map (\<lambda>x. ID (snd x)) (resting T b s))" using ok(2) unfolding ids_ok_def sideIds_def by blast
  have iff: "fst x \<noteq> ref_addr el \<longleftrightarrow> ID (snd x) \<noteq> i" if "x \<in> set (resting T b s)" for x
    using that d di ord unfolding distinct_map inj_on_def by (metis fst_conv snd_conv)
  have "filter (\<lambda>(a, r). a \<noteq> ref_addr el) (resting T b s) = filter (\<lambda>x. ID (snd x) \<noteq> i) (resting T b s)"
    by (rule filter_cong) (use iff in \<open>auto simp: case_prod_beta\<close>)
  moreover have "i \<in> set (sideIds T b s)" using ord by (force simp: sideIds_def)
  moreover have "resting T (\<not> b) s' = resting T (\<not> b) s" by (simp add: resting_def r(3))
  moreover have "shard_ok T ok cmpOf s'" using removeRestingOrder_shard_ok [OF ok(1), of i] r(1) by simp
  moreover have "expectedFills s' = expectedFills s" "actualFills s' = actualFills s" "no_violations s' = no_violations s"
    using r(1) el by (auto simp: removeRestingOrder_def Let_def frame split: option.splits)
  ultimately show thesis using that r by metis
qed

lemma sim_cancel:
  assumes s: "sim T ok cmpOf ob [] s" and p: "\<not> has_key (pendingOrders s) i" and e: "eo_OrderID e = i"
  obtains st ob' where "cancelOrder ns e ob = ([mkReport ns e st 0 0 (u64 (seqID ob + 1)) 0], ob')" "st = CANCELLED \<or> st = REJECTED"
    "sim T ok cmpOf ob' [] (shardAck T i (if st = CANCELLED then ''cancelled'' else ''rejected'') s)"
    "pendingOrders (shardAck T i (if st = CANCELLED then ''cancelled'' else ''rejected'') s) = pendingOrders s"
proof -
  have ok: "shard_ok T ok cmpOf s" "ids_ok T s" "\<And>b. same_book (ebook b ob) (resting T b s)" using s by (simp_all add: sim_def)
  have di: "distinct (map (\<lambda>x. ID (snd x)) (resting T b s))" for b using ok(2) unfolding ids_ok_def sideIds_def by blast
  note rem = removeByID_same [OF ok(3) di, of i]
  have low: "ToLower ''cancelled'' = ''cancelled''" "ToLower ''rejected'' = ''rejected''" by (simp_all add: ToLower_def lower_char_def)
  show thesis
  proof (cases "has_key (orderMap s) i")
    case True
    obtain b s' where r: "removeRestingOrder T i s = (True, s')" "i \<in> set (sideIds T b s)"
      "resting T b s' = filter (\<lambda>x. ID (snd x) \<noteq> i) (resting T b s)" "resting T (\<not> b) s' = resting T (\<not> b) s"
      "orderMap s' = AList.delete i (orderMap s)" "pendingOrders s' = pendingOrders s" "shard_ok T ok cmpOf s'"
      "expectedFills s' = expectedFills s" "actualFills s' = actualFills s" "no_violations s' = no_violations s"
      by (rule cancel_removes [OF s True])
    have nb: "i \<notin> set (sideIds T (\<not> b) s)" using r(2) ok(2) unfolding ids_ok_def by blast
    obtain es' where es': "removeByID i (ebook b ob) = Some es'" "same_book es' (resting T b s')"
      using rem [of b] r(2,3) by (auto simp: sideIds_def)
    have "removeByID i (ebook (\<not> b) ob) = None" using rem [of "\<not> b"] nb by (simp add: sideIds_def)
    then obtain ob' where h: "cancelOrder ns e ob = ([mkReport ns e CANCELLED 0 0 (u64 (seqID ob + 1)) 0], ob')"
      "ebook b ob' = es'" "ebook (\<not> b) ob' = ebook (\<not> b) ob"
      using es'(1) e by (cases b) (auto simp: cancelOrder_def Let_def ebook_def)
    have "ids_ok T s'"
    proof -
      have x: "sideIds T b s' = filter (\<lambda>j. j \<noteq> i) (sideIds T b s)" by (simp add: sideIds_def r(3) filter_map o_def)
      have y: "sideIds T (\<not> b) s' = sideIds T (\<not> b) s" by (simp add: sideIds_def r(4))
      show ?thesis using ok(2) nb unfolding ids_ok_side [of _ _ b] x y r(5,6) by (auto simp: gomap_simps)
    qed
    moreover have "same_book (ebook c ob') (resting T c s')" for c using h(2,3) es'(2) ok(3) r(4) by (cases "c = b") auto
    ultimately have "sim T ok cmpOf ob' [] s'" using s r(7-10) fills_ok_cong [OF r(8,9)] by (simp add: sim_def)
    moreover have "shardAck T i ''cancelled'' s = checkCleanup i s'" using True r(1) by (simp add: shardAck_def low hasRestingOrder_def)
    ultimately show thesis using that [OF h(1)] r(6) by (simp add: sim_cleanup frame)
  next
    case False
    then have "removeByID i (ebook b ob) = None" for b using rem [of b] ok(2) unfolding ids_ok_def sideIds_def by auto
    from this [of True] this [of False] have h: "cancelOrder ns e ob = ([mkReport ns e REJECTED 0 0 (u64 (seqID ob + 1)) 0], ob\<lparr>seqID := u64 (seqID ob + 1)\<rparr>)"
      using e by (simp add: cancelOrder_def Let_def ebook_def)
    have "shardAck T i ''rejected'' s = checkCleanup i s" using p by (simp add: shardAck_def low has_key_def)
    moreover have "sim T ok cmpOf (ob\<lparr>seqID := u64 (seqID ob + 1)\<rparr>) [] s" by (rule sim_ebook [OF s]) (simp add: ebook_def)
    ultimately show thesis using that [OF h] by (simp add: sim_cleanup frame)
  qed
qed

end


section \<open>The engine's loop and the single pass\<close>

definition elementOf :: "EOrder \<Rightarrow> element" where
  "elementOf e = (0, \<lparr>ID = eo_OrderID e, Type = ''LIMIT'', Side = [], Price = eo_Price e, Quantity = eo_Quantity e\<rparr>)"

text \<open>C13: The matching loop of the reference engines, which searches the book from its front again after every trade, is equivalent
  to one pass over the book: it leaves the same resting orders and the same open quantity and reports the same trades in the same
  order, both sides of each.\<close>

theorem engine_loop_is_single_pass:
  assumes "\<forall>e \<in> set es. id_ok (eo_OrderID e) \<and> 0 < eo_Quantity e" "id_ok (eo_OrderID ord)" "0 \<le> eo_Quantity ord"
    and "eo_Type ord = (if ul then OrderType_LIMIT else OrderType_MARKET)"
    and "sweep (limitStop buy ul (snd (elementOf ord))) (eo_OrderID ord) (eo_Quantity ord) (map elementOf es) = (bk, rm, ts)"
  shows "\<exists>es' seq' reps. matchLoop ns buy ord es seq = (ord\<lparr>eo_Quantity := rm\<rparr>, es', seq', reps) \<and>
     same_book es' bk \<and> fillsOf reps = tradeFills (eo_OrderID ord) ts"
proof -
  have b: "same_book es (map elementOf es)"
    by (simp add: same_book_def list_all2_map2 same_order_def elementOf_def list_all2_refl)
  have p: "\<forall>x \<in> set (map elementOf es). 0 < Quantity (snd x)" using assms(1) by (simp add: elementOf_def)
  have self: "\<forall>x \<in> set (map elementOf es). isSelfCross (eo_OrderID ord) (ID (snd x)) \<longleftrightarrow> ID (snd x) div 2 ^ 32 = eo_OrderID ord div 2 ^ 32"
    using assms(1) isSelfCross_iff [OF assms(2)] by (simp add: elementOf_def)
  have "eo_Price ord = Price (snd (elementOf ord))" by (simp add: elementOf_def)
  from matchLoop_sweep [OF b p assms(3) limit_estop [OF this assms(4)] self, of "[]"] assms(5) show ?thesis by simp
qed

definition ask0 :: "int \<Rightarrow> int \<Rightarrow> int \<Rightarrow> EOrder" where
  "ask0 i p q = \<lparr>eo_BotID = i div 2 ^ 32, eo_OrderID = i, eo_Type = OrderType_LIMIT, eo_Side = Side_SELL, eo_Price = p, eo_Quantity = q, eo_Conn = 0, eo_TargetCompID = []\<rparr>"

theorem engine_loop_is_single_pass_witness:
  "\<exists>es' seq' reps. matchLoop (\<lambda>s. 0) True ((ask0 (2 ^ 32 + 9) 105 7)\<lparr>eo_Side := Side_BUY\<rparr>)
       [ask0 (2 ^ 33 + 1) 100 5, ask0 (2 ^ 32 + 2) 101 5, ask0 (2 ^ 33 + 3) 102 5, ask0 (2 ^ 33 + 4) 106 5] 0 =
     ((ask0 (2 ^ 32 + 9) 105 0)\<lparr>eo_Side := Side_BUY\<rparr>, es', seq', reps) \<and>
   fillsOf reps = [(2 ^ 32 + 9, 5, 100, 2 ^ 33 + 1), (2 ^ 33 + 1, 5, 100, 2 ^ 32 + 9), (2 ^ 32 + 9, 2, 102, 2 ^ 33 + 3), (2 ^ 33 + 3, 2, 102, 2 ^ 32 + 9)]"
proof -
  let ?ord = "(ask0 (2 ^ 32 + 9) 105 7)\<lparr>eo_Side := Side_BUY\<rparr>"
  let ?es = "[ask0 (2 ^ 33 + 1) 100 5, ask0 (2 ^ 32 + 2) 101 5, ask0 (2 ^ 33 + 3) 102 5, ask0 (2 ^ 33 + 4) 106 5]"
  obtain bk rm ts where s: "sweep (limitStop True True (snd (elementOf ?ord))) (eo_OrderID ?ord) (eo_Quantity ?ord) (map elementOf ?es) = (bk, rm, ts)"
    by (metis prod_cases3)
  have r: "snd (sweep (limitStop True True (snd (elementOf ?ord))) (eo_OrderID ?ord) (eo_Quantity ?ord) (map elementOf ?es)) =
     (0, [\<lparr>t_resting = 2 ^ 33 + 1, t_qty = 5, t_price = 100, t_done = True\<rparr>, \<lparr>t_resting = 2 ^ 33 + 3, t_qty = 2, t_price = 102, t_done = False\<rparr>])"
    by code_simp
  then have v: "rm = 0" "ts = [\<lparr>t_resting = 2 ^ 33 + 1, t_qty = 5, t_price = 100, t_done = True\<rparr>, \<lparr>t_resting = 2 ^ 33 + 3, t_qty = 2, t_price = 102, t_done = False\<rparr>]"
    unfolding s by simp_all
  then have "rm = 0" "tradeFills (eo_OrderID ?ord) ts = [(2 ^ 32 + 9, 5, 100, 2 ^ 33 + 1), (2 ^ 33 + 1, 5, 100, 2 ^ 32 + 9),
      (2 ^ 32 + 9, 2, 102, 2 ^ 33 + 3), (2 ^ 33 + 3, 2, 102, 2 ^ 32 + 9)]"
    by (simp_all add: tradeFills_def ask0_def)
  then show ?thesis using engine_loop_is_single_pass [OF _ _ _ _ s, of "\<lambda>s. 0" 0]
    by (auto simp: id_ok_def ask0_def)
qed

end
