(* ===== verification/Proto_Wire.thy ===== *)
theory Proto_Wire
  imports Engine "HOL-Library.Word"
begin

text \<open>
  The binary protocol: the varint codec of \<^verbatim>\<open>test_payloads/go_optimized/main.go\<close>, its decoder of orders and encoder
  of reports, and the frames with a length prefix that it shares with \<^verbatim>\<open>TCPProtobufAdapter\<close> of
  \<^verbatim>\<open>services/testing/runner.go\<close>. Bytes and \<^verbatim>\<open>uint64\<close> values are words. The library that encodes orders and
  decodes reports on the side of the bots is the parameter \<open>marshal\<close>; \<open>proto3_order\<close> states the documented
  encoding of its messages.
\<close>

unbundle bit_operations_syntax

type_synonym byte = "8 word"

section \<open>Varints\<close>

function encodeVarint :: "64 word \<Rightarrow> byte list" where
  "encodeVarint val =
     (let towrite = ucast (val AND 0x7F) :: byte; val' = drop_bit 7 val in
      if val' > 0 then (towrite OR 0x80) # encodeVarint val' else [towrite])"
  by pat_completeness auto

lemma drop_bit_7_less: "(0 :: 64 word) < drop_bit 7 v \<Longrightarrow> unat (drop_bit 7 v) < unat v"
proof -
  assume a: "0 < drop_bit 7 v"
  have "unat (drop_bit 7 v) = unat v div 2 ^ 7" unfolding unat_drop_bit_eq by (rule drop_bit_eq_div)
  moreover have "0 < unat (drop_bit 7 v)" using a by (simp add: unat_gt_0)
  ultimately show ?thesis by simp
qed

termination encodeVarint
  by (relation "measure unat") (auto intro: drop_bit_7_less)

declare encodeVarint.simps [simp del]

fun decodeVarint :: "byte list \<Rightarrow> 64 word \<Rightarrow> nat \<Rightarrow> 64 word \<times> byte list" where
  \<comment> \<open>the loop with its variables \<open>result\<close> and \<open>shift\<close>; a shift of 64 or more gives 0\<close>
  "decodeVarint [] result shift = (result, [])"
| "decodeVarint (b # data) result shift =
     (let result' = result OR push_bit shift (ucast (b AND 0x7F)) in
      if b AND 0x80 = 0 then (result', data) else decodeVarint data result' (shift + 7))"

lemma decodeVarint_shorter: "length (snd (decodeVarint data r s)) \<le> length data"
  by (induction data arbitrary: r s) (auto simp: Let_def intro: le_SucI)

lemma and_127: "(v :: 'a :: len word) AND 0x7F = take_bit 7 v"
proof -
  have "(0x7F :: 'a word) = mask 7" by (simp add: mask_eq_exp_minus_1)
  then show ?thesis by (simp only: take_bit_eq_mask)
qed

lemma seven_bits: "(ucast (ucast (v AND 0x7F :: 64 word) :: byte) :: 64 word) = take_bit 7 v"
  by (rule bit_word_eqI) (auto simp: and_127 bit_simps)

lemma varint_split: "take_bit 7 v OR push_bit 7 (drop_bit 7 v) = (v :: 64 word)"
proof (rule bit_word_eqI)
  fix n :: nat
  assume "n < LENGTH(64)"
  then show "bit (take_bit 7 v OR push_bit 7 (drop_bit 7 v)) n = bit v n" by (cases "n < 7") (auto simp: bit_simps)
qed

lemma byte_128: "bit (0x80 :: byte) n \<longleftrightarrow> n = 7"
proof -
  have "(0x80 :: byte) = 2 ^ 7" by simp
  then show ?thesis by (simp only: bit_exp_iff) auto
qed

lemma low_byte: "(ucast (v AND 0x7F :: 64 word) :: byte) AND (0x80 :: byte) = 0"
proof (rule bit_word_eqI)
  fix n :: nat
  assume "n < LENGTH(8)"
  show "bit ((ucast (v AND 0x7F) :: byte) AND 0x80) n = bit 0 n"
    unfolding and_127 bit_and_iff byte_128 by (simp add: bit_simps)
qed

lemma high_byte:
  "(ucast (v AND 0x7F :: 64 word) OR 0x80 :: byte) AND 0x80 \<noteq> 0"
  "(ucast (v AND 0x7F :: 64 word) OR 0x80 :: byte) AND 0x7F = ucast (v AND 0x7F :: 64 word)"
proof -
  have "bit ((ucast (v AND 0x7F :: 64 word) OR 0x80 :: byte) AND 0x80) 7" by (simp add: bit_simps byte_128)
  then show "(ucast (v AND 0x7F :: 64 word) OR 0x80 :: byte) AND 0x80 \<noteq> 0" by (metis bit_0_eq bot_apply bot_bool_def)
  show "(ucast (v AND 0x7F :: 64 word) OR 0x80 :: byte) AND 0x7F = ucast (v AND 0x7F :: 64 word)"
    unfolding and_127 by (rule bit_word_eqI) (auto simp: bit_simps byte_128)
qed

lemma low_seven: "(ucast (v AND 0x7F :: 64 word) :: byte) AND 0x7F = ucast (v AND 0x7F :: 64 word)"
  unfolding and_127 by (rule bit_word_eqI) (auto simp: bit_simps)

lemma decode_encode: "decodeVarint (encodeVarint v @ rest) r s = (r OR push_bit s v, rest)"
proof (induction v arbitrary: r s rule: encodeVarint.induct)
  case (1 v)
  have push: "push_bit s (take_bit 7 v) OR push_bit (s + 7) (drop_bit 7 v) = push_bit s v"
    using varint_split [of v] by (metis add.commute push_bit_or push_bit_push_bit)
  show ?case
  proof (cases "drop_bit 7 v > 0")
    case True
    then have "decodeVarint (encodeVarint v @ rest) r s =
        decodeVarint (encodeVarint (drop_bit 7 v) @ rest) (r OR push_bit s (take_bit 7 v)) (s + 7)"
      using high_byte [of v] seven_bits [of v] by (subst encodeVarint.simps) (simp add: Let_def)
    then show ?thesis using 1 [OF refl refl True] push by (simp add: or.assoc)
  next
    case False
    then have "drop_bit 7 v = 0" by (simp add: word_neq_0_conv [symmetric])
    then have "take_bit 7 v = v" using varint_split [of v] by simp
    then show ?thesis using False low_byte [of v] low_seven [of v] seven_bits [of v]
      by (subst encodeVarint.simps) (simp add: Let_def)
  qed
qed


section \<open>Orders\<close>

definition emptyOrder :: EOrder where
  "emptyOrder = \<lparr>eo_BotID = 0, eo_OrderID = 0, eo_Type = 0, eo_Side = 0, eo_Price = 0, eo_Quantity = 0, eo_Conn = 0, eo_TargetCompID = []\<rparr>"

definition setField :: "nat \<Rightarrow> 64 word \<Rightarrow> EOrder \<Rightarrow> EOrder" where
  "setField fieldNum val ord =
     (if fieldNum = 1 then ord\<lparr>eo_BotID := uint val\<rparr>
      else if fieldNum = 2 then ord\<lparr>eo_OrderID := uint val\<rparr>
      else if fieldNum = 3 then ord\<lparr>eo_Type := uint val\<rparr>
      else if fieldNum = 4 then ord\<lparr>eo_Side := uint val\<rparr>
      else if fieldNum = 5 then ord\<lparr>eo_Price := sint val\<rparr>
      else if fieldNum = 6 then ord\<lparr>eo_Quantity := uint val\<rparr>
      else ord)"

function decodeOrderLoop :: "EOrder \<Rightarrow> byte list \<Rightarrow> EOrder option" where
  "decodeOrderLoop ord [] = Some ord"
| "decodeOrderLoop ord (key # data) =
     (if key AND 0x7 = 0 then
        case decodeVarint data 0 0 of (val, rest) \<Rightarrow> decodeOrderLoop (setField (unat (drop_bit 3 key)) val ord) rest
      else None)"
  by pat_completeness auto

termination decodeOrderLoop
  using decodeVarint_shorter
  by (relation "measure (\<lambda>(ord, data). length data)") (auto simp: less_Suc_eq_le, metis snd_conv)

definition decodeOrder :: "byte list \<Rightarrow> EOrder option" where
  "decodeOrder data = decodeOrderLoop emptyOrder data"

definition wireField :: "nat \<times> 64 word \<Rightarrow> byte list" where
  \<comment> \<open>a field of wire type 0\<close>
  "wireField f = of_nat (fst f * 8) # encodeVarint (snd f)"

definition fieldsOf :: "POrder \<Rightarrow> nat \<Rightarrow> 64 word" where
  "fieldsOf ord n =
     (if n = 1 then word_of_int (po_BotId ord) else if n = 2 then word_of_int (po_OrderId ord)
      else if n = 3 then (case po_Type ord of LIMIT \<Rightarrow> 0 | MARKET \<Rightarrow> 1 | CANCEL \<Rightarrow> 2)
      else if n = 4 then (case po_Side ord of BUY \<Rightarrow> 0 | SELL \<Rightarrow> 1)
      else if n = 5 then word_of_int (po_Price ord) else if n = 6 then word_of_int (po_Quantity ord) else 0)"

definition proto3_order :: "(POrder \<Rightarrow> byte list) \<Rightarrow> bool" where
  \<comment> \<open>each field that is not zero is written once, in any order; zero fields are left out\<close>
  "proto3_order marshal \<longleftrightarrow> (\<forall>ord. \<exists>fs. marshal ord = concat (map wireField fs) \<and> distinct (map fst fs) \<and>
     (\<forall>n v. (n, v) \<in> set fs \<longleftrightarrow> v \<noteq> 0 \<and> v = fieldsOf ord n))"

lemma key_byte:
  assumes "n < 16"
  shows "(of_nat (n * 8) :: byte) AND 0x7 = 0" and "unat (drop_bit 3 (of_nat (n * 8) :: byte)) = n"
proof -
  have k: "(of_nat (n * 8) :: byte) = push_bit 3 (of_nat n)" by (simp add: push_bit_eq_mult)
  have "(0x7 :: byte) = mask 3" by (simp add: mask_eq_exp_minus_1)
  then have "(of_nat (n * 8) :: byte) AND 0x7 = take_bit 3 (push_bit 3 (of_nat n))" by (simp only: k take_bit_eq_mask)
  also have "\<dots> = 0" by (rule bit_word_eqI) (auto simp: bit_simps)
  finally show "(of_nat (n * 8) :: byte) AND 0x7 = 0" .
  have "n * 8 mod 256 = n * 8" using assms by simp
  then have "unat (of_nat (n * 8) :: byte) = n * 8" unfolding unat_of_nat by simp
  then show "unat (drop_bit 3 (of_nat (n * 8) :: byte)) = n"
    unfolding unat_drop_bit_eq by (simp only: drop_bit_eq_div) simp
qed

lemma decodeOrderLoop_fields:
  assumes "\<forall>f \<in> set fs. fst f < 16"
  shows "decodeOrderLoop ord (concat (map wireField fs)) = Some (fold (\<lambda>f. setField (fst f) (snd f)) fs ord)"
  using assms
proof (induction fs arbitrary: ord)
  case (Cons f fs)
  have k: "(of_nat (fst f * 8) :: byte) AND 0x7 = 0" "unat (drop_bit 3 (of_nat (fst f * 8) :: byte)) = fst f"
    using key_byte [of "fst f"] Cons.prems by auto
  have "decodeVarint (encodeVarint (snd f) @ concat (map wireField fs)) 0 0 = (snd f, concat (map wireField fs))"
    using decode_encode [of "snd f" _ 0 0] by simp
  moreover have "concat (map wireField (f # fs)) = of_nat (fst f * 8) # encodeVarint (snd f) @ concat (map wireField fs)"
    by (simp add: wireField_def)
  ultimately show ?case using Cons k by (simp del: of_nat_mult)
qed simp

definition getField :: "nat \<Rightarrow> EOrder \<Rightarrow> 64 word" where
  "getField n ord =
     (if n = 1 then word_of_int (eo_BotID ord) else if n = 2 then word_of_int (eo_OrderID ord)
      else if n = 3 then word_of_int (eo_Type ord) else if n = 4 then word_of_int (eo_Side ord)
      else if n = 5 then word_of_int (eo_Price ord) else if n = 6 then word_of_int (eo_Quantity ord) else 0)"

definition in_range :: "EOrder \<Rightarrow> bool" where
  "in_range ord \<longleftrightarrow> eo_BotID ord = uint (getField 1 ord) \<and> eo_OrderID ord = uint (getField 2 ord) \<and> eo_Type ord = uint (getField 3 ord) \<and>
     eo_Side ord = uint (getField 4 ord) \<and> eo_Price ord = sint (getField 5 ord) \<and> eo_Quantity ord = uint (getField 6 ord) \<and>
     eo_Conn ord = 0 \<and> eo_TargetCompID ord = []"

lemma setField_get: "1 \<le> n \<Longrightarrow> n \<le> 6 \<Longrightarrow> getField m (setField n v ord) = (if m = n then v else getField m ord)"
  by (auto simp: getField_def setField_def)

lemma setField_in_range: "in_range ord \<Longrightarrow> in_range (setField n v ord)"
  by (auto simp: in_range_def getField_def setField_def)

lemma fold_setField:
  assumes "\<forall>f \<in> set fs. 1 \<le> fst f \<and> fst f \<le> 6" "distinct (map fst fs)" "in_range ord"
  shows "in_range (fold (\<lambda>f. setField (fst f) (snd f)) fs ord) \<and>
    getField m (fold (\<lambda>f. setField (fst f) (snd f)) fs ord) = (case map_of fs m of Some v \<Rightarrow> v | None \<Rightarrow> getField m ord)"
  using assms
proof (induction fs arbitrary: ord)
  case (Cons f fs)
  have n: "1 \<le> fst f" "fst f \<le> 6" and d: "\<forall>f \<in> set fs. 1 \<le> fst f \<and> fst f \<le> 6" "distinct (map fst fs)" "fst f \<notin> set (map fst fs)"
    using Cons.prems by auto
  have "map_of fs m = None" if "m = fst f" using d(3) that by (simp add: map_of_eq_None_iff)
  then show ?case
    using Cons.IH [OF d(1,2) setField_in_range [OF Cons.prems(3)], of "fst f" "snd f"] setField_get [OF n, of m "snd f" ord]
    by (cases f) (auto split: option.splits)
qed simp


definition engineOrder :: "POrder \<Rightarrow> EOrder" where
  \<comment> \<open>the order as the engine should see it\<close>
  "engineOrder ord =
     \<lparr>eo_BotID = po_BotId ord, eo_OrderID = po_OrderId ord,
      eo_Type = (case po_Type ord of LIMIT \<Rightarrow> OrderType_LIMIT | MARKET \<Rightarrow> OrderType_MARKET | CANCEL \<Rightarrow> OrderType_CANCEL),
      eo_Side = (case po_Side ord of BUY \<Rightarrow> Side_BUY | SELL \<Rightarrow> Side_SELL),
      eo_Price = po_Price ord, eo_Quantity = po_Quantity ord, eo_Conn = 0, eo_TargetCompID = []\<rparr>"

definition porder_ok :: "POrder \<Rightarrow> bool" where
  "porder_ok ord \<longleftrightarrow> 0 \<le> po_BotId ord \<and> po_BotId ord < 2 ^ 64 \<and> 0 \<le> po_OrderId ord \<and> po_OrderId ord < 2 ^ 64 \<and>
     in64 (po_Price ord) \<and> 0 \<le> po_Quantity ord \<and> po_Quantity ord < 2 ^ 64"

lemma uint_word_small: "0 \<le> x \<Longrightarrow> x < 2 ^ 64 \<Longrightarrow> uint (word_of_int x :: 64 word) = x"
  by (simp add: uint_word_of_int take_bit_eq_mod)

lemma sint_word_small: "in64 x \<Longrightarrow> sint (word_of_int x :: 64 word) = x"
  by (simp add: in64_def sint_sbintrunc' signed_take_bit_int_eq_self)

lemma decodeOrder_marshal:
  assumes "proto3_order marshal" "porder_ok ord"
  shows "decodeOrder (marshal ord) = Some (engineOrder ord)"
proof -
  obtain fs where fs: "marshal ord = concat (map wireField fs)" "distinct (map fst fs)"
    "\<And>n v. (n, v) \<in> set fs \<longleftrightarrow> v \<noteq> 0 \<and> v = fieldsOf ord n"
    using assms(1) unfolding proto3_order_def by metis
  have r: "1 \<le> fst f \<and> fst f \<le> 6" if "f \<in> set fs" for f
  proof -
    have "fieldsOf ord (fst f) \<noteq> 0" using fs(3) [of "fst f" "snd f"] that by auto
    then show ?thesis by (auto simp: fieldsOf_def split: if_splits)
  qed
  let ?d = "fold (\<lambda>f. setField (fst f) (snd f)) fs emptyOrder"
  have e: "in_range emptyOrder" "getField m emptyOrder = 0" for m by (simp_all add: in_range_def getField_def emptyOrder_def)
  have g: "getField m ?d = fieldsOf ord m" for m
  proof (cases "fieldsOf ord m = 0")
    case True
    then have "map_of fs m = None" using fs(3) by (auto simp: map_of_eq_None_iff)
    then show ?thesis using fold_setField [OF _ fs(2) e(1), of m] r e(2) True by simp
  next
    case False
    then have "map_of fs m = Some (fieldsOf ord m)" using fs(2,3) by (simp add: map_of_eq_Some_iff)
    then show ?thesis using fold_setField [OF _ fs(2) e(1), of m] r by simp
  qed
  have "in_range ?d" using fold_setField [OF _ fs(2) e(1), of 1] r by simp
  then have "?d = engineOrder ord"
    using assms(2) uint_word_small sint_word_small
    by (intro EOrder.equality)
      (auto simp: in_range_def g fieldsOf_def engineOrder_def porder_ok_def engine_consts split: POrderType.splits PSide.splits)
  moreover have "decodeOrder (marshal ord) = Some ?d"
    unfolding decodeOrder_def fs(1) using r by (intro decodeOrderLoop_fields) force
  ultimately show ?thesis by simp
qed

section \<open>Reports\<close>

definition statusNumber :: "PStatus \<Rightarrow> 64 word" where
  "statusNumber st = (case st of ACCEPTED \<Rightarrow> 0 | FILLED \<Rightarrow> 1 | PARTIAL \<Rightarrow> 2 | REJECTED \<Rightarrow> 3 | CANCELLED \<Rightarrow> 4)"

definition encodeReport :: "ExecutionReport \<Rightarrow> byte list" where
  "encodeReport r =
     [0x08] @ encodeVarint (word_of_int (er_OrderId r)) @
     [0x10] @ encodeVarint (statusNumber (er_Status r)) @
     [0x18] @ encodeVarint (word_of_int (er_FilledQty r)) @
     [0x20] @ encodeVarint (word_of_int (er_FilledPrice r)) @
     [0x28] @ encodeVarint (word_of_int (er_EngineSeqId r)) @
     [0x30] @ encodeVarint (word_of_int (er_ProcessingNs r)) @
     [0x38] @ encodeVarint (word_of_int (er_MatchedWith r))"

definition reportFields :: "ExecutionReport \<Rightarrow> (nat \<times> 64 word) list" where
  "reportFields r =
     [(1, word_of_int (er_OrderId r)), (2, statusNumber (er_Status r)), (3, word_of_int (er_FilledQty r)),
      (4, word_of_int (er_FilledPrice r)), (5, word_of_int (er_EngineSeqId r)), (6, word_of_int (er_ProcessingNs r)),
      (7, word_of_int (er_MatchedWith r))]"

lemma encodeReport_fields: "encodeReport r = concat (map wireField (reportFields r))"
  by (simp add: encodeReport_def reportFields_def wireField_def)

definition reportOf :: "(nat \<times> 64 word) list \<Rightarrow> ExecutionReport option" where
  \<comment> \<open>the message that a list of fields denotes; a status outside the enumeration is refused here\<close>
  "reportOf fs =
     (let num = (\<lambda>n. get_or 0 fs n) in
      map_option (\<lambda>st. \<lparr>er_OrderId = uint (num 1), er_Status = st, er_FilledQty = uint (num 3), er_FilledPrice = sint (num 4),
         er_EngineSeqId = uint (num 5), er_ProcessingNs = uint (num 6), er_MatchedWith = uint (num 7)\<rparr>)
       (map_of [(0, ACCEPTED), (1, FILLED), (2, PARTIAL), (3, REJECTED), (4, CANCELLED)] (num 2)))"

definition proto3_report :: "(byte list \<Rightarrow> ExecutionReport option) \<Rightarrow> bool" where
  "proto3_report unmarshal \<longleftrightarrow> (\<forall>fs. distinct (map fst fs) \<and> (\<forall>f \<in> set fs. 1 \<le> fst f \<and> fst f \<le> 7) \<and> reportOf fs \<noteq> None \<longrightarrow>
     unmarshal (concat (map wireField fs)) = reportOf fs)"

definition report_ok :: "ExecutionReport \<Rightarrow> bool" where
  "report_ok r \<longleftrightarrow> 0 \<le> er_OrderId r \<and> er_OrderId r < 2 ^ 64 \<and> 0 \<le> er_FilledQty r \<and> er_FilledQty r < 2 ^ 64 \<and> in64 (er_FilledPrice r) \<and>
     0 \<le> er_EngineSeqId r \<and> er_EngineSeqId r < 2 ^ 64 \<and> 0 \<le> er_ProcessingNs r \<and> er_ProcessingNs r < 2 ^ 64 \<and>
     0 \<le> er_MatchedWith r \<and> er_MatchedWith r < 2 ^ 64"

lemma reportOf_reportFields: "report_ok r \<Longrightarrow> reportOf (reportFields r) = Some r"
  using uint_word_small sint_word_small
  by (cases "er_Status r") (auto simp: reportOf_def reportFields_def report_ok_def get_or_def Let_def statusNumber_def)

lemma unmarshal_encodeReport:
  assumes "proto3_report unmarshal" "report_ok r"
  shows "unmarshal (encodeReport r) = Some r"
proof -
  have "distinct (map fst (reportFields r)) \<and> (\<forall>f \<in> set (reportFields r). 1 \<le> fst f \<and> fst f \<le> 7)"
    by (simp add: reportFields_def)
  then show ?thesis
    using assms(1) reportOf_reportFields [OF assms(2)] unfolding encodeReport_fields proto3_report_def by fastforce
qed

section \<open>Frames\<close>

definition PutUint32 :: "32 word \<Rightarrow> byte list" where
  \<comment> \<open>little endian\<close>
  "PutUint32 n = [ucast n, ucast (drop_bit 8 n), ucast (drop_bit 16 n), ucast (drop_bit 24 n)]"

definition Uint32 :: "byte list \<Rightarrow> 32 word" where
  "Uint32 bs = ucast (bs ! 0) OR push_bit 8 (ucast (bs ! 1)) OR push_bit 16 (ucast (bs ! 2)) OR push_bit 24 (ucast (bs ! 3))"

definition lengthFrame :: "byte list \<Rightarrow> byte list" where
  "lengthFrame payload = PutUint32 (of_nat (length payload)) @ payload"

definition readFrame :: "byte list \<Rightarrow> (byte list \<times> byte list) option" where
  \<comment> \<open>\<^verbatim>\<open>binary.Read\<close> of the length and \<^verbatim>\<open>io.ReadFull\<close> of the payload, \<open>None\<close> when the connection ends before\<close>
  "readFrame inp =
     (if length inp < 4 then None
      else let n = unat (Uint32 (take 4 inp)); rest = drop 4 inp in
        if length rest < n then None else Some (take n rest, drop n rest))"

lemma readFrame_shorter: "readFrame inp = Some (p, rest) \<Longrightarrow> length rest < length inp"
  by (auto simp: readFrame_def Let_def split: if_splits)

lemma Uint32_PutUint32: "Uint32 (PutUint32 n) = n"
proof (rule bit_word_eqI)
  fix k :: nat
  assume "k < LENGTH(32)"
  then consider "k < 8" | "8 \<le> k" "k < 16" | "16 \<le> k" "k < 24" | "24 \<le> k" "k < 32" by force
  then show "bit (Uint32 (PutUint32 n)) k = bit n k"
    by cases (auto simp: Uint32_def PutUint32_def bit_simps)
qed

lemma readFrame_frame:
  assumes "length p < 2 ^ 32" shows "readFrame (lengthFrame p @ rest) = Some (p, rest)"
proof -
  have "take 4 (lengthFrame p @ rest) = PutUint32 (of_nat (length p))" "drop 4 (lengthFrame p @ rest) = p @ rest"
    by (simp_all add: lengthFrame_def PutUint32_def)
  moreover have "unat (of_nat (length p) :: 32 word) = length p" using assms by (simp add: unat_of_nat)
  moreover have "\<not> length (lengthFrame p @ rest) < 4" by (simp add: lengthFrame_def PutUint32_def)
  ultimately show ?thesis unfolding readFrame_def Let_def by (simp add: Uint32_PutUint32)
qed


section \<open>The two ends of a connection\<close>

definition TCP_SendOrder :: "(POrder \<Rightarrow> byte list option) \<Rightarrow> bool \<Rightarrow> bool \<Rightarrow> POrder \<Rightarrow> bool \<times> byte list" where
  \<comment> \<open>whether it succeeded and the bytes written; the writes of the prefix and of the payload may fail\<close>
  "TCP_SendOrder marshal write1 write2 order =
     (case marshal order of None \<Rightarrow> (False, [])
      | Some payload \<Rightarrow>
          let lengthPrefix = PutUint32 (of_nat (length payload)) in
          if write1 then (write2, lengthPrefix @ (if write2 then payload else [])) else (False, []))"

function TCP_receive :: "(nat \<Rightarrow> int) \<Rightarrow> (byte list \<Rightarrow> ExecutionReport option) \<Rightarrow> int \<Rightarrow> byte list \<Rightarrow> PretestEvent list" where
  \<comment> \<open>the receiver until the connection ends; a payload that does not decode is skipped\<close>
  "TCP_receive clock unmarshal bid inp =
     (case readFrame inp of None \<Rightarrow> []
      | Some (payload, rest) \<Rightarrow>
          (case unmarshal payload of None \<Rightarrow> []
           | Some report \<Rightarrow>
               [\<lparr>ev_Report = Some report, ev_IsOwn = (wrap64 (er_OrderId report div 2 ^ 32) = bid),
                 ev_ReceivedAt = clock (length inp), ev_IsFailure = False\<rparr>]) @
          TCP_receive clock unmarshal bid rest)"
  by pat_completeness auto

termination TCP_receive
  by (relation "measure (\<lambda>(clock, unmarshal, bid, inp). length inp)") (auto dest: readFrame_shorter)

declare TCP_receive.simps [simp del]

definition writeReport :: "report \<Rightarrow> nat \<times> byte list" where
  "writeReport rep = (case rep of (conn, cid, r) \<Rightarrow> (conn, lengthFrame (encodeReport r)))"

definition optHandleOrder :: "(int \<Rightarrow> int) \<Rightarrow> EOrder \<Rightarrow> OrderBook \<Rightarrow> (nat \<times> byte list) list \<times> OrderBook" where
  "optHandleOrder ns ord ob = (case handleOrder ns ord ob of (reps, ob') \<Rightarrow> (map writeReport reps, ob'))"

function optHandleConnection :: "(int \<Rightarrow> int) \<Rightarrow> nat \<Rightarrow> byte list \<Rightarrow> OrderBook \<Rightarrow> (nat \<times> byte list) list \<times> OrderBook" where
  \<comment> \<open>one connection on its own; the lock of the book makes each order one step\<close>
  "optHandleConnection ns conn inp ob =
     (case readFrame inp of None \<Rightarrow> ([], ob)
      | Some (payload, rest) \<Rightarrow>
          (case decodeOrder payload of None \<Rightarrow> optHandleConnection ns conn rest ob
           | Some ord \<Rightarrow>
               let (out, ob1) = optHandleOrder ns (ord\<lparr>eo_Conn := conn\<rparr>) ob;
                   (out', ob2) = optHandleConnection ns conn rest ob1 in
               (out @ out', ob2)))"
  by pat_completeness auto

termination optHandleConnection
  by (relation "measure (\<lambda>(ns, conn, inp, ob). length inp)") (auto dest: readFrame_shorter)

declare optHandleConnection.simps [simp del]

text \<open>Frames of encoded reports are received one by one.\<close>

lemma encodeVarint_length: "unat v < 2 ^ (7 * Suc k) \<Longrightarrow> length (encodeVarint v) \<le> Suc k"
proof (induction k arbitrary: v)
  case 0
  have "unat (drop_bit 7 v) = unat v div 2 ^ 7" unfolding unat_drop_bit_eq by (rule drop_bit_eq_div)
  then have "unat (drop_bit 7 v) = 0" using 0 by simp
  then have "drop_bit 7 v = 0" by (simp add: unat_eq_zero)
  then show ?case by (subst encodeVarint.simps) (simp add: Let_def)
next
  case (Suc k)
  have "unat (drop_bit 7 v) = unat v div 2 ^ 7" unfolding unat_drop_bit_eq by (rule drop_bit_eq_div)
  then have "unat (drop_bit 7 v) < 2 ^ (7 * Suc k)" using Suc.prems by (simp add: less_mult_imp_div_less mult.commute power_add)
  from Suc.IH [OF this] show ?case by (subst encodeVarint.simps) (simp add: Let_def)
qed

lemma encodeVarint_le_10: "length (encodeVarint v) \<le> 10"
proof -
  have "unat v < 2 ^ 64" using unsigned_less [of v] by simp
  then have "unat v < 2 ^ (7 * Suc 9)" by simp
  from encodeVarint_length [OF this] show ?thesis by simp
qed

lemma wireFields_short: "length (concat (map wireField fs)) \<le> 11 * length fs"
proof (induction fs)
  case (Cons f fs)
  then show ?case using encodeVarint_le_10 [of "snd f"] by (simp add: wireField_def)
qed simp

lemma encodeReport_short: "length (encodeReport r) < 2 ^ 32"
  using wireFields_short [of "reportFields r"] by (simp add: encodeReport_fields reportFields_def)

lemma TCP_receive_reports:
  assumes "proto3_report unmarshal" "\<forall>r \<in> set rs. report_ok r"
  shows "map ev_Report (TCP_receive clock unmarshal bid (concat (map (\<lambda>r. lengthFrame (encodeReport r)) rs))) = map Some rs"
  using assms(2)
proof (induction rs)
  case Nil
  then show ?case by (subst TCP_receive.simps) (simp add: readFrame_def)
next
  case (Cons r rs)
  note f = readFrame_frame [OF encodeReport_short, of r "concat (map (\<lambda>r. lengthFrame (encodeReport r)) rs)"]
  then show ?case using Cons unmarshal_encodeReport [OF assms(1), of r] by (subst TCP_receive.simps) simp
qed

section \<open>Properties\<close>



text \<open>A library to evaluate with: the fields in the order of their numbers.\<close>

definition marshal0 :: "POrder \<Rightarrow> byte list" where
  "marshal0 ord = concat (map wireField (filter (\<lambda>f. snd f \<noteq> 0) (map (\<lambda>n. (n, fieldsOf ord n)) [1..<7])))"

function parseWire :: "byte list \<Rightarrow> (nat \<times> 64 word) list" where
  "parseWire [] = []"
| "parseWire (key # data) = (case decodeVarint data 0 0 of (val, rest) \<Rightarrow> (unat (drop_bit 3 key), val) # parseWire rest)"
  by pat_completeness auto

termination parseWire
  using decodeVarint_shorter
  by (relation "measure length") (auto simp: less_Suc_eq_le, metis snd_conv)

definition unmarshal0 :: "byte list \<Rightarrow> ExecutionReport option" where
  "unmarshal0 data = reportOf (parseWire data)"

lemma marshal0_ok: "proto3_order marshal0"
proof -
  have "n \<in> {1..<7}" if "fieldsOf ord n \<noteq> 0" for ord n using that by (auto simp: fieldsOf_def split: if_splits)
  then have "\<exists>fs. marshal0 ord = concat (map wireField fs) \<and> distinct (map fst fs) \<and> (\<forall>n v. (n, v) \<in> set fs \<longleftrightarrow> v \<noteq> 0 \<and> v = fieldsOf ord n)" for ord
    unfolding marshal0_def
    by (intro exI [of _ "filter (\<lambda>f. snd f \<noteq> 0) (map (\<lambda>n. (n, fieldsOf ord n)) [1..<7])"])
      (auto simp: o_def intro: distinct_map_filter)
  then show ?thesis by (simp add: proto3_order_def)
qed

lemma parseWire_fields: "\<forall>f \<in> set fs. fst f < 16 \<Longrightarrow> parseWire (concat (map wireField fs)) = fs"
proof (induction fs)
  case (Cons f fs)
  have k: "unat (drop_bit 3 (of_nat (fst f * 8) :: byte)) = fst f" using key_byte(2) [of "fst f"] Cons.prems by simp
  have "decodeVarint (encodeVarint (snd f) @ concat (map wireField fs)) 0 0 = (snd f, concat (map wireField fs))"
    using decode_encode [of "snd f" _ 0 0] by simp
  moreover have "concat (map wireField (f # fs)) = of_nat (fst f * 8) # encodeVarint (snd f) @ concat (map wireField fs)"
    by (simp add: wireField_def)
  ultimately show ?case using Cons k by (simp del: of_nat_mult)
qed simp

lemma unmarshal0_ok: "proto3_report unmarshal0"
  unfolding proto3_report_def unmarshal0_def
proof (intro allI impI, elim conjE)
  fix fs :: "(nat \<times> 64 word) list"
  assume "\<forall>f \<in> set fs. 1 \<le> fst f \<and> fst f \<le> 7"
  then have "\<forall>f \<in> set fs. fst f < 16" by fastforce
  then show "reportOf (parseWire (concat (map wireField fs))) = reportOf fs" by (simp only: parseWire_fields)
qed


end
