(* ===== verification/Verdict.thy ===== *)
theory Verdict
  imports Scoring
begin

text \<open>
  \<^verbatim>\<open>services/testing/verdict.go\<close>: the verdict, the composite score and the diagnostics of a pretest or a
  system test. \<^verbatim>\<open>math.Log\<close> is not correctly rounded, so it is an argument \<open>Log\<close> with the laws \<open>log_ok\<close>;
  the average of the best runs that the database returns is an optional argument (\<open>None\<close>: no database or
  a failed query). Texts with numbers in them are constructors that carry the numbers.
\<close>

section \<open>Data\<close>

record StrategyMetrics =
  sm_OrdersSent :: int
  sm_OrdersFailed :: int
  sm_AvgLatencyUs :: int
  sm_TotalLatency :: int
  sm_AckCount :: int

record PretestResults =
  res_Protocol :: string
  res_Correctness :: rat
  res_P50Us :: int
  res_P90Us :: int
  res_P99Us :: int
  res_EngineP99Us :: int
  res_OrdersSent :: int
  res_OrdersFailed :: int
  res_TpsStart :: rat
  res_TpsEnd :: rat
  res_MaxSustainedTPS :: rat
  res_IsSystest :: bool
  res_PhantomFills :: int
  res_PriorityViolations :: int
  res_StrategyBreakdown :: "(string \<times> StrategyMetrics) list option"

datatype verdict = Accepted | Logic_Violation | Correctness_Error | Tail_Latency_Exceeded | Throughput_Degradation

datatype reason =
    Optimal_Execution
  | Failure_Rate_Exceeded rat \<comment> \<open>the rate in percent\<close>
  | Failure_Count_Exceeded int
  | Order_Book_Mismatch
  | P99_Above rat
  | Severe_Contention

datatype warning =
    Low_Correctness | Partial_Correctness
  | Severe_Latency rat \<comment> \<open>milliseconds\<close>
  | Partial_Latency
  | Severe_Throughput reason
  | Severe_Degradation | Partial_Throughput

datatype archetype = Latency_Optimized | Accuracy_Optimized | Low_Throughput | Balanced | Unclassified

record Diagnostics =
  d_results :: PretestResults \<comment> \<open>the entries copied from the results, averages of the strategies included\<close>
  d_failure_rate_pct :: rat
  d_tps_degradation_pct :: rat
  d_reason :: reason
  d_warnings :: "warning list"
  d_throughput_score :: rat
  d_latency_score :: rat
  d_archetype :: archetype

section \<open>Operations\<close>

definition failRate :: "PretestResults \<Rightarrow> rat" where
  "failRate res = (if res_OrdersSent res > 0 then fdiv (float64 (res_OrdersFailed res)) (float64 (res_OrdersSent res)) else 0)"

definition degradation :: "PretestResults \<Rightarrow> rat" where
  "degradation res =
     (if res_TpsStart res > 0
      then let d = fdiv (fsub (res_TpsStart res) (res_TpsEnd res)) (res_TpsStart res) in if d < 0 then 0 else d
      else 0)"

definition protocolTargets :: "string \<Rightarrow> rat \<times> rat" where
  \<comment> \<open>target and ceiling in microseconds\<close>
  "protocolTargets protocol =
     (let p = ToUpper protocol in
      if p = ''FIX'' \<or> p = ''TCP'' \<or> p = ''TCP_PROTOBUF'' then (50000, 500000)
      else if p = ''WS'' \<or> p = ''WEBSOCKET'' then (100000, 1000000)
      else if p = ''REST'' \<or> p = ''HTTP'' then (150000, 1500000)
      else (50000, 500000))"

definition latencyTargets :: "rat option \<Rightarrow> string \<Rightarrow> rat \<times> rat" where
  "latencyTargets avgTop10 protocol =
     (let (target, ceil) =
        (case avgTop10 of
           Some a \<Rightarrow> if a > 0 then (a, fmul a 10) else protocolTargets protocol
         | None \<Rightarrow> protocolTargets protocol);
          target = max target 100;
          ceil = max ceil 1000 in
      (target, if ceil < fmul target 10 then fmul target 10 else ceil))"

definition thresholdExceeded :: "PretestResults \<Rightarrow> reason option" where
  "thresholdExceeded res =
     (if res_IsSystest res
      then if failRate res > fl (1 / 1000) then Some (Failure_Rate_Exceeded (fmul (failRate res) 100)) else None
      else if res_OrdersFailed res > 5 then Some (Failure_Count_Exceeded (res_OrdersFailed res)) else None)"

definition decideVerdict :: "rat \<Rightarrow> PretestResults \<Rightarrow> verdict \<times> reason" where
  "decideVerdict ceil res =
     (if res_Correctness res < 100 then (Logic_Violation, Order_Book_Mismatch)
      else case thresholdExceeded res of
        Some r \<Rightarrow> (Correctness_Error, r)
      | None \<Rightarrow>
          if float64 (res_P99Us res) > ceil then (Tail_Latency_Exceeded, P99_Above ceil)
          else if degradation res > fl (30 / 100) then (Throughput_Degradation, Severe_Contention)
          else (Accepted, Optimal_Execution))"

definition finaliseStrategy :: "StrategyMetrics \<Rightarrow> StrategyMetrics" where
  \<comment> \<open>64-bit division truncates; the divisor is positive\<close>
  "finaliseStrategy sm =
     (if sm_AckCount sm > 0
      then sm\<lparr>sm_AvgLatencyUs := sgn (sm_TotalLatency sm) * (\<bar>sm_TotalLatency sm\<bar> div sm_AckCount sm)\<rparr> else sm)"

definition warningsOf :: "rat \<Rightarrow> PretestResults \<Rightarrow> warning list" where
  "warningsOf ceil res =
     (if res_Correctness res < 50 then [Low_Correctness]
      else if res_Correctness res < 85 then [Partial_Correctness] else []) @
     (if float64 (res_P99Us res) > fmul ceil 10 then [Severe_Latency (fdiv (fmul ceil 10) 1000)]
      else if float64 (res_P99Us res) > ceil then [Partial_Latency] else []) @
     (case thresholdExceeded res of Some r \<Rightarrow> [Severe_Throughput r] | None \<Rightarrow> []) @
     (if degradation res > fl (60 / 100) then [Severe_Degradation]
      else if degradation res > fl (30 / 100) then [Partial_Throughput] else [])"

definition math_E_minus_1 :: rat where
  \<comment> \<open>the constant expression \<^verbatim>\<open>math.E-1.0\<close>, rounded where it meets a float64\<close>
  "math_E_minus_1 = fl (171828182845904523536028747135266249775724709369995957496696763 / 10 ^ 62)"

definition maxFailRate :: "PretestResults \<Rightarrow> rat" where
  "maxFailRate res =
     (if res_IsSystest res then fl (1 / 1000)
      else if res_OrdersSent res > 0 then fdiv 5 (float64 (res_OrdersSent res)) else fl (1 / 1000))"

definition stabilityScore :: "(rat \<Rightarrow> rat) \<Rightarrow> PretestResults \<Rightarrow> rat" where
  "stabilityScore Log res =
     (let s = (if failRate res > 0
               then if maxFailRate res > 0
                    then fmul 100 (fsub 1 (Log (fadd 1 (fmul math_E_minus_1 (fdiv (failRate res) (maxFailRate res))))))
                    else 0
               else 100) in
      if s < 0 then 0 else s)"

definition maxTPSScore :: "PretestResults \<Rightarrow> rat" where
  "maxTPSScore res =
     (let s = fmul (fdiv (res_MaxSustainedTPS res) (if res_IsSystest res then 500000 else 100)) 100;
          s1 = (if s > 100 then 100 else s) in
      if s1 < 0 then 0 else s1)"

definition throughputOf :: "(rat \<Rightarrow> rat) \<Rightarrow> PretestResults \<Rightarrow> rat" where
  "throughputOf Log res = fadd (fmul (1 / 2) (stabilityScore Log res)) (fmul (1 / 2) (maxTPSScore res))"

definition classifyArchetype :: "rat \<Rightarrow> rat \<Rightarrow> rat \<Rightarrow> archetype" where
  "classifyArchetype correctness latencyScore throughputScore =
     (if latencyScore \<ge> 70 \<and> correctness < 85 then Latency_Optimized
      else if correctness \<ge> 95 \<and> latencyScore < 30 then Accuracy_Optimized
      else if throughputScore < 70 then Low_Throughput
      else if correctness \<ge> 80 \<and> latencyScore \<ge> 30 \<and> throughputScore \<ge> 80 then Balanced
      else Unclassified)"

definition EvaluateVerdict :: "(rat \<Rightarrow> rat) \<Rightarrow> rat option \<Rightarrow> PretestResults \<Rightarrow> verdict \<times> rat \<times> Diagnostics" where
  "EvaluateVerdict Log avgTop10 res =
     (let (target, ceil) = latencyTargets avgTop10 (res_Protocol res);
          (v, why) = decideVerdict ceil res;
          res' = res\<lparr>res_StrategyBreakdown := map_option (map (map_prod id finaliseStrategy)) (res_StrategyBreakdown res)\<rparr>;
          throughput = throughputOf Log res;
          latency = DynamicLatencyScore (float64 (res_P50Us res)) (float64 (res_P90Us res)) (float64 (res_P99Us res)) target ceil;
          composite = CompositeScore (res_Correctness res) latency throughput in
      (v, composite,
       \<lparr>d_results = res', d_failure_rate_pct = fmul (failRate res) 100, d_tps_degradation_pct = fmul (degradation res) 100,
        d_reason = why, d_warnings = warningsOf ceil res,
        d_throughput_score = fdiv (math_Round (fmul throughput 100)) 100,
        d_latency_score = fdiv (math_Round (fmul latency 100)) 100,
        d_archetype = classifyArchetype (res_Correctness res) latency throughput\<rparr>))"

section \<open>Latency targets\<close>

lemma latencyTargets_floors:
  "latencyTargets a p = (t, c) \<Longrightarrow> 100 \<le> t \<and> 1000 \<le> c \<and> fmul t 10 \<le> c"
  by (auto simp: latencyTargets_def Let_def split: prod.splits if_splits)

text \<open>Without an average of the best runs the protocol decides alone.\<close>

lemma protocolTargets_fixed:
  "latencyTargets None p = protocolTargets p"
  unfolding latencyTargets_def protocolTargets_def Let_def by (simp add: fmul_def)

section \<open>Bounds of the scores\<close>

definition log_ok :: "(rat \<Rightarrow> rat) \<Rightarrow> bool" where
  \<comment> \<open>what is used of \<^verbatim>\<open>math.Log\<close>: not negative from 1 on, and monotone there\<close>
  "log_ok Log \<longleftrightarrow> (\<forall>x y. 1 \<le> x \<longrightarrow> x \<le> y \<longrightarrow> 0 \<le> Log x \<and> Log x \<le> Log y)"

lemma failRate_nonneg: "0 \<le> res_OrdersFailed res \<Longrightarrow> 0 \<le> failRate res"
  by (simp add: failRate_def fdiv_def float64_def fl64.rnd_nonneg)

lemma failRate_mono:
  assumes "res_OrdersSent res = res_OrdersSent res'" "res_OrdersFailed res \<le> res_OrdersFailed res'"
  shows "failRate res \<le> failRate res'"
  using assms
  by (auto simp: failRate_def fdiv_def float64_def intro!: fl_mono divide_right_mono fl64.rnd_nonneg)

lemma maxFailRate_pos: "0 \<le> maxFailRate res"
  by (auto simp: maxFailRate_def fdiv_def float64_def intro!: fl64.rnd_nonneg divide_nonneg_nonneg)

lemma E1_nonneg: "0 \<le> math_E_minus_1"
  by (simp add: math_E_minus_1_def fl64.rnd_nonneg)

lemma log_argument:
  assumes "0 \<le> r" "r \<le> r'" "0 \<le> m"
  shows "1 \<le> fadd 1 (fmul math_E_minus_1 (fdiv r m))"
    and "fadd 1 (fmul math_E_minus_1 (fdiv r m)) \<le> fadd 1 (fmul math_E_minus_1 (fdiv r' m))"
proof -
  have "0 \<le> fl (math_E_minus_1 * fl (r / m))"
    using assms E1_nonneg by (intro fl64.rnd_nonneg mult_nonneg_nonneg divide_nonneg_nonneg)
  then have "of_int 1 \<le> fl (1 + fl (math_E_minus_1 * fl (r / m)))" by (intro fl64.rnd_ge_int) auto
  then show "1 \<le> fadd 1 (fmul math_E_minus_1 (fdiv r m))" by (simp add: float_defs)
  show "fadd 1 (fmul math_E_minus_1 (fdiv r m)) \<le> fadd 1 (fmul math_E_minus_1 (fdiv r' m))"
    unfolding float_defs using assms E1_nonneg by (intro fl_mono add_left_mono mult_left_mono divide_right_mono)
qed


definition decayed :: "(rat \<Rightarrow> rat) \<Rightarrow> rat \<Rightarrow> rat \<Rightarrow> rat" where
  \<comment> \<open>the logarithmic decay without its guards\<close>
  "decayed Log m r = fmul 100 (fsub 1 (Log (fadd 1 (fmul math_E_minus_1 (fdiv r m)))))"

lemma decayed_antimono:
  assumes "log_ok Log" "0 \<le> r" "r \<le> r'" "0 \<le> m"
  shows "decayed Log m r' \<le> decayed Log m r" and "decayed Log m r \<le> 100"
proof -
  note a = log_argument [OF assms(2-4)]
  have L: "0 \<le> Log (fadd 1 (fmul math_E_minus_1 (fdiv r m)))"
    "Log (fadd 1 (fmul math_E_minus_1 (fdiv r m))) \<le> Log (fadd 1 (fmul math_E_minus_1 (fdiv r' m)))"
    using assms(1) a by (auto simp: log_ok_def)
  from L(2) show "decayed Log m r' \<le> decayed Log m r"
    unfolding decayed_def fmul_def fsub_def by (intro fl_mono mult_left_mono diff_left_mono) (simp_all add: fmul_def)
  have "fl (1 - Log (fadd 1 (fmul math_E_minus_1 (fdiv r m)))) \<le> of_int 1"
    using L(1) by (intro fl64.rnd_le_int) auto
  then show "decayed Log m r \<le> 100"
    unfolding decayed_def fmul_def fsub_def using fl64.rnd_le_int [of _ 100] by simp
qed

lemma stabilityScore_decayed:
  "stabilityScore Log res =
     (if failRate res > 0 then if maxFailRate res > 0 then max 0 (decayed Log (maxFailRate res) (failRate res)) else 0 else 100)"
  by (auto simp: stabilityScore_def decayed_def Let_def)

lemma stabilityScore_range:
  assumes "log_ok Log"
  shows "0 \<le> stabilityScore Log res \<and> stabilityScore Log res \<le> 100"
  using decayed_antimono(2) [OF assms, of "failRate res" "failRate res" "maxFailRate res"]
  by (simp add: stabilityScore_decayed)

lemma stabilityScore_antimono:
  assumes "log_ok Log" "res_OrdersSent res = res_OrdersSent res'" "res_IsSystest res = res_IsSystest res'"
    and "res_OrdersFailed res \<le> res_OrdersFailed res'"
  shows "stabilityScore Log res' \<le> stabilityScore Log res"
proof (cases "failRate res > 0")
  case True
  have m: "maxFailRate res' = maxFailRate res" using assms(2,3) by (simp add: maxFailRate_def)
  have r: "failRate res \<le> failRate res'" using assms(2,4) by (rule failRate_mono)
  show ?thesis
    using True r m decayed_antimono(1) [OF assms(1) _ r maxFailRate_pos [of res]]
    by (auto simp: stabilityScore_decayed le_max_iff_disj)
next
  case False
  then have "stabilityScore Log res = 100" by (simp add: stabilityScore_decayed)
  then show ?thesis using stabilityScore_range [OF assms(1)] by simp
qed

lemma maxTPSScore_range: "0 \<le> maxTPSScore res \<and> maxTPSScore res \<le> 100"
  by (simp add: maxTPSScore_def Let_def)

lemma half_sum_range:
  assumes "0 \<le> a" "a \<le> 100" "0 \<le> b" "b \<le> 100"
  shows "0 \<le> fadd (fmul (1 / 2) a) (fmul (1 / 2) b) \<and> fadd (fmul (1 / 2) a) (fmul (1 / 2) b) \<le> 100"
proof -
  have "0 \<le> fl (1 / 2 * x) \<and> fl (1 / 2 * x) \<le> of_int 50" if "0 \<le> x" "x \<le> 100" for x
  proof
    show "0 \<le> fl (1 / 2 * x)" using that by (intro fl64.rnd_nonneg) simp
    show "fl (1 / 2 * x) \<le> of_int 50" using that by (intro fl64.rnd_le_int) simp_all
  qed
  from this [of a] this [of b] assms have "0 \<le> fl (1 / 2 * a) + fl (1 / 2 * b)" "fl (1 / 2 * a) + fl (1 / 2 * b) \<le> of_int 100"
    by auto
  then have "0 \<le> fl (fl (1 / 2 * a) + fl (1 / 2 * b))" "fl (fl (1 / 2 * a) + fl (1 / 2 * b)) \<le> of_int 100"
    by (auto intro!: fl64.rnd_nonneg fl64.rnd_le_int simp del: of_int_numeral)
  then show ?thesis by (simp add: fadd_def fmul_def)
qed

lemma throughputOf_range:
  "log_ok Log \<Longrightarrow> 0 \<le> throughputOf Log res \<and> throughputOf Log res \<le> 100"
  unfolding throughputOf_def using stabilityScore_range maxTPSScore_range by (intro half_sum_range) auto

lemma EvaluateVerdict_parts:
  assumes "latencyTargets avg (res_Protocol res) = (target, c)"
  shows "fst (EvaluateVerdict Log avg res) = fst (decideVerdict c res)"
    and "fst (snd (EvaluateVerdict Log avg res)) = CompositeScore (res_Correctness res)
       (DynamicLatencyScore (float64 (res_P50Us res)) (float64 (res_P90Us res)) (float64 (res_P99Us res)) target c)
       (throughputOf Log res)"
    and "d_reason (snd (snd (EvaluateVerdict Log avg res))) = snd (decideVerdict c res)"
    and "d_warnings (snd (snd (EvaluateVerdict Log avg res))) = warningsOf c res"
  using assms by (simp_all add: EvaluateVerdict_def Let_def split: prod.splits)

section \<open>Properties\<close>


definition res0 :: PretestResults where
  "res0 = \<lparr>res_Protocol = ''fix'', res_Correctness = 100, res_P50Us = 800, res_P90Us = 20000, res_P99Us = 60000,
     res_EngineP99Us = 40, res_OrdersSent = 1000, res_OrdersFailed = 3, res_TpsStart = 200, res_TpsEnd = 190,
     res_MaxSustainedTPS = 80, res_IsSystest = False, res_PhantomFills = 0, res_PriorityViolations = 0,
     res_StrategyBreakdown = None\<rparr>"

definition Log0 :: "rat \<Rightarrow> rat" where
  \<comment> \<open>a lower bound of the logarithm, monotone from 1 on\<close>
  "Log0 x = 1 - 1 / x"

lemma Log0_ok: "log_ok Log0"
  by (auto simp: log_ok_def Log0_def frac_le)

lemma res0_targets: "latencyTargets None (res_Protocol res0) = (50000, 500000)"
  by code_simp


text \<open>The composite score of a verdict is within 0 and 100 for every correctness within 0 and 100, and more
  failed orders or higher latencies with all else equal never raise it.\<close>

lemma verdict_score_bounded_and_antimonotone:
  assumes "log_ok Log" "0 \<le> res_Correctness res" "res_Correctness res \<le> 100"
    and "res' = res\<lparr>res_OrdersFailed := f, res_P50Us := p50, res_P90Us := p90, res_P99Us := p99\<rparr>"
    and "res_OrdersFailed res \<le> f" "res_P50Us res \<le> p50" "res_P90Us res \<le> p90" "res_P99Us res \<le> p99"
  shows "0 \<le> fst (snd (EvaluateVerdict Log avg res')) \<and>
     fst (snd (EvaluateVerdict Log avg res')) \<le> fst (snd (EvaluateVerdict Log avg res)) \<and>
     fst (snd (EvaluateVerdict Log avg res)) \<le> 100"
proof -
  obtain t c where tc: "latencyTargets avg (res_Protocol res) = (t, c)" by (cases "latencyTargets avg (res_Protocol res)")
  then have tc': "latencyTargets avg (res_Protocol res') = (t, c)" using assms(4) by simp
  let ?lat = "\<lambda>r. DynamicLatencyScore (float64 (res_P50Us r)) (float64 (res_P90Us r)) (float64 (res_P99Us r)) t c"
  have "float64 m \<le> float64 n" if "m \<le> n" for m n using that by (simp add: float64_def fl_mono)
  then have "?lat res' \<le> ?lat res" using assms(4-8)
    unfolding DynamicLatencyScore_weighted by (intro weightedLatency_mono dynamicLatencyBucket_antimono) auto
  moreover have "throughputOf Log res' \<le> throughputOf Log res"
    unfolding throughputOf_def fadd_def fmul_def
    using stabilityScore_antimono [OF assms(1), of res res'] assms(4,5)
    by (intro fl_mono add_mono mult_left_mono) (simp_all add: maxTPSScore_def)
  moreover have same: "res_Correctness res' = res_Correctness res" using assms(4) by simp
  ultimately have "CompositeScore (res_Correctness res') (?lat res') (throughputOf Log res') \<le>
      CompositeScore (res_Correctness res) (?lat res) (throughputOf Log res)"
    by (intro CompositeScore_mono) simp_all
  moreover have "0 \<le> CompositeScore (res_Correctness r) (?lat r) (throughputOf Log r) \<and>
      CompositeScore (res_Correctness r) (?lat r) (throughputOf Log r) \<le> 100"
    if "res_Correctness r = res_Correctness res" for r
    using that assms(2,3) DynamicLatencyScore_range throughputOf_range [OF assms(1)] by (intro CompositeScore_range) auto
  ultimately show ?thesis
    using same by (simp add: EvaluateVerdict_parts(2) [OF tc] EvaluateVerdict_parts(2) [OF tc'])
qed

lemma verdict_score_bounded_and_antimonotone_witness:
  "fst (snd (EvaluateVerdict Log0 None (res0\<lparr>res_OrdersFailed := 4, res_P50Us := 900, res_P90Us := 20000, res_P99Us := 70000\<rparr>)))
     \<le> fst (snd (EvaluateVerdict Log0 None res0))"
proof -
  have "0 \<le> fst (snd (EvaluateVerdict Log0 None (res0\<lparr>res_OrdersFailed := 4, res_P50Us := 900, res_P90Us := 20000, res_P99Us := 70000\<rparr>))) \<and>
      fst (snd (EvaluateVerdict Log0 None (res0\<lparr>res_OrdersFailed := 4, res_P50Us := 900, res_P90Us := 20000, res_P99Us := 70000\<rparr>)))
        \<le> fst (snd (EvaluateVerdict Log0 None res0)) \<and> fst (snd (EvaluateVerdict Log0 None res0)) \<le> 100"
    by (rule verdict_score_bounded_and_antimonotone [OF Log0_ok _ _ refl]) (simp_all add: res0_def)
  then show ?thesis by simp
qed

end
