(* ===== verification/Pretest_Run.thy ===== *)
theory Pretest_Run
  imports Shadow_Perfect Fix_Adapter Verdict Jitter
begin

text \<open>
  \<^verbatim>\<open>services/testing/runner.go\<close>: the consumer of \<^verbatim>\<open>RunFleet\<close> that puts the reports back into the order of the engine,
  the metrics, the one-second windows and the results of a run. A
  histogram is the list of the values handed to it and \<open>quantile\<close> reads it. The select of the consumer is
  the function \<open>onEvent\<close> for an event and \<open>onClose\<close> for the closed channel; a cancelled context just
  ends the sequence of events.
\<close>

section \<open>Metrics\<close>

record TimeWindow =
  Successes :: int
  Failures :: int

record 't Core =
  co_validator :: "'t Validator"
  co_accepted :: "(int \<times> bool) list"
  co_rttHist :: "int list"
  co_engineHist :: "int list"
  co_breakdown :: "(string \<times> StrategyMetrics) list"
  co_bins :: "(int \<times> TimeWindow) list"

definition statusName :: "PStatus \<Rightarrow> string" where
  \<comment> \<open>\<^verbatim>\<open>Status.String()\<close>\<close>
  "statusName st =
     (case st of ACCEPTED \<Rightarrow> ''ACCEPTED'' | FILLED \<Rightarrow> ''FILLED'' | PARTIAL \<Rightarrow> ''PARTIAL'' | REJECTED \<Rightarrow> ''REJECTED'' | CANCELLED \<Rightarrow> ''CANCELLED'')"

definition processEvent :: "'t rbt_ops \<Rightarrow> bool \<Rightarrow> ExecutionReport \<Rightarrow> 't Core \<Rightarrow> 't Core" where
  "processEvent T isOwn report c =
     (let status = ToLower (statusName (er_Status report)); orderID = wrap64 (er_OrderId report);
          fill = (\<lambda>c. c\<lparr>co_validator := ProcessFill T orderID (wrap64 (er_FilledQty report)) (er_FilledPrice report) [wrap64 (er_MatchedWith report)] (co_validator c)\<rparr>);
          ack = (\<lambda>st c. c\<lparr>co_validator := ProcessAck T orderID st (co_validator c)\<rparr>);
          accept = (\<lambda>c. ack ''accepted'' (c\<lparr>co_accepted := AList.update orderID True (co_accepted c)\<rparr>)) in
      if isOwn then
        if status = ''accepted'' then accept c
        else if status = ''filled'' \<or> status = ''partial'' then
          fill (if get_or False (co_accepted c) orderID then c else accept c)
        else if status = ''cancelled'' then ack ''cancelled'' c
        else ack status c
      else if status = ''filled'' \<or> status = ''partial'' then fill c
      else c)"

definition recordMetrics :: "'r PretestBot list \<Rightarrow> int \<Rightarrow> ExecutionReport \<Rightarrow> 't Core \<Rightarrow> 't Core" where
  "recordMetrics bots receivedAt report c =
     (let botIDVal = wrap64 (er_OrderId report div 2 ^ 32) in
      if botIDVal \<le> 0 \<or> botIDVal > int (length bots) then c
      else
        let b = bots ! nat (botIDVal - 1);
            seq = er_OrderId report mod 2 ^ 32;
            sendTime = (if seq > 0 \<and> seq < int (length (pb_SendTimes b)) then pb_SendTimes b ! nat seq else 0) in
        if sendTime > 0 \<and> receivedAt > 0 then
          let rttNs = wrap64 (receivedAt - sendTime);
              engineNs = wrap64 (er_ProcessingNs report);
              c1 = c\<lparr>co_rttHist := co_rttHist c @ [rttNs],
                     co_engineHist := (if engineNs > 0 then co_engineHist c @ [engineNs] else co_engineHist c)\<rparr>;
              latencyUs = rttNs sdiv 1000 in
          case map_of (co_breakdown c1) (pb_Strategy b) of
            None \<Rightarrow> c1
          | Some sm \<Rightarrow>
              let sm1 = sm\<lparr>sm_TotalLatency := wrap64 (sm_TotalLatency sm + latencyUs), sm_AckCount := wrap64 (sm_AckCount sm + 1)\<rparr>;
                  sm2 = (if er_Status report = REJECTED then sm1\<lparr>sm_OrdersFailed := wrap64 (sm_OrdersFailed sm1 + 1)\<rparr> else sm1) in
              c1\<lparr>co_breakdown := AList.update (pb_Strategy b) sm2 (co_breakdown c1)\<rparr>
        else c)"

definition binIndex :: "int \<Rightarrow> int \<Rightarrow> int" where
  "binIndex startTime tNs = (let idx = wrap64 (tNs - startTime) sdiv 1000000000 in if idx < 0 then 0 else idx)"

definition getOrCreateBin :: "int \<Rightarrow> int \<Rightarrow> 't Core \<Rightarrow> TimeWindow" where
  "getOrCreateBin startTime tNs c = get_or \<lparr>Successes = 0, Failures = 0\<rparr> (co_bins c) (binIndex startTime tNs)"

definition countSuccess :: "int \<Rightarrow> int \<Rightarrow> 't Core \<Rightarrow> 't Core" where
  "countSuccess startTime tNs c =
     (let w = getOrCreateBin startTime tNs c in
      c\<lparr>co_bins := AList.update (binIndex startTime tNs) (w\<lparr>Successes := wrap64 (Successes w + 1)\<rparr>) (co_bins c)\<rparr>)"

definition countFailure :: "int \<Rightarrow> int \<Rightarrow> 't Core \<Rightarrow> 't Core" where
  "countFailure startTime tNs c =
     (let w = getOrCreateBin startTime tNs c in
      c\<lparr>co_bins := AList.update (binIndex startTime tNs) (w\<lparr>Failures := wrap64 (Failures w + 1)\<rparr>) (co_bins c)\<rparr>)"

section \<open>The consumer\<close>

type_synonym item = "bool \<times> int \<times> ExecutionReport" \<comment> \<open>own, time of receipt, report\<close>

definition deliver :: "'t rbt_ops \<Rightarrow> 'r PretestBot list \<Rightarrow> int \<Rightarrow> item \<Rightarrow> 't Core \<Rightarrow> 't Core" where
  "deliver T bots startTime it c =
     (case it of (isOwn, receivedAt, report) \<Rightarrow>
        let c2 = recordMetrics bots receivedAt report (processEvent T isOwn report c) in
        if ToLower (statusName (er_Status report)) = ''rejected'' then countFailure startTime receivedAt c2
        else countSuccess startTime receivedAt c2)"

type_synonym 't cstate = "'t Core \<times> int \<times> (int \<times> item) list" \<comment> \<open>with \<^verbatim>\<open>nextSeqID\<close> and \<^verbatim>\<open>jitterBuffer\<close>\<close>

lemma length_delete_less: "map_of m k = Some v \<Longrightarrow> length (AList.delete k m) < length m"
proof (induction m)
  case (Cons x m)
  then show ?case using length_filter_le [of "\<lambda>(k', _). k \<noteq> k'" m] by (cases x) (auto simp: AList.delete_eq less_Suc_eq_le split: if_splits)
qed simp

function drain :: "(item \<Rightarrow> 't Core \<Rightarrow> 't Core) \<Rightarrow> 't cstate \<Rightarrow> 't cstate" where
  "drain dlv (c, nextSeqID, jb) =
     (case map_of jb nextSeqID of None \<Rightarrow> (c, nextSeqID, jb)
      | Some it \<Rightarrow> drain dlv (dlv it c, wrap64 (nextSeqID + 1), AList.delete nextSeqID jb))"
  by pat_completeness auto

termination drain
  by (relation "measure (\<lambda>(dlv, c, nextSeqID, jb). length jb)") (auto intro: length_delete_less)

declare drain.simps [simp del]

definition onEvent :: "'t rbt_ops \<Rightarrow> 'r PretestBot list \<Rightarrow> int \<Rightarrow> PretestEvent \<Rightarrow> 't cstate \<Rightarrow> 't cstate" where
  "onEvent T bots startTime ev st =
     (case st of (c, nextSeqID, jb) \<Rightarrow>
        if ev_IsFailure ev then (countFailure startTime (ev_ReceivedAt ev) c, nextSeqID, jb)
        else case ev_Report ev of None \<Rightarrow> st
          | Some report \<Rightarrow>
              drain (deliver T bots startTime)
                (c, nextSeqID, AList.update (wrap64 (er_EngineSeqId report)) (ev_IsOwn ev, ev_ReceivedAt ev, report) jb))"

definition minKeyOf :: "(int \<times> item) list \<Rightarrow> int" where
  \<comment> \<open>the loop that looks for the smallest key, with -1 for none yet\<close>
  "minKeyOf jb = fold (\<lambda>k minKey. if minKey = - 1 \<or> k < minKey then k else minKey) (gokeys jb) (- 1)"

lemma minKeyOf_in: "minKeyOf jb \<noteq> - 1 \<Longrightarrow> map_of jb (minKeyOf jb) \<noteq> None"
proof -
  have "fold (\<lambda>k minKey. if minKey = - 1 \<or> k < minKey then k else minKey) ks m \<in> insert m (set ks)" for ks and m :: int
    by (induction ks arbitrary: m) auto
  then have "minKeyOf jb \<in> insert (- 1) (set (gokeys jb))" by (simp only: minKeyOf_def)
  then show "minKeyOf jb \<noteq> - 1 \<Longrightarrow> map_of jb (minKeyOf jb) \<noteq> None" by (auto simp: map_of_eq_None_iff)
qed

function onClose :: "(item \<Rightarrow> 't Core \<Rightarrow> 't Core) \<Rightarrow> 't cstate \<Rightarrow> 't cstate" where
  "onClose dlv (c, nextSeqID, jb) =
     (if jb = [] then (c, nextSeqID, jb)
      else case map_of jb nextSeqID of
          Some it \<Rightarrow> onClose dlv (dlv it c, wrap64 (nextSeqID + 1), AList.delete nextSeqID jb)
        | None \<Rightarrow>
            let minKey = minKeyOf jb in
            if minKey \<noteq> - 1 \<and> minKey > nextSeqID then onClose dlv (c, minKey, jb) else (c, nextSeqID, jb))"
  by pat_completeness auto

termination onClose
  by (relation "measure (\<lambda>(dlv, c, nextSeqID, jb). 2 * length jb + (if map_of jb nextSeqID = None then 1 else 0))")
    (auto dest: length_delete_less, use minKeyOf_in in fastforce)

declare onClose.simps [simp del]

section \<open>Order of delivery\<close>

lemma minKeyOf_least:
  assumes "\<forall>k \<in> set (gokeys jb). 0 < k" "jb \<noteq> []"
  shows "minKeyOf jb \<in> set (gokeys jb)" and "k \<in> set (gokeys jb) \<Longrightarrow> minKeyOf jb \<le> k"
proof -
  let ?f = "\<lambda>k minKey. if minKey = - 1 \<or> k < minKey then k else minKey"
  have m: "(\<forall>k \<in> set ks. 0 < k) \<Longrightarrow> 0 < m \<Longrightarrow> fold ?f ks m \<in> insert m (set ks) \<and> (\<forall>k \<in> insert m (set ks). fold ?f ks m \<le> k)"
    for ks and m :: int
  proof (induction ks arbitrary: m)
    case (Cons k ks)
    then show ?case using Cons.IH [of k] Cons.IH [of m] by (cases "k < m") fastforce+
  qed simp
  obtain k0 ks where "gokeys jb = k0 # ks" using assms(2) by (cases jb) auto
  then show "minKeyOf jb \<in> set (gokeys jb)" and "k \<in> set (gokeys jb) \<Longrightarrow> minKeyOf jb \<le> k"
    using assms(1) m [of ks k0] by (auto simp: minKeyOf_def)
qed

lemma sorted_from_Cons:
  fixes g :: int
  assumes "finite S" "g \<in> S" "\<forall>k \<in> S. g \<le> k"
  shows "sorted_list_of_set S = g # sorted_list_of_set (S - {g})"
proof -
  have "Min S = g" using assms by (intro Min_eqI) auto
  then show ?thesis using assms sorted_list_of_set_nonempty [of S] by auto
qed

lemma onClose_sorted:
  assumes "buffered item g jb" "0 < g" "\<forall>k \<in> set (gokeys jb). k < 2 ^ 62"
  shows "fst (onClose dlv (c, g, jb)) = fold (\<lambda>k. dlv (item k)) (sorted_list_of_set (set (gokeys jb))) c"
  using assms
proof (induction dlv "(c, g, jb)" arbitrary: c g jb rule: onClose.induct)
  case (1 dlv c g jb)
  show ?case
  proof (cases "jb = []")
    case ne: False
    have keys: "\<forall>k \<in> set (gokeys jb). g \<le> k" using "1.prems"(1) by (auto simp: buffered_def)
    show ?thesis
    proof (cases "map_of jb g")
      case (Some it)
      then have it: "it = item g" and gin: "g \<in> set (gokeys jb)" using buffered_map_of [OF "1.prems"(1)] by auto
      have w: "wrap64 (g + 1) = g + 1" using "1.prems"(2,3) gin by (intro wrap64_id') auto
      have "fst (onClose dlv (dlv it c, g + 1, AList.delete g jb)) =
          fold (\<lambda>k. dlv (item k)) (sorted_list_of_set (set (gokeys (AList.delete g jb)))) (dlv it c)"
        using "1.hyps"(2) [OF ne Some] "1.prems" buffered_delete [OF "1.prems"(1)] by (auto simp: w fst_set_delete)
      then show ?thesis using Some ne it keys gin
        by (simp add: onClose.simps [of dlv c] w sorted_from_Cons [of _ g] fst_set_delete)
    next
      case None
      have pos: "\<forall>k \<in> set (gokeys jb). 0 < k" using keys "1.prems"(2) by force
      note m = minKeyOf_least [OF pos ne]
      have "g \<notin> set (gokeys jb)" using None by (simp add: map_of_eq_None_iff)
      then have lt: "g < minKeyOf jb" using m(1) keys by force
      then have b: "buffered item (minKeyOf jb) jb" using "1.prems"(1) m(2) by (force simp: buffered_def)
      have "0 < minKeyOf jb" using pos m(1) by blast
      then show ?thesis using "1.hyps"(1) [OF ne None refl] lt "1.prems"(2,3) b None ne
        by (simp add: onClose.simps [of dlv c g])
    qed
  qed (simp add: onClose.simps)
qed

lemma drain_gap:
  assumes "buffered item g jb" "0 < g" "\<forall>k \<in> set (gokeys jb). k < 2 ^ 62"
  obtains h jb' where "drain dlv (c, g, jb) = (fold (\<lambda>k. dlv (item k)) [g..h - 1] c, h, jb')" "g \<le> h"
    "buffered item h jb'" "{g..<h} \<subseteq> set (gokeys jb)" "set (gokeys jb') = set (gokeys jb) - {..<h}" "h \<notin> set (gokeys jb)"
proof -
  have "\<exists>h jb'. drain dlv (c, g, jb) = (fold (\<lambda>k. dlv (item k)) [g..h - 1] c, h, jb') \<and> g \<le> h \<and>
    buffered item h jb' \<and> {g..<h} \<subseteq> set (gokeys jb) \<and> set (gokeys jb') = set (gokeys jb) - {..<h} \<and> h \<notin> set (gokeys jb)"
    using assms
  proof (induction dlv "(c, g, jb)" arbitrary: c g jb rule: drain.induct)
    case (1 dlv c g jb)
    have keys: "\<forall>k \<in> set (gokeys jb). g \<le> k" using "1.prems"(1) by (auto simp: buffered_def)
    show ?case
    proof (cases "map_of jb g")
      case None
      then have "g \<notin> set (gokeys jb)" by (simp add: map_of_eq_None_iff)
      then show ?thesis using None keys "1.prems"(1) by (intro exI [of _ g] exI [of _ jb]) (auto simp: drain.simps)
    next
      case (Some it)
      then have it: "it = item g" and gin: "g \<in> set (gokeys jb)" using buffered_map_of [OF "1.prems"(1)] by auto
      have w: "wrap64 (g + 1) = g + 1" using "1.prems"(2,3) gin by (intro wrap64_id') auto
      obtain h jb' where h: "drain dlv (dlv it c, g + 1, AList.delete g jb) = (fold (\<lambda>k. dlv (item k)) [g + 1..h - 1] (dlv it c), h, jb')"
        "g + 1 \<le> h" "buffered item h jb'" "{g + 1..<h} \<subseteq> set (gokeys (AList.delete g jb))"
        "set (gokeys jb') = set (gokeys (AList.delete g jb)) - {..<h}" "h \<notin> set (gokeys (AList.delete g jb))"
        using "1.hyps" [OF Some, unfolded w, OF buffered_delete [OF "1.prems"(1)]] "1.prems"(2,3) by (force simp: fst_set_delete)
      have "[g..h - 1] = g # [g + 1..h - 1]" using h(2) by (simp add: upto_rec1)
      moreover have "{g..<h} = insert g {g + 1..<h}" using h(2) by auto
      ultimately show ?thesis using h it Some gin
        by (intro exI [of _ h] exI [of _ jb']) (auto simp: drain.simps [of dlv c] w fst_set_delete)
    qed
  qed
  then show thesis using that by blast
qed

definition reportEvent :: "(int \<Rightarrow> item) \<Rightarrow> int \<Rightarrow> PretestEvent" where
  "reportEvent item k = (case item k of (mine, rcv, rep) \<Rightarrow> \<lparr>ev_Report = Some rep, ev_IsOwn = mine, ev_ReceivedAt = rcv, ev_IsFailure = False\<rparr>)"

lemma consumer_state:
  fixes T :: "'t rbt_ops" and c0 :: "'t Core"
  assumes "distinct ks" "set ks \<subseteq> {0<..<2 ^ 62}" "\<forall>k \<in> set ks. er_EngineSeqId (snd (snd (item k))) = k"
  shows "\<exists>g jb. fold (onEvent T bots st) (map (reportEvent item) ks) (c0, 1, []) =
      (fold (\<lambda>k. deliver T bots st (item k)) [1..g - 1] c0, g, jb) \<and> 0 < g \<and> buffered item g jb \<and>
      {1..<g} \<subseteq> set ks \<and> set (gokeys jb) = set ks - {..<g} \<and> g \<notin> set ks"
  using assms
proof (induction ks rule: rev_induct)
  case Nil
  show ?case by (intro exI [of _ 1] exI [of _ "[]"]) (simp add: buffered_def)
next
  case (snoc k ks)
  let ?d = "deliver T bots st"
  obtain g jb where IH: "fold (onEvent T bots st) (map (reportEvent item) ks) (c0, 1, []) = (fold (\<lambda>k. ?d (item k)) [1..g - 1] c0, g, jb)"
    and g: "0 < g" "buffered item g jb" "{1..<g} \<subseteq> set ks" "set (gokeys jb) = set ks - {..<g}" "g \<notin> set ks"
    using snoc by auto
  have k: "0 < k" "k < 2 ^ 62" "er_EngineSeqId (snd (snd (item k))) = k" using snoc.prems by auto
  have kg: "g \<le> k"
  proof (rule ccontr)
    assume "\<not> g \<le> k"
    then have "k \<in> {1..<g}" using k(1) by simp
    then show False using g(3) snoc.prems(1) by auto
  qed
  let ?jb = "AList.update k (item k) jb"
  have keys: "set (gokeys ?jb) = set (ks @ [k]) - {..<g}" using g(4) kg by (auto simp: fst_set_update)
  have ev: "onEvent T bots st (reportEvent item k) (c, g, jb) = drain ?d (c, g, ?jb)" for c
    using k wrap64_id' [of k] by (simp add: onEvent_def reportEvent_def case_prod_beta)
  have "\<forall>x \<in> set (gokeys ?jb). x < 2 ^ 62" using snoc.prems(2) unfolding keys by auto
  then obtain h jb' where h: "drain ?d (fold (\<lambda>k. ?d (item k)) [1..g - 1] c0, g, ?jb) =
        (fold (\<lambda>k. ?d (item k)) [g..h - 1] (fold (\<lambda>k. ?d (item k)) [1..g - 1] c0), h, jb')"
    "g \<le> h" "buffered item h jb'" "{g..<h} \<subseteq> set (gokeys ?jb)" "set (gokeys jb') = set (gokeys ?jb) - {..<h}" "h \<notin> set (gokeys ?jb)"
    using drain_gap [OF buffered_update [OF g(2) kg] g(1)] by metis
  have "[1..h - 1] = [1..g - 1] @ [g..h - 1]" using upto_split1 [of 1 g "h - 1"] h(2) g(1) by (cases "g = h") auto
  moreover have "{1..<h} \<subseteq> {1..<g} \<union> {g..<h}" by auto
  ultimately show ?case using h g(1,3) unfolding keys
    by (intro exI [of _ h] exI [of _ jb']) (auto simp: IH ev)
qed

text \<open>the consumer of a system test restores the order of the engine. Reports with distinct engine
  sequence numbers may arrive in any order and with gaps; when the channel is closed each of them has been
  handed to the validator and the metrics exactly once, in ascending order of the sequence numbers.\<close>

lemma consumer_restores_engine_order:
  fixes T :: "'t rbt_ops" and c0 :: "'t Core"
  assumes "distinct ks" "set ks \<subseteq> {0<..<2 ^ 62}" "\<forall>k \<in> set ks. er_EngineSeqId (snd (snd (item k))) = k"
  shows "fst (onClose (deliver T bots st) (fold (onEvent T bots st) (map (reportEvent item) ks) (c0, 1, []))) =
    fold (\<lambda>k. deliver T bots st (item k)) (sort ks) c0"
proof -
  obtain g jb where s: "fold (onEvent T bots st) (map (reportEvent item) ks) (c0, 1, []) =
      (fold (\<lambda>k. deliver T bots st (item k)) [1..g - 1] c0, g, jb)" and g: "0 < g" "buffered item g jb"
      "{1..<g} \<subseteq> set ks" "set (gokeys jb) = set ks - {..<g}"
    using consumer_state [OF assms] by blast
  let ?R = "sorted_list_of_set (set (gokeys jb))"
  have "\<forall>k \<in> set (gokeys jb). k < 2 ^ 62" using assms(2) g(4) by auto
  note c = onClose_sorted [OF g(2,1) this]
  have "sort ks = [1..g - 1] @ ?R"
  proof (rule sorted_distinct_set_unique)
    show "sorted ([1..g - 1] @ ?R)" using g(4) by (auto simp: sorted_append)
    show "distinct ([1..g - 1] @ ?R)" using g(4) by auto
    show "set (sort ks) = set ([1..g - 1] @ ?R)" using g(3,4) assms(2) by (auto simp del: set_map)
  qed (use assms(1) in auto)
  then show ?thesis by (simp add: s c)
qed

definition core0 :: "'t Core" where
  "core0 = \<lparr>co_validator = NewValidator, co_accepted = [], co_rttHist = [], co_engineHist = [], co_breakdown = [], co_bins = []\<rparr>"

lemma consumer_restores_engine_order_witness:
  "fst (onClose (deliver alist_ops ([] :: unit PretestBot list) 0) (fold (onEvent alist_ops ([] :: unit PretestBot list) 0)
      (map (reportEvent (\<lambda>k. (True, 5, \<lparr>er_OrderId = 4294967297, er_Status = ACCEPTED, er_FilledQty = 0, er_FilledPrice = 0,
         er_EngineSeqId = k, er_ProcessingNs = 0, er_MatchedWith = 0\<rparr>))) [7, 2, 1]) (core0, 1, []))) =
    fold (\<lambda>k. deliver alist_ops ([] :: unit PretestBot list) 0 (True, 5, \<lparr>er_OrderId = 4294967297, er_Status = ACCEPTED, er_FilledQty = 0, er_FilledPrice = 0,
         er_EngineSeqId = k, er_ProcessingNs = 0, er_MatchedWith = 0\<rparr>)) [1, 2, 7] core0"
  using consumer_restores_engine_order [of "[7, 2, 1]" "\<lambda>k. (True, 5, \<lparr>er_OrderId = 4294967297, er_Status = ACCEPTED,
    er_FilledQty = 0, er_FilledPrice = 0, er_EngineSeqId = k, er_ProcessingNs = 0, er_MatchedWith = 0\<rparr>)" alist_ops "[] :: unit PretestBot list" 0 core0]
  by simp

section \<open>Results\<close>

definition sampleStep :: "int \<Rightarrow> int \<Rightarrow> int \<Rightarrow> rat list \<Rightarrow> rat list" where
  \<comment> \<open>one tick of the throughput sampler\<close>
  "sampleStep ordersExpected sentNow lastSent samples =
     (let tps = fdiv (float64 (wrap64 (sentNow - lastSent))) (fl (2 / 10)) in
      if sentNow < ordersExpected \<or> samples = [] \<or> last samples > 0 then samples @ [tps] else samples)"

definition tpsOf :: "rat list \<Rightarrow> rat \<times> rat" where
  "tpsOf samples =
     (let n = length samples; quarter = n div 4;
          (tpsStart, tpsEnd) =
            (if n \<ge> 4 then
               (fdiv (foldl fadd 0 (take quarter samples)) (of_nat quarter), fdiv (foldl fadd 0 (take quarter (rev samples))) (of_nat quarter))
             else if n > 0 then (hd samples, last samples) else (0, 0)) in
      if tpsStart = 0 then (100, 100) else (tpsStart, tpsEnd))"

definition usOfNs :: "int \<Rightarrow> int" where
  "usOfNs p = (let us = p sdiv 1000 in if us < 0 then 0 else us)"

definition timeouts :: "int \<Rightarrow> 'r PretestBot list \<Rightarrow> 't Core \<Rightarrow> 't Core" where
  \<comment> \<open>orders that were sent and never accepted are failures of the window they were sent in\<close>
  "timeouts startTime bots c =
     fold (\<lambda>b c. fold (\<lambda>seq c.
         let sendTime = pb_SendTimes b ! nat seq in
         if sendTime > 0 \<and> \<not> get_or False (co_accepted c) (shl32 (pb_NumericID b) OR seq)
         then countFailure startTime sendTime c else c) [1..pb_OrdersToSend b] c) bots c"

definition maxSustainedTPS :: "'t Core \<Rightarrow> rat" where
  "maxSustainedTPS c =
     fold (\<lambda>(idx, w) best. if Failures w = 0 \<and> float64 (Successes w) > best then float64 (Successes w) else best) (co_bins c) 0"

definition fleetResults :: "(int list \<Rightarrow> int \<Rightarrow> int) \<Rightarrow> string \<Rightarrow> bool \<Rightarrow> int \<Rightarrow> 'r PretestBot list \<Rightarrow> rat list \<Rightarrow> int \<Rightarrow> int \<Rightarrow> 't Core \<Rightarrow> PretestResults" where
  \<comment> \<open>the end of \<^verbatim>\<open>RunFleet\<close>\<close>
  "fleetResults quantile protocolStr isSystest startTime bots samples totalSent totalFailed c0 =
     (let (tpsStart, tpsEnd) = tpsOf samples;
          c = timeouts startTime bots c0;
          v = co_validator c in
      \<lparr>res_Protocol = protocolStr, res_Correctness = fst (GetCorrectnessScore v),
       res_P50Us = usOfNs (quantile (co_rttHist c) 50), res_P90Us = usOfNs (quantile (co_rttHist c) 90),
       res_P99Us = usOfNs (quantile (co_rttHist c) 99), res_EngineP99Us = usOfNs (quantile (co_engineHist c) 99),
       res_OrdersSent = totalSent, res_OrdersFailed = totalFailed,
       res_TpsStart = fdiv (math_Round (fmul tpsStart 100)) 100, res_TpsEnd = fdiv (math_Round (fmul tpsEnd 100)) 100,
       res_MaxSustainedTPS = maxSustainedTPS c, res_IsSystest = isSystest,
       res_PhantomFills = GetPhantomFills (snd (GetCorrectnessScore v)),
       res_PriorityViolations = GetPriorityViolations (snd (GetCorrectnessScore v)),
       res_StrategyBreakdown = Some (co_breakdown c)\<rparr>)"

end
