(* ===== verification/Engine_Run.thy ===== *)
theory Engine_Run
  imports Engine_Sim Proto_Wire Pretest_Run
begin

text \<open>
  A run of bots, reference engine, consumer and validator together. The bots submit orders to the validator and
  write them to their connections, the engine reads the connections in any interleaving but each of
  them in order, and the consumer hands the reports to the validator in the order of the engine. A step of
  the system is one of these actions. \<open>sys_inv\<close> is the invariant behind the theorem that the reference
  engine is judged correct.
\<close>

section \<open>The system\<close>

definition typeString :: "POrderType \<Rightarrow> string" where
  \<comment> \<open>\<^verbatim>\<open>order.Type.String()\<close>\<close>
  "typeString t = (case t of LIMIT \<Rightarrow> ''LIMIT'' | MARKET \<Rightarrow> ''MARKET'' | CANCEL \<Rightarrow> ''CANCEL'')"

definition sideString :: "PSide \<Rightarrow> string" where
  \<comment> \<open>\<^verbatim>\<open>order.Side.String()\<close>\<close>
  "sideString sd = (case sd of BUY \<Rightarrow> ''BUY'' | SELL \<Rightarrow> ''SELL'')"

definition submit :: "'t rbt_ops \<Rightarrow> POrder \<Rightarrow> 't Core \<Rightarrow> 't Core" where
  \<comment> \<open>the call of \<^verbatim>\<open>validator.ProcessOrder\<close> in the send loop\<close>
  "submit T po c = c\<lparr>co_validator := ProcessOrder T (wrap64 (po_OrderId po)) (typeString (po_Type po)) (sideString (po_Side po))
     (po_Price po) (wrap64 (po_Quantity po)) (co_validator c)\<rparr>"

definition botOf :: "int \<Rightarrow> int" where
  "botOf i = i div 2 ^ 32"

definition eord :: "POrder \<Rightarrow> EOrder" where
  \<comment> \<open>the order as the engine reads it from the connection of its bot\<close>
  "eord po = (engineOrder po)\<lparr>eo_Conn := nat (botOf (po_OrderId po))\<rparr>"

record 't sys =
  sy_wire :: "POrder list" \<comment> \<open>sent and not read by the engine, in the order of sending\<close>
  sy_book :: OrderBook
  sy_queue :: "report list" \<comment> \<open>written by the engine and not consumed\<close>
  sy_core :: "'t Core"
  sy_sent :: "int list" \<comment> \<open>the identifiers used so far\<close>

definition sys0 :: "'t sys" where
  "sys0 = \<lparr>sy_wire = [], sy_book = \<lparr>buyOrders = [], sellOrders = [], seqID = 0\<rparr>, sy_queue = [], sy_core = core0, sy_sent = []\<rparr>"

inductive sys_step :: "'t rbt_ops \<Rightarrow> (int \<Rightarrow> int) \<Rightarrow> 'r PretestBot list \<Rightarrow> int \<Rightarrow> 't sys \<Rightarrow> 't sys \<Rightarrow> bool"
  for T :: "'t rbt_ops" and ns :: "int \<Rightarrow> int" and bots :: "'r PretestBot list" and startTime :: int where
  send: "po_Type po \<noteq> CANCEL \<Longrightarrow> po_OrderId po \<notin> set (sy_sent S) \<Longrightarrow> id_ok (po_OrderId po) \<Longrightarrow>
    0 \<le> po_Quantity po \<Longrightarrow> po_Quantity po < 2 ^ 63 \<Longrightarrow>
    sys_step T ns bots startTime S (S\<lparr>sy_wire := sy_wire S @ [po], sy_core := submit T po (sy_core S), sy_sent := po_OrderId po # sy_sent S\<rparr>)"
| cancel: "po_Type po = CANCEL \<Longrightarrow> po_OrderId po \<in> set (sy_sent S) \<Longrightarrow>
    sys_step T ns bots startTime S (S\<lparr>sy_wire := sy_wire S @ [po], sy_core := submit T po (sy_core S)\<rparr>)"
| handle: "sy_wire S = W1 @ po # W2 \<Longrightarrow> \<forall>x \<in> set W1. botOf (po_OrderId x) \<noteq> botOf (po_OrderId po) \<Longrightarrow>
    handleOrder ns (eord po) (sy_book S) = (reps, ob') \<Longrightarrow>
    sys_step T ns bots startTime S (S\<lparr>sy_wire := W1 @ W2, sy_book := ob', sy_queue := sy_queue S @ reps\<rparr>)"
| consume: "sy_queue S = (conn, cid, r) # Q \<Longrightarrow>
    sys_step T ns bots startTime S (S\<lparr>sy_queue := Q,
      sy_core := deliver T bots startTime (wrap64 (er_OrderId r div 2 ^ 32) = int conn, receivedAt, r) (sy_core S)\<rparr>)"

inductive_cases sys_stepE: "sys_step T ns bots startTime S S'"

section \<open>What the engine writes\<close>

definition entries :: "OrderBook \<Rightarrow> EOrder set" where
  "entries ob = set (buyOrders ob) \<union> set (sellOrders ob)"

definition of_order :: "EOrder \<Rightarrow> EOrder \<Rightarrow> bool" where
  "of_order x y \<longleftrightarrow> eo_OrderID x = eo_OrderID y \<and> eo_Conn x = eo_Conn y"

definition report_of :: "EOrder \<Rightarrow> report \<Rightarrow> bool" where
  "report_of x rep \<longleftrightarrow> fst rep = eo_Conn x \<and> er_OrderId (snd (snd rep)) = eo_OrderID x"

definition is_fill :: "report \<Rightarrow> bool" where
  "is_fill rep \<longleftrightarrow> er_Status (snd (snd rep)) = FILLED \<or> er_Status (snd (snd rep)) = PARTIAL"

lemma report_of_mkReport [simp]: "report_of x (mkReport ns y st q p sq m) \<longleftrightarrow> of_order y x"
  by (auto simp: report_of_def mkReport_def of_order_def)

lemma is_fill_mkReport [simp]: "is_fill (mkReport ns y (if b then FILLED else PARTIAL) q p sq m)"
  by (simp add: is_fill_def mkReport_def)

lemma of_order_refl [simp]: "of_order x x" "of_order (x\<lparr>eo_Quantity := q\<rparr>) x"
  by (simp_all add: of_order_def)

lemma matchLoop_entries:
  assumes "matchLoop ns buy ord book seq = (ord', book', seq', reps)"
  shows "of_order ord' ord \<and> (\<forall>x \<in> set book'. \<exists>y \<in> set book. of_order x y) \<and>
     (\<forall>rep \<in> set reps. is_fill rep \<and> (\<exists>y \<in> insert ord (set book). report_of y rep))"
  using assms
proof (induction "length book + (if 0 < eo_Quantity ord then 1 else 0)" arbitrary: ord book seq ord' book' seq' reps rule: less_induct)
  case less
  show ?case
  proof (cases "eo_Quantity ord > 0 \<and> bestIdx buy ord book \<noteq> None")
    case False
    then have "matchLoop ns buy ord book seq = (ord, book, seq, [])" by (intro matchLoop_None) auto
    then show ?thesis using less.prems by force
  next
    case True
    then obtain i where i: "bestIdx buy ord book = Some i" "i < length book" using bestIdx_less by blast
    define pre es where "pre = take i book" and "es = drop (Suc i) book"
    define e where "e = book ! i"
    have b: "book = pre @ e # es" "i = length pre" using id_take_nth_drop [OF i(2)] i(2) by (simp_all add: pre_def es_def e_def)
    define q where "q = min (eo_Quantity ord) (eo_Quantity e)"
    define book1 where "book1 = (if q = eo_Quantity e then pre @ es else pre @ e\<lparr>eo_Quantity := eo_Quantity e - q\<rparr> # es)"
    let ?o = "ord\<lparr>eo_Quantity := eo_Quantity ord - q\<rparr>" and ?s = "u64 (u64 (seq + 1) + 1)"
    obtain ord2 book2 seq3 reps2 where m: "matchLoop ns buy ?o book1 ?s = (ord2, book2, seq3, reps2)" by (metis prod_cases4)
    have "length book1 + (if 0 < eo_Quantity ?o then 1 else 0) < length book + (if 0 < eo_Quantity ord then 1 else 0)"
      using True by (auto simp: book1_def q_def b min_def)
    note IH = less.hyps [OF this m]
    have "y \<in> set book \<or> of_order y e" if "y \<in> set book1" for y using that by (auto simp: book1_def b(1) split: if_splits)
    then have sub: "\<forall>y \<in> set book1. \<exists>z \<in> set book. of_order y z" using of_order_refl(1) b(1) by (metis in_set_conv_decomp)
    have tr: "of_order x y \<Longrightarrow> of_order y z \<Longrightarrow> of_order x z" "of_order x y \<Longrightarrow> report_of x rep \<Longrightarrow> report_of y rep" for x y z rep
      by (simp_all add: of_order_def report_of_def)
    have conv: "\<exists>y \<in> insert ord (set book). report_of y rep" if "\<exists>y \<in> insert ?o (set book1). report_of y rep" for rep
      using that sub tr(2) by (metis insert_iff of_order_refl(2))
    have e: "e \<in> set book" by (simp add: b(1))
    have o: "ord' = ord2" "book' = book2" and r: "reps =
        mkReport ns ?o (if eo_Quantity ord - q = 0 then FILLED else PARTIAL) q (eo_Price e) (u64 (seq + 1)) (eo_OrderID e) #
        mkReport ns (e\<lparr>eo_Quantity := eo_Quantity e - q\<rparr>) (if eo_Quantity e - q = 0 then FILLED else PARTIAL) q (eo_Price e) ?s (eo_OrderID ord) # reps2"
      using matchLoop_step [OF i(1) [unfolded b] _ q_def book1_def m] True less.prems b(1) by simp_all
    have "is_fill rep \<and> (\<exists>y \<in> insert ord (set book). report_of y rep)" if "rep \<in> set reps" for rep
    proof (cases "rep \<in> set reps2")
      case True
      then show ?thesis using IH conv by blast
    next
      case False
      then show ?thesis using that e unfolding r by (auto intro!: bexI [of _ e])
    qed
    moreover have "\<forall>x \<in> set book2. \<exists>y \<in> set book. of_order x y" using IH sub tr(1) by meson
    moreover have "of_order ord2 ord" using IH tr(1) of_order_refl(2) by blast
    ultimately show ?thesis unfolding o by blast
  qed
qed

lemma removeByID_set: "removeByID i es = Some es' \<Longrightarrow> set es' \<subseteq> set es"
  by (induction es arbitrary: es') (auto split: if_splits)

lemma insertOrder_set: "set (insertOrder buy e es) = insert e (set es)"
  by (simp add: insertOrder_def Let_def) (metis Un_insert_right set_append takeWhile_dropWhile_id)

lemma handleOrder_entries:
  assumes "handleOrder ns e ob = (reps, ob')"
  shows "(\<forall>x \<in> entries ob'. \<exists>y \<in> insert e (entries ob). of_order x y) \<and> (\<forall>rep \<in> set reps. \<exists>y \<in> insert e (entries ob). report_of y rep) \<and>
    (\<forall>rep \<in> set (tl reps). is_fill rep)"
proof (cases "eo_Type e = OrderType_CANCEL")
  case True
  have s: "entries ob' \<subseteq> entries ob" "tl reps = []" and "set reps = {mkReport ns e CANCELLED 0 0 (u64 (seqID ob + 1)) 0} \<or> set reps = {mkReport ns e REJECTED 0 0 (u64 (seqID ob + 1)) 0}"
    using assms True
    by (auto simp: handleOrder_def cancelOrder_def Let_def entries_def split: option.splits dest!: removeByID_set)
  then have "\<forall>rep \<in> set reps. \<exists>y \<in> insert e (entries ob). report_of y rep" by auto
  moreover have "\<forall>x \<in> entries ob'. \<exists>y \<in> insert e (entries ob). of_order x y" using s of_order_refl(1) by blast
  ultimately show ?thesis using s(2) by simp
next
  case False
  define buy where "buy = (eo_Side e = Side_BUY)"
  obtain e1 opp seq1 fs where m: "matchLoop ns buy e (ebook (\<not> buy) ob) (u64 (seqID ob + 1)) = (e1, opp, seq1, fs)" by (metis prod_cases4)
  have ob': "reps = mkReport ns e ACCEPTED 0 0 (u64 (seqID ob + 1)) 0 # fs" "ebook (\<not> buy) ob' = opp"
    "ebook buy ob' = (if 0 < eo_Quantity e1 \<and> eo_Type e1 = OrderType_LIMIT then insertOrder buy e1 (ebook buy ob) else ebook buy ob)"
    using assms False m by (cases buy; auto simp: handleOrder_def Let_def ebook_def buy_def split: if_splits)+
  have en: "entries b = set (ebook buy b) \<union> set (ebook (\<not> buy) b)" for b by (auto simp: entries_def ebook_def)
  note me = matchLoop_entries [OF m]
  have "\<exists>y \<in> insert e (entries ob). of_order x y" if "x \<in> entries ob'" for x
  proof -
    have "x = e1 \<or> x \<in> set (ebook buy ob) \<or> x \<in> set opp" using that unfolding en ob'(2,3) by (auto simp: insertOrder_set split: if_splits)
    then show ?thesis unfolding en using me of_order_refl(1) by blast
  qed
  moreover have "\<exists>y \<in> insert e (entries ob). report_of y rep" if "rep \<in> set reps" for rep
    using that me unfolding en ob'(1) by auto
  moreover have "\<forall>rep \<in> set (tl reps). is_fill rep" using me by (simp add: ob'(1))
  ultimately show ?thesis by blast
qed

fun engineRun :: "(int \<Rightarrow> int) \<Rightarrow> EOrder list \<Rightarrow> OrderBook \<Rightarrow> report list \<times> OrderBook" where
  "engineRun ns [] ob = ([], ob)"
| "engineRun ns (e # es) ob = (case handleOrder ns e ob of (reps, ob1) \<Rightarrow> case engineRun ns es ob1 of (reps', ob2) \<Rightarrow> (reps @ reps', ob2))"

lemma engineRun_append:
  "engineRun ns es ob = (reps, ob1) \<Longrightarrow> handleOrder ns e ob1 = (reps', ob2) \<Longrightarrow> engineRun ns (es @ [e]) ob = (reps @ reps', ob2)"
  by (induction es arbitrary: ob reps) (auto split: prod.splits)

section \<open>The validator of a run\<close>

definition one_shard :: "'t Validator \<Rightarrow> bool" where
  "one_shard v \<longleftrightarrow> distinct (gokeys (shards v)) \<and> (\<forall>x \<in> set (shards v). fst x = ''BTCUSD'') \<and> (\<forall>i sh. map_of (orderToShard v) i = Some sh \<longrightarrow> sh = ''BTCUSD'')"

lemma one_shard_process:
  assumes "one_shard v"
  shows "one_shard (ProcessOrder T i ty sd p q v)" "one_shard (ProcessAck T i st v)" "one_shard (ProcessFill T i q p m v)"
    "shardAt T ''BTCUSD'' (ProcessOrder T i ty sd p q v) = shardOrder i ty sd p q (shardAt T ''BTCUSD'' v)"
    "shardAt T ''BTCUSD'' (ProcessAck T i st v) = shardAck T i st (shardAt T ''BTCUSD'' v)"
    "shardAt T ''BTCUSD'' (ProcessFill T i q p m v) = shardFill i q p m (shardAt T ''BTCUSD'' v)"
proof -
  obtain v1 where g: "getShard T ''BTCUSD'' v = (''BTCUSD'', v1)" by (simp add: getShard_def)
  have v1: "one_shard v1" "shardAt T ''BTCUSD'' v1 = shardAt T ''BTCUSD'' v"
    using g assms by (auto simp: getShard_def one_shard_def shardAt_def distinct_update gomap_simps get_or_no_key dest!: set_updateD split: if_splits)
  obtain v2 where g2: "getShardForOrder T i v = (''BTCUSD'', v2)" and v2: "one_shard v2" "shardAt T ''BTCUSD'' v2 = shardAt T ''BTCUSD'' v"
    using g v1 assms by (cases "map_of (orderToShard v) i") (auto simp: getShardForOrder_def one_shard_def)
  have up: "one_shard (onShard T ''BTCUSD'' f w)" "shardAt T ''BTCUSD'' (onShard T ''BTCUSD'' f w) = f (shardAt T ''BTCUSD'' w)"
    if "one_shard w" for f and w :: "'a Validator"
    using that by (auto simp: one_shard_def onShard_def shardAt_def distinct_update gomap_simps dest!: set_updateD)
  have w: "one_shard (v1\<lparr>orderToShard := AList.update i ''BTCUSD'' (orderToShard v1)\<rparr>)"
    "shardAt T ''BTCUSD'' (v1\<lparr>orderToShard := AList.update i ''BTCUSD'' (orderToShard v1)\<rparr>) = shardAt T ''BTCUSD'' v"
    using v1 by (auto simp: one_shard_def gomap_simps shardAt_def)
  show "one_shard (ProcessOrder T i ty sd p q v)" "one_shard (ProcessAck T i st v)" "one_shard (ProcessFill T i q p m v)"
    "shardAt T ''BTCUSD'' (ProcessOrder T i ty sd p q v) = shardOrder i ty sd p q (shardAt T ''BTCUSD'' v)"
    "shardAt T ''BTCUSD'' (ProcessAck T i st v) = shardAck T i st (shardAt T ''BTCUSD'' v)"
    "shardAt T ''BTCUSD'' (ProcessFill T i q p m v) = shardFill i q p m (shardAt T ''BTCUSD'' v)"
    using up v2 w by (simp_all add: ProcessOrder_def ProcessAck_def ProcessFill_def g g2)
qed

lemma deliver_validator:
  "co_validator (deliver T bots st (mine, rcv, r) c) = co_validator (processEvent T mine r c)"
  "co_accepted (deliver T bots st (mine, rcv, r) c) = co_accepted (processEvent T mine r c)"
proof -
  have 1: "co_validator (recordMetrics bots rcv r c) = co_validator c" "co_accepted (recordMetrics bots rcv r c) = co_accepted c" for c :: "'a Core"
    by (simp_all add: recordMetrics_def Let_def split: option.split)
  show "co_validator (deliver T bots st (mine, rcv, r) c) = co_validator (processEvent T mine r c)"
    "co_accepted (deliver T bots st (mine, rcv, r) c) = co_accepted (processEvent T mine r c)"
    by (simp_all add: deliver_def Let_def countFailure_def countSuccess_def 1)
qed

lemma status_strings:
  "ToLower (statusName ACCEPTED) = ''accepted''" "ToLower (statusName FILLED) = ''filled''" "ToLower (statusName PARTIAL) = ''partial''"
  "ToLower (statusName REJECTED) = ''rejected''" "ToLower (statusName CANCELLED) = ''cancelled''"
  "ToLower (typeString LIMIT) = ''limit''" "ToLower (typeString MARKET) = ''market''" "ToLower (typeString CANCEL) = ''cancel''"
  "ToLower (sideString BUY) = ''buy''" "ToLower (sideString SELL) = ''sell''"
  by code_simp+

definition vorder :: "POrder \<Rightarrow> Order" where
  "vorder po = \<lparr>ID = po_OrderId po, Type = typeString (po_Type po), Side = sideString (po_Side po), Price = po_Price po, Quantity = po_Quantity po\<rparr>"

definition line_ok :: "POrder list \<Rightarrow> bool" where
  \<comment> \<open>orders the validator waits for: identifiers are unique, and a cancellation comes after the order it names\<close>
  "line_ok L \<longleftrightarrow> distinct (map po_OrderId (filter (\<lambda>x. po_Type x \<noteq> CANCEL) L)) \<and>
     sorted_wrt (\<lambda>x y. \<not> (po_Type x = CANCEL \<and> po_Type y \<noteq> CANCEL \<and> po_OrderId x = po_OrderId y)) L \<and>
     (\<forall>x \<in> set L. po_Type x \<noteq> CANCEL \<longrightarrow> 0 \<le> po_Quantity x \<and> po_Quantity x < 2 ^ 63)"

definition pend_sync :: "POrder list \<Rightarrow> 't SymbolShard \<Rightarrow> bool" where
  "pend_sync L s \<longleftrightarrow> (\<forall>i x. map_of (pendingOrders s) i = Some x \<longleftrightarrow> (\<exists>po \<in> set L. po_Type po \<noteq> CANCEL \<and> po_OrderId po = i \<and> x = vorder po))"

definition routed :: "EOrder \<Rightarrow> bool" where
  "routed x \<longleftrightarrow> int (eo_Conn x) = botOf (eo_OrderID x)"

definition acceptedIn :: "'t Core \<Rightarrow> int \<Rightarrow> bool" where
  "acceptedIn c i \<longleftrightarrow> get_or False (co_accepted c) i"

definition run_rel :: "'t rbt_ops \<Rightarrow> ('t \<Rightarrow> bool) \<Rightarrow> ('t \<Rightarrow> int \<Rightarrow> int \<Rightarrow> int) \<Rightarrow> (int \<Rightarrow> int) \<Rightarrow> POrder list \<Rightarrow> OrderBook \<Rightarrow> report list \<Rightarrow> 't sys \<Rightarrow> bool" where
  \<comment> \<open>the engine has handled \<open>H\<close> from the book \<open>obv\<close> that the validator knows; of the order before them it waits for the fills \<open>R\<close>\<close>
  "run_rel T ok cmpOf ns H obv R S \<longleftrightarrow>
     (\<exists>reps. engineRun ns (map eord H) obv = (reps, sy_book S) \<and> sy_queue S = R @ reps) \<and>
     (\<exists>evs. co_validator (sy_core S) = vrun T evs) \<and> one_shard (co_validator (sy_core S)) \<and>
     sim T ok cmpOf obv (fillsOf R) (shardAt T ''BTCUSD'' (co_validator (sy_core S))) \<and>
     (\<forall>rep \<in> set R. is_fill rep \<and> int (fst rep) = botOf (er_OrderId (snd (snd rep))) \<and> acceptedIn (sy_core S) (er_OrderId (snd (snd rep)))) \<and>
     (\<forall>x \<in> entries obv. routed x \<and> acceptedIn (sy_core S) (eo_OrderID x) \<and> eo_OrderID x \<in> set (sy_sent S)) \<and>
     line_ok (H @ sy_wire S) \<and> pend_sync (H @ sy_wire S) (shardAt T ''BTCUSD'' (co_validator (sy_core S))) \<and>
     (\<forall>x \<in> set (H @ sy_wire S). po_OrderId x \<in> set (sy_sent S)) \<and> (\<forall>i \<in> set (sy_sent S). id_ok i)"

lemma sim_entries: "sim T ok cmpOf ob P s \<Longrightarrow> has_key (orderMap s) i \<longleftrightarrow> i \<in> eo_OrderID ` entries ob"
proof -
  assume s: "sim T ok cmpOf ob P s"
  have m: "same_book es xs \<Longrightarrow> map eo_OrderID es = map (\<lambda>x. ID (snd x)) xs" for es xs
    unfolding same_book_def by (induction es xs rule: list_all2_induct) (auto simp: same_order_def)
  have "eo_OrderID ` set (ebook b ob) = set (sideIds T b s)" for b
    using m [of "ebook b ob" "resting T b s"] s by (simp add: sim_def sideIds_def image_set del: set_map flip: set_map)
  from this [of True] this [of False] have "eo_OrderID ` entries ob = set (sideIds T True s) \<union> set (sideIds T False s)"
    by (simp add: entries_def ebook_def image_Un)
  moreover have "has_key (orderMap s) i \<longleftrightarrow> (\<exists>b. i \<in> set (sideIds T b s))" using s unfolding sim_def ids_ok_def by blast
  ultimately show ?thesis by (auto simp: ex_bool_eq)
qed

lemma line_ok_move:
  assumes "line_ok (H @ W1 @ po # W2)" "\<forall>x \<in> set W1. po_OrderId x \<noteq> po_OrderId po"
  shows "line_ok ((H @ [po]) @ W1 @ W2)"
proof -
  let ?P = "\<lambda>x y. \<not> (po_Type x = CANCEL \<and> po_Type y \<noteq> CANCEL \<and> po_OrderId x = po_OrderId y)"
  have "sorted_wrt ?P (H @ W1 @ po # W2)" using assms(1) by (simp add: line_ok_def)
  then have "sorted_wrt ?P ((H @ [po]) @ W1 @ W2)" using assms(2) unfolding sorted_wrt_append sorted_wrt.simps by auto
  moreover have "distinct (map po_OrderId (filter (\<lambda>x. po_Type x \<noteq> CANCEL) ((H @ [po]) @ W1 @ W2)))"
    using assms(1) by (auto simp: line_ok_def)
  ultimately show ?thesis using assms(1) by (simp add: line_ok_def)
qed

lemma run_rel_handle:
  assumes "run_rel T ok cmpOf ns H obv R S" "sy_wire S = W1 @ po # W2" "\<forall>x \<in> set W1. botOf (po_OrderId x) \<noteq> botOf (po_OrderId po)"
    and "handleOrder ns (eord po) (sy_book S) = (reps, ob')"
  shows "run_rel T ok cmpOf ns (H @ [po]) obv R (S\<lparr>sy_wire := W1 @ W2, sy_book := ob', sy_queue := sy_queue S @ reps\<rparr>)"
proof -
  obtain reps0 where r: "engineRun ns (map eord H) obv = (reps0, sy_book S)" "sy_queue S = R @ reps0"
    using assms(1) unfolding run_rel_def by blast
  have "engineRun ns (map eord (H @ [po])) obv = (reps0 @ reps, ob')" using engineRun_append [OF r(1) assms(4)] by simp
  moreover have ne: "\<forall>x \<in> set W1. po_OrderId x \<noteq> po_OrderId po" using assms(3) by (auto simp: botOf_def)
  have "line_ok (H @ sy_wire S)" using assms(1) by (simp add: run_rel_def)
  then have "line_ok ((H @ [po]) @ W1 @ W2)" unfolding assms(2) by (rule line_ok_move) (use ne in auto)
  moreover have "set ((H @ [po]) @ W1 @ W2) = set (H @ sy_wire S)" by (auto simp: assms(2))
  ultimately show ?thesis using assms(1) r(2) unfolding run_rel_def pend_sync_def by simp
qed

lemma line_ok_tl: "line_ok (x # L) \<Longrightarrow> line_ok L"
  by (auto simp: line_ok_def split: if_splits)

lemma line_ok_send:
  assumes "line_ok L" "\<forall>x \<in> set L. po_OrderId x \<noteq> po_OrderId po" "0 \<le> po_Quantity po" "po_Quantity po < 2 ^ 63"
  shows "line_ok (L @ [po])"
  using assms by (auto simp: line_ok_def sorted_wrt_append)

lemma pend_sync_send:
  assumes "pend_sync L s" "\<forall>x \<in> set L. po_OrderId x \<noteq> po_OrderId po" "po_Type po \<noteq> CANCEL"
    and "pendingOrders s' = AList.update (po_OrderId po) (vorder po) (pendingOrders s)"
  shows "pend_sync (L @ [po]) s'"
  using assms(1-3) unfolding pend_sync_def assms(4) by (auto simp: gomap_simps)

lemma pend_sync_ack:
  assumes "pend_sync (po # L) s" "line_ok (po # L)" "po_Type po \<noteq> CANCEL"
    and "pendingOrders s' = AList.delete (po_OrderId po) (pendingOrders s)"
  shows "pend_sync L s'"
proof -
  have "\<forall>x \<in> set L. po_Type x \<noteq> CANCEL \<longrightarrow> po_OrderId x \<noteq> po_OrderId po" using assms(2,3) by (auto simp: line_ok_def image_iff)
  then show ?thesis using assms(1,3) unfolding pend_sync_def assms(4) by (auto simp: gomap_simps)
qed

lemma vrun_snoc: "vstep T e (vrun T evs) = vrun T (evs @ [e])"
  by (simp add: vrun_def)

lemma submit_validator:
  assumes "one_shard (co_validator c)" "co_validator c = vrun T evs" "id_ok (po_OrderId po)"
  shows "one_shard (co_validator (submit T po c))" "\<exists>evs. co_validator (submit T po c) = vrun T evs" "acceptedIn (submit T po c) = acceptedIn c"
    "shardAt T ''BTCUSD'' (co_validator (submit T po c)) =
      shardOrder (po_OrderId po) (typeString (po_Type po)) (sideString (po_Side po)) (po_Price po) (wrap64 (po_Quantity po)) (shardAt T ''BTCUSD'' (co_validator c))"
proof -
  have w: "wrap64 (po_OrderId po) = po_OrderId po" using assms(3) by (intro wrap64_id) (simp add: id_ok_def in64_def)
  show "one_shard (co_validator (submit T po c))" "shardAt T ''BTCUSD'' (co_validator (submit T po c)) =
      shardOrder (po_OrderId po) (typeString (po_Type po)) (sideString (po_Side po)) (po_Price po) (wrap64 (po_Quantity po)) (shardAt T ''BTCUSD'' (co_validator c))"
    using one_shard_process [OF assms(1)] by (simp_all add: submit_def w)
  show "acceptedIn (submit T po c) = acceptedIn c" by (simp add: fun_eq_iff acceptedIn_def submit_def)
  have "co_validator (submit T po c) = vrun T (evs @ [EOrder (po_OrderId po) (typeString (po_Type po)) (sideString (po_Side po)) (po_Price po) (wrap64 (po_Quantity po))])"
    unfolding vrun_snoc [symmetric] by (simp add: submit_def w assms(2))
  then show "\<exists>evs. co_validator (submit T po c) = vrun T evs" ..
qed

lemma run_rel_send:
  assumes r: "run_rel T ok cmpOf ns H obv R S"
    and po: "po_Type po \<noteq> CANCEL" "po_OrderId po \<notin> set (sy_sent S)" "id_ok (po_OrderId po)" "0 \<le> po_Quantity po" "po_Quantity po < 2 ^ 63"
  shows "run_rel T ok cmpOf ns H obv R (S\<lparr>sy_wire := sy_wire S @ [po], sy_core := submit T po (sy_core S), sy_sent := po_OrderId po # sy_sent S\<rparr>)"
proof -
  define s where "s = shardAt T ''BTCUSD'' (co_validator (sy_core S))"
  have sim: "sim T ok cmpOf obv (fillsOf R) s" and l: "line_ok (H @ sy_wire S)" "pend_sync (H @ sy_wire S) s"
    "\<forall>x \<in> set (H @ sy_wire S). po_OrderId x \<in> set (sy_sent S)" "\<forall>x \<in> entries obv. eo_OrderID x \<in> set (sy_sent S)"
    using r by (simp_all add: run_rel_def s_def)
  obtain evs where v: "one_shard (co_validator (sy_core S))" "co_validator (sy_core S) = vrun T evs" using r by (auto simp: run_rel_def)
  note sv = submit_validator [OF v po(3)]
  have q: "wrap64 (po_Quantity po) = po_Quantity po" "in64 (po_Quantity po)" using po(4,5) by (simp_all add: wrap64_id in64_def)
  have nm: "\<not> has_key (orderMap s) (po_OrderId po)" using sim_entries [OF sim] l(4) po(2) by auto
  have np: "map_of (pendingOrders s) (po_OrderId po) = None" using l(2,3) po(2) unfolding pend_sync_def by (metis option.exhaust)
  have ty: "ToLower (typeString (po_Type po)) \<noteq> ''cancel''" using po(1) by (cases "po_Type po") (simp_all add: status_strings)
  let ?s = "shardOrder (po_OrderId po) (typeString (po_Type po)) (sideString (po_Side po)) (po_Price po) (po_Quantity po) s"
  have so: "sim T ok cmpOf obv (fillsOf R) ?s" "pendingOrders ?s = AList.update (po_OrderId po) (vorder po) (pendingOrders s)"
    using sim_order [OF sim ty po(3) nm _ q(2)] np by (simp_all add: has_key_def vorder_def)
  have new: "\<forall>x \<in> set (H @ sy_wire S). po_OrderId x \<noteq> po_OrderId po" using l(3) po(2) by metis
  then have "line_ok (H @ sy_wire S @ [po])" using line_ok_send [OF l(1) _ po(4,5)] by simp
  moreover have "pend_sync ((H @ sy_wire S) @ [po]) ?s"
    by (rule pend_sync_send [OF l(2) new po(1) so(2)])
  ultimately show ?thesis using r sv so(1) q(1) po(3) by (simp add: run_rel_def s_def [symmetric])
qed

lemma run_rel_cancel:
  assumes r: "run_rel T ok cmpOf ns H obv R S" and po: "po_Type po = CANCEL" "po_OrderId po \<in> set (sy_sent S)"
  shows "run_rel T ok cmpOf ns H obv R (S\<lparr>sy_wire := sy_wire S @ [po], sy_core := submit T po (sy_core S)\<rparr>)"
proof -
  obtain evs where v: "one_shard (co_validator (sy_core S))" "co_validator (sy_core S) = vrun T evs" "id_ok (po_OrderId po)"
    using r po(2) by (auto simp: run_rel_def)
  note sv = submit_validator [OF v]
  have "shardAt T ''BTCUSD'' (co_validator (submit T po (sy_core S))) = shardAt T ''BTCUSD'' (co_validator (sy_core S))"
    unfolding sv(4) using po(1) by (simp add: shardOrder_def status_strings)
  moreover have "line_ok (H @ sy_wire S @ [po]) = line_ok (H @ sy_wire S)" using po(1) by (simp add: line_ok_def sorted_wrt_append)
  moreover have "pend_sync (H @ sy_wire S @ [po]) s = pend_sync (H @ sy_wire S) s" for s :: "'a SymbolShard" using po(1) by (simp add: pend_sync_def)
  ultimately show ?thesis using r sv(1-3) po(2) by (simp add: run_rel_def)
qed

lemma own_report: "id_ok i \<Longrightarrow> int conn = botOf i \<Longrightarrow> wrap64 (i div 2 ^ 32) = int conn"
  using wrap64_id [of "i div 2 ^ 32"] int_div_less_self [of i "2 ^ 32"] by (simp add: botOf_def id_ok_def in64_def)

lemma wrap64_id_ok: "id_ok i \<Longrightarrow> wrap64 i = i"
  by (intro wrap64_id) (simp add: id_ok_def in64_def)

lemma pend_ok_head: "pend_ok ((i, q, p, m) # P) \<Longrightarrow> 0 < q \<and> q < 2 ^ 63"
proof -
  assume a: "pend_ok ((i, q, p, m) # P)"
  have "0 \<le> (\<Sum>f\<leftarrow>pendOf i P. FilledQty f)" using a by (intro sum_pos_list(1) pendOf_pos [of P]) (auto simp: pend_ok_def)
  moreover have "q + (\<Sum>f\<leftarrow>pendOf i P. FilledQty f) < 2 ^ 63" using a unfolding pend_ok_def by (metis (no_types, lifting) list.map(2) pendOf_simps(2) Fill.select_convs(2) sum_list.Cons)
  ultimately show ?thesis using a by (simp add: pend_ok_def)
qed

lemma run_rel_fill:
  assumes r: "run_rel T ok cmpOf ns H obv ((conn, cid, rp) # R) S"
  shows "run_rel T ok cmpOf ns H obv R (S\<lparr>sy_queue := tl (sy_queue S),
      sy_core := deliver T bots st (wrap64 (er_OrderId rp div 2 ^ 32) = int conn, rcv, rp) (sy_core S)\<rparr>)"
proof -
  let ?i = "er_OrderId rp" and ?c = "sy_core S"
  define s where "s = shardAt T ''BTCUSD'' (co_validator ?c)"
  have h: "is_fill (conn, cid, rp)" "int conn = botOf ?i" "acceptedIn ?c ?i" and one: "one_shard (co_validator ?c)" using r by (simp_all add: run_rel_def)
  have f: "fillsOf ((conn, cid, rp) # R) = (?i, er_FilledQty rp, er_FilledPrice rp, er_MatchedWith rp) # fillsOf R"
    using h(1) by (simp add: fillsOf_def is_fill_def)
  have sim: "sim T ok cmpOf obv ((?i, er_FilledQty rp, er_FilledPrice rp, er_MatchedWith rp) # fillsOf R) s"
    using r by (simp add: run_rel_def s_def f)
  then have i: "id_ok ?i" "id_ok (er_MatchedWith rp)" and "pend_ok ((?i, er_FilledQty rp, er_FilledPrice rp, er_MatchedWith rp) # fillsOf R)"
    by (simp_all add: sim_def)
  then have q: "wrap64 (er_FilledQty rp) = er_FilledQty rp" using pend_ok_head by (intro wrap64_id') force+
  let ?c' = "deliver T bots st (wrap64 (?i div 2 ^ 32) = int conn, rcv, rp) ?c"
  have v: "co_validator ?c' = ProcessFill T ?i (er_FilledQty rp) (er_FilledPrice rp) [er_MatchedWith rp] (co_validator ?c)" "co_accepted ?c' = co_accepted ?c"
    unfolding deliver_validator own_report [OF i(1) h(2)] using h(1,3) wrap64_id_ok [OF i(1)] wrap64_id_ok [OF i(2)] q
    by (auto simp: processEvent_def Let_def is_fill_def status_strings acceptedIn_def)
  obtain evs where evs: "co_validator ?c = vrun T evs" using r by (auto simp: run_rel_def)
  have "co_validator ?c' = vrun T (evs @ [EFill ?i (er_FilledQty rp) (er_FilledPrice rp) [er_MatchedWith rp]])"
    unfolding vrun_snoc [symmetric] v(1) evs by simp
  moreover have "one_shard (co_validator ?c')" unfolding v(1) by (rule one_shard_process(3) [OF one])
  moreover have sh: "shardAt T ''BTCUSD'' (co_validator ?c') = shardFill ?i (er_FilledQty rp) (er_FilledPrice rp) [er_MatchedWith rp] s"
    unfolding v(1) s_def by (rule one_shard_process(6) [OF one])
  moreover have "pend_sync (H @ sy_wire S) (shardFill ?i (er_FilledQty rp) (er_FilledPrice rp) [er_MatchedWith rp] s) = pend_sync (H @ sy_wire S) s"
    by (simp add: pend_sync_def shardFill_def frame)
  moreover have "acceptedIn ?c' = acceptedIn ?c" unfolding fun_eq_iff acceptedIn_def v(2) by blast
  moreover have "sy_queue S = (conn, cid, rp) # tl (sy_queue S)" using r by (auto simp: run_rel_def)
  ultimately show ?thesis using r sim_fill [OF sim] unfolding run_rel_def s_def [symmetric] by auto
qed

lemma eord_simps [simp]:
  "eo_OrderID (eord po) = po_OrderId po" "eo_Price (eord po) = po_Price po" "eo_Quantity (eord po) = po_Quantity po"
  "po_Type po = LIMIT \<or> po_Type po = MARKET \<Longrightarrow> eo_Type (eord po) = (if po_Type po = LIMIT then OrderType_LIMIT else OrderType_MARKET)"
  "po_Type po = CANCEL \<Longrightarrow> eo_Type (eord po) = OrderType_CANCEL"
  "eo_Side (eord po) = (if po_Side po = BUY then Side_BUY else Side_SELL)"
  by (auto simp: eord_def engineOrder_def split: PSide.splits)

lemma routed_eord: "id_ok (po_OrderId po) \<Longrightarrow> routed (eord po)"
  by (simp add: routed_def eord_def engineOrder_def botOf_def id_ok_def pos_imp_zdiv_nonneg_iff)

lemma routed_report:
  assumes "handleOrder ns e ob = (reps, ob')" "routed e" "\<forall>x \<in> entries ob. routed x" "rep \<in> set reps"
  shows "int (fst rep) = botOf (er_OrderId (snd (snd rep)))"
  using handleOrder_entries [OF assms(1)] assms(2-4) by (fastforce simp: report_of_def routed_def)

lemma deliver_answer:
  assumes "one_shard (co_validator c)" "co_validator c = vrun T evs" "id_ok (er_OrderId rp)" "int conn = botOf (er_OrderId rp)"
    and st: "er_Status rp = ACCEPTED \<and> w = ''accepted'' \<or> er_Status rp = CANCELLED \<and> w = ''cancelled'' \<or> er_Status rp = REJECTED \<and> w = ''rejected''"
    and c': "c' = deliver T bots st (wrap64 (er_OrderId rp div 2 ^ 32) = int conn, rcv, rp) c"
  shows "one_shard (co_validator c')" "\<exists>evs. co_validator c' = vrun T evs"
    "shardAt T ''BTCUSD'' (co_validator c') = shardAck T (er_OrderId rp) w (shardAt T ''BTCUSD'' (co_validator c))"
    "acceptedIn c' i \<longleftrightarrow> acceptedIn c i \<or> er_Status rp = ACCEPTED \<and> i = er_OrderId rp"
proof -
  note i = wrap64_id_ok [OF assms(3)]
  have v: "co_validator c' = ProcessAck T (er_OrderId rp) w (co_validator c)"
    "co_accepted c' = (if er_Status rp = ACCEPTED then AList.update (er_OrderId rp) True (co_accepted c) else co_accepted c)"
    unfolding c' deliver_validator own_report [OF assms(3,4)] using st i
    by (auto simp: processEvent_def Let_def status_strings)
  show "one_shard (co_validator c')" unfolding v(1) by (rule one_shard_process(2) [OF assms(1)])
  show "shardAt T ''BTCUSD'' (co_validator c') = shardAck T (er_OrderId rp) w (shardAt T ''BTCUSD'' (co_validator c))"
    unfolding v(1) by (rule one_shard_process(5) [OF assms(1)])
  have "co_validator c' = vrun T (evs @ [EAck (er_OrderId rp) w])" unfolding vrun_snoc [symmetric] v(1) assms(2) by simp
  then show "\<exists>evs. co_validator c' = vrun T evs" ..
  show "acceptedIn c' i \<longleftrightarrow> acceptedIn c i \<or> er_Status rp = ACCEPTED \<and> i = er_OrderId rp"
    unfolding acceptedIn_def v(2) by (auto simp: gomap_simps)
qed

lemma vorder_simps [simp]: "ID (vorder po) = po_OrderId po" "Price (vorder po) = po_Price po" "Quantity (vorder po) = po_Quantity po"
  by (simp_all add: vorder_def)

lemma cancelOrder_entries: "cancelOrder ns e ob = (reps, ob') \<Longrightarrow> entries ob' \<subseteq> entries ob"
  by (auto simp: cancelOrder_def Let_def entries_def split: option.splits dest!: removeByID_set)

lemma mkReport_simps [simp]:
  "fst (mkReport ns e st q p sq m) = eo_Conn e" "er_OrderId (snd (snd (mkReport ns e st q p sq m))) = eo_OrderID e"
  "er_Status (snd (snd (mkReport ns e st q p sq m))) = st"
  by (simp_all add: mkReport_def)

context price_tree
begin

lemma sim_head:
  assumes s: "sim T ok cmpOf obv [] s" and l: "line_ok (po # L)" and p: "pend_sync (po # L) s"
  obtains rep reps ob' w where "handleOrder ns (eord po) obv = (rep # reps, ob')" "sim T ok cmpOf ob' (fillsOf reps) (shardAck T (po_OrderId po) w s)"
    "er_OrderId (snd (snd rep)) = po_OrderId po" "fst rep = eo_Conn (eord po)" "pend_sync L (shardAck T (po_OrderId po) w s)"
    "er_Status (snd (snd rep)) = ACCEPTED \<and> w = ''accepted'' \<or>
      reps = [] \<and> entries ob' \<subseteq> entries obv \<and> (er_Status (snd (snd rep)) = CANCELLED \<and> w = ''cancelled'' \<or> er_Status (snd (snd rep)) = REJECTED \<and> w = ''rejected'')"
proof (cases "po_Type po = CANCEL")
  case True
  have "\<forall>x \<in> set (po # L). po_Type x \<noteq> CANCEL \<longrightarrow> po_OrderId x \<noteq> po_OrderId po" using l True by (auto simp: line_ok_def)
  then have "map_of (pendingOrders s) (po_OrderId po) \<noteq> Some x" for x using p unfolding pend_sync_def by metis
  then have "\<not> has_key (pendingOrders s) (po_OrderId po)" by (auto simp: has_key_def)
  then obtain st ob' where h: "cancelOrder ns (eord po) obv = ([mkReport ns (eord po) st 0 0 (u64 (seqID obv + 1)) 0], ob')" "st = CANCELLED \<or> st = REJECTED"
    "sim T ok cmpOf ob' [] (shardAck T (po_OrderId po) (if st = CANCELLED then ''cancelled'' else ''rejected'') s)"
    "pendingOrders (shardAck T (po_OrderId po) (if st = CANCELLED then ''cancelled'' else ''rejected'') s) = pendingOrders s"
    by (rule sim_cancel [OF s _ eord_simps(1)])
  have "handleOrder ns (eord po) obv = cancelOrder ns (eord po) obv" using True by (simp add: handleOrder_def)
  moreover have "pend_sync L (shardAck T (po_OrderId po) (if st = CANCELLED then ''cancelled'' else ''rejected'') s)"
    using p True unfolding pend_sync_def h(4) by simp
  ultimately show thesis using that [of "mkReport ns (eord po) st 0 0 (u64 (seqID obv + 1)) 0" "[]" ob' "if st = CANCELLED then ''cancelled'' else ''rejected''"]
    h cancelOrder_entries [OF h(1)] by (auto simp: fillsOf_def)
next
  case False
  let ?ul = "po_Type po = LIMIT" and ?buy = "po_Side po = BUY"
  have lm: "po_Type po = LIMIT \<or> po_Type po = MARKET" using False by (cases "po_Type po") auto
  have pd: "map_of (pendingOrders s) (po_OrderId po) = Some (vorder po)" using p False unfolding pend_sync_def by (metis list.set_intros(1))
  have o: "0 \<le> Quantity (vorder po)" using l False by (simp add: line_ok_def)
  have ty: "ToLower (Type (vorder po)) = (if ?ul then ''limit'' else ''market'')" using lm by (auto simp: vorder_def status_strings)
  have sd: "ToLower (Side (vorder po)) = (if ?buy then ''buy'' else ''sell'')" by (cases "po_Side po") (simp_all add: vorder_def status_strings)
  obtain reps ob' where h: "handleOrder ns (eord po) obv = (mkReport ns (eord po) ACCEPTED 0 0 (u64 (seqID obv + 1)) 0 # reps, ob')"
    "sim T ok cmpOf ob' (fillsOf reps) (shardAck T (po_OrderId po) ''accepted'' s)"
    "pendingOrders (shardAck T (po_OrderId po) ''accepted'' s) = AList.delete (po_OrderId po) (pendingOrders s)"
    by (rule sim_ack [OF s pd o ty sd eord_simps(1), of ns]) (use lm in simp_all)
  then show thesis using that [OF h(1,2)] pend_sync_ack [OF p l False h(3)] by simp
qed

lemma run_rel_answer:
  assumes r: "run_rel T ok cmpOf ns (po # H) obv [] S" and q: "sy_queue S = (conn, cid, rp) # Q"
  shows "\<exists>obv' R. run_rel T ok cmpOf ns H obv' R (S\<lparr>sy_queue := Q,
      sy_core := deliver T bots st (wrap64 (er_OrderId rp div 2 ^ 32) = int conn, rcv, rp) (sy_core S)\<rparr>)"
proof -
  let ?c = "sy_core S" and ?c' = "deliver T bots st (wrap64 (er_OrderId rp div 2 ^ 32) = int conn, rcv, rp) (sy_core S)"
  define s where "s = shardAt T ''BTCUSD'' (co_validator ?c)"
  have l: "line_ok (po # H @ sy_wire S)" "pend_sync (po # H @ sy_wire S) s" "sim T ok cmpOf obv [] s" and one: "one_shard (co_validator ?c)"
    and en: "\<forall>x \<in> entries obv. routed x \<and> acceptedIn ?c (eo_OrderID x) \<and> eo_OrderID x \<in> set (sy_sent S)"
    and sent: "po_OrderId po \<in> set (sy_sent S)" "\<forall>x \<in> set (H @ sy_wire S). po_OrderId x \<in> set (sy_sent S)" "\<forall>i \<in> set (sy_sent S). id_ok i"
    using r by (simp_all add: run_rel_def s_def fillsOf_def)
  obtain evs where evs: "co_validator ?c = vrun T evs" using r by (auto simp: run_rel_def)
  obtain rep reps ob' w where h: "handleOrder ns (eord po) obv = (rep # reps, ob')" "sim T ok cmpOf ob' (fillsOf reps) (shardAck T (po_OrderId po) w s)"
    "er_OrderId (snd (snd rep)) = po_OrderId po" "fst rep = eo_Conn (eord po)" "pend_sync (H @ sy_wire S) (shardAck T (po_OrderId po) w s)"
    and w: "er_Status (snd (snd rep)) = ACCEPTED \<and> w = ''accepted'' \<or>
      reps = [] \<and> entries ob' \<subseteq> entries obv \<and> (er_Status (snd (snd rep)) = CANCELLED \<and> w = ''cancelled'' \<or> er_Status (snd (snd rep)) = REJECTED \<and> w = ''rejected'')"
    by (rule sim_head [OF l(3,1,2)])
  obtain reps' where rr: "engineRun ns (map eord H) ob' = (reps', sy_book S)" "sy_queue S = rep # reps @ reps'"
    using r h(1) by (auto simp: run_rel_def split: prod.splits)
  have rep: "rep = (conn, cid, rp)" "Q = reps @ reps'" using rr(2) q by simp_all
  have i: "id_ok (er_OrderId rp)" "er_OrderId rp = po_OrderId po" using h(3) rep(1) sent by auto
  have re: "routed (eord po)" using routed_eord i by simp
  have b: "int conn = botOf (er_OrderId rp)" using re h(4) rep(1) i(2) by (simp add: routed_def)
  note d = deliver_answer [OF one evs i(1) b _ refl, of w bots st rcv]
  have st: "er_Status rp = ACCEPTED \<and> w = ''accepted'' \<or> er_Status rp = CANCELLED \<and> w = ''cancelled'' \<or> er_Status rp = REJECTED \<and> w = ''rejected''"
    using w rep(1) by auto
  note en' = handleOrder_entries [OF h(1)]
  have acc: "er_Status rp = ACCEPTED \<Longrightarrow> acceptedIn ?c' (po_OrderId po)" "acceptedIn ?c j \<Longrightarrow> acceptedIn ?c' j" for j
    using d(4) [OF st] i(2) by simp_all
  have "routed x \<and> acceptedIn ?c' (eo_OrderID x) \<and> eo_OrderID x \<in> set (sy_sent S)" if x: "x \<in> entries ob'" for x
  proof (cases "er_Status rp = ACCEPTED")
    case True
    obtain y where "y \<in> insert (eord po) (entries obv)" "of_order x y" using en' x by blast
    then show ?thesis using en re acc True sent(1) by (auto simp: of_order_def routed_def)
  next
    case False
    then have "x \<in> entries obv" using w x rep(1) by auto
    then show ?thesis using en acc(2) by blast
  qed
  moreover have "is_fill x \<and> int (fst x) = botOf (er_OrderId (snd (snd x))) \<and> acceptedIn ?c' (er_OrderId (snd (snd x)))" if x: "x \<in> set reps" for x
  proof -
    have "er_Status rp = ACCEPTED" using w x rep(1) by auto
    moreover have "x \<in> set (rep # reps)" using x by simp
    then obtain y where "y \<in> insert (eord po) (entries obv)" "report_of y x" using en' by blast
    ultimately have "acceptedIn ?c' (er_OrderId (snd (snd x)))" using en acc by (auto simp: report_of_def)
    moreover have "int (fst x) = botOf (er_OrderId (snd (snd x)))" using routed_report [OF h(1) re] en x by simp
    ultimately show ?thesis using en' x by simp
  qed
  moreover have "line_ok (H @ sy_wire S)" using line_ok_tl [OF l(1)] .
  ultimately have "run_rel T ok cmpOf ns H ob' reps (S\<lparr>sy_queue := Q, sy_core := ?c'\<rparr>)"
    unfolding run_rel_def using rr(1) rep(2) d(1-3) [OF st] h(2,5) sent i(2) by (auto simp: s_def)
  then show ?thesis by blast
qed

end

section \<open>Every run\<close>

lemma handleOrder_Nil: "handleOrder ns e ob \<noteq> ([], ob')"
  by (simp add: handleOrder_def cancelOrder_def Let_def split: option.split prod.split)

context price_tree
begin

lemma run_rel_step:
  assumes "sys_step T ns bots st S S'" "run_rel T ok cmpOf ns H obv R S"
  shows "\<exists>H obv R. run_rel T ok cmpOf ns H obv R S'"
  using assms
proof cases
  case (send po)
  then show ?thesis using run_rel_send [OF assms(2)] by blast
next
  case (cancel po)
  then show ?thesis using run_rel_cancel [OF assms(2)] by blast
next
  case (handle W1 po W2 reps ob')
  then show ?thesis using run_rel_handle [OF assms(2)] by blast
next
  case (consume conn cid r Q rcv)
  show ?thesis
  proof (cases R)
    case (Cons rep R')
    then have "rep = (conn, cid, r)" "Q = tl (sy_queue S)" using consume(2) assms(2) by (auto simp: run_rel_def)
    then show ?thesis using run_rel_fill [of T ok cmpOf ns H obv conn cid r R' S bots st rcv] assms(2) Cons consume(1) by blast
  next
    case Nil
    then have "H \<noteq> []" using assms(2) consume(2) by (auto simp: run_rel_def)
    then obtain po H' where "H = po # H'" by (cases H) auto
    then show ?thesis using run_rel_answer [of ns po H' obv S conn cid r Q bots st rcv] assms(2) Nil consume by blast
  qed
qed

lemma run_rel_0: "run_rel T ok cmpOf ns [] (sy_book sys0) [] (sys0 :: 't sys)"
proof -
  have v: "co_validator (sy_core (sys0 :: 't sys)) = NewValidator" by (simp add: sys0_def core0_def)
  have s: "shardAt T ''BTCUSD'' (NewValidator :: 't Validator) = NewSymbolShard T" by (simp add: shardAt_def NewValidator_def)
  have r: "resting T b (NewSymbolShard T) = []" for b by (simp add: resting_def bookSide_def NewSymbolShard_def new_entries)
  have "sim T ok cmpOf (sy_book (sys0 :: 't sys)) (fillsOf []) (NewSymbolShard T)"
    using new_shard_ok by (simp add: sim_def ids_ok_def sideIds_def r same_book_def ebook_def sys0_def fillsOf_def)
      (simp add: fills_ok_def no_violations_def NewSymbolShard_def)
  moreover have "\<exists>evs. NewValidator = vrun T evs" by (rule exI [of _ "[]"]) (simp add: vrun_def)
  ultimately show ?thesis unfolding run_rel_def v s
    by (simp add: sys0_def one_shard_def NewValidator_def entries_def line_ok_def pend_sync_def) (simp add: NewSymbolShard_def)
qed

lemma run_rel_reachable:
  "rtranclp (sys_step T ns bots st) sys0 S \<Longrightarrow> \<exists>H obv R. run_rel T ok cmpOf ns H obv R S"
  by (induction rule: rtranclp_induct) (use run_rel_0 run_rel_step in blast)+

end

lemma one_shardD: "one_shard v \<Longrightarrow> x \<in> set (shards v) \<Longrightarrow> snd x = shardAt T ''BTCUSD'' v"
  by (cases x) (force simp: one_shard_def shardAt_def get_or_def)

lemma run_rel_score:
  assumes "run_rel T ok cmpOf ns H obv [] S"
  shows "fst (GetCorrectnessScore (co_validator (sy_core S))) = 100"
proof -
  let ?v = "co_validator (sy_core S)"
  obtain evs where v: "?v = vrun T evs" "one_shard ?v" "sim T ok cmpOf obv [] (shardAt T ''BTCUSD'' ?v)"
    using assms by (auto simp: run_rel_def fillsOf_def)
  have "(\<forall>i. agree (snd x) i) \<and> no_violations (snd x) \<and> counters_ok (snd x) \<and> maps_ok (snd x)" if "x \<in> set (shards ?v)" for x
    using one_shardD [OF v(2) that, of T] v(3) counters.vrun_inv [OF that [unfolded v(1)]] maps.vrun_inv [OF that [unfolded v(1)]]
    by (simp add: sim_def fills_ok_agree)
  moreover have "balanced tally0" by (simp add: balanced_def tally0_def)
  ultimately have "balanced (fst (scoreShards (shards ?v) tally0))" by (intro scoreShards_agree) auto
  then show ?thesis by (simp add: GetCorrectnessScore_def case_prod_beta scoreOf_balanced)
qed

lemma sys_drains:
  fixes S :: "'t sys"
  shows "\<exists>S'. rtranclp (sys_step T ns bots st) S S' \<and> sy_wire S' = [] \<and> sy_queue S' = [] \<and> sy_sent S' = sy_sent S"
proof -
  have q: "\<exists>S'. rtranclp (sys_step T ns bots st) S S' \<and> sy_wire S' = [] \<and> sy_queue S' = [] \<and> sy_sent S' = sy_sent S"
    if "sy_wire S = []" for S :: "'t sys"
    using that
  proof (induction "sy_queue S" arbitrary: S)
    case (Cons rep Q)
    obtain conn cid r where rep: "rep = (conn, cid, r)" by (metis prod_cases3)
    let ?S = "S\<lparr>sy_queue := Q, sy_core := deliver T bots st (wrap64 (er_OrderId r div 2 ^ 32) = int conn, 0, r) (sy_core S)\<rparr>"
    have "sys_step T ns bots st S ?S" using Cons.hyps(2) rep by (intro consume [where cid = cid]) simp
    moreover obtain S' where "rtranclp (sys_step T ns bots st) ?S S'" "sy_wire S' = []" "sy_queue S' = []" "sy_sent S' = sy_sent S"
      using Cons.hyps(1) [of ?S] Cons.prems by auto
    ultimately show ?case by (meson converse_rtranclp_into_rtranclp)
  next
    case Nil
    then show ?case by (intro exI [of _ S]) simp
  qed
  show ?thesis
  proof (induction "sy_wire S" arbitrary: S)
    case Nil
    then show ?case using q by simp
  next
    case (Cons po W)
    obtain reps ob' where h: "handleOrder ns (eord po) (sy_book S) = (reps, ob')" by fastforce
    let ?S = "S\<lparr>sy_wire := [] @ W, sy_book := ob', sy_queue := sy_queue S @ reps\<rparr>"
    have "sys_step T ns bots st S ?S" using Cons.hyps(2) h by (intro handle) auto
    moreover obtain S' where "rtranclp (sys_step T ns bots st) ?S S'" "sy_wire S' = []" "sy_queue S' = []" "sy_sent S' = sy_sent S"
      using Cons.hyps(1) [of ?S] by auto
    ultimately show ?case by (meson converse_rtranclp_into_rtranclp)
  qed
qed

text \<open>C1: the reference engine is judged correct. Bots submit orders with fresh identifiers and cancellations of
  earlier orders in any interleaving, the engine reads the connections in any order that keeps each
  connection in sequence, and the reports reach the validator in the order of the engine, at any time after
  they are written. Whenever nothing is under way, the correctness score is exactly 100, and every run
  can be continued to such a point.\<close>

theorem reference_engine_scores_100:
  assumes "price_tree T ok cmpOf" "rtranclp (sys_step T ns bots st) sys0 S"
  shows "(sy_wire S = [] \<and> sy_queue S = [] \<longrightarrow> fst (GetCorrectnessScore (co_validator (sy_core S))) = 100) \<and>
    (\<exists>S'. rtranclp (sys_step T ns bots st) S S' \<and> sy_wire S' = [] \<and> sy_queue S' = [] \<and> sy_sent S' = sy_sent S)"
proof -
  obtain H obv R where r: "run_rel T ok cmpOf ns H obv R S" using price_tree.run_rel_reachable [OF assms] by blast
  moreover have "R = []" if "sy_queue S = []" using r that by (auto simp: run_rel_def)
  ultimately have "sy_queue S = [] \<Longrightarrow> fst (GetCorrectnessScore (co_validator (sy_core S))) = 100" using run_rel_score by blast
  then show ?thesis using sys_drains by blast
qed

definition sell1 :: POrder where
  "sell1 = \<lparr>po_BotId = 1, po_OrderId = 4294967297, po_Type = LIMIT, po_Side = SELL, po_Price = 100, po_Quantity = 5\<rparr>"

definition buy1 :: POrder where
  "buy1 = \<lparr>po_BotId = 2, po_OrderId = 8589934593, po_Type = MARKET, po_Side = BUY, po_Price = 0, po_Quantity = 3\<rparr>"

definition submitted :: "alist_tree sys" where
  "submitted = \<lparr>sy_wire = [sell1, buy1], sy_book = \<lparr>buyOrders = [], sellOrders = [], seqID = 0\<rparr>, sy_queue = [], sy_core = submit alist_ops buy1 (submit alist_ops sell1 core0),
     sy_sent = [8589934593, 4294967297]\<rparr>"

lemma submitted_reachable: "rtranclp (sys_step alist_ops ns bots st) sys0 submitted"
proof -
  define S0 where "S0 = (sys0 :: alist_tree sys)"
  define S1 where "S1 = S0\<lparr>sy_wire := sy_wire S0 @ [sell1], sy_core := submit alist_ops sell1 (sy_core S0), sy_sent := po_OrderId sell1 # sy_sent S0\<rparr>"
  have "sys_step alist_ops ns bots st S0 S1" unfolding S1_def by (rule send) (simp_all add: sell1_def S0_def sys0_def id_ok_def)
  moreover have e: "submitted = S1\<lparr>sy_wire := sy_wire S1 @ [buy1], sy_core := submit alist_ops buy1 (sy_core S1), sy_sent := po_OrderId buy1 # sy_sent S1\<rparr>"
    by (simp add: submitted_def S1_def S0_def sys0_def sell1_def buy1_def)
  have "sys_step alist_ops ns bots st S1 submitted"
    unfolding e by (rule send) (simp_all add: buy1_def sell1_def S1_def S0_def sys0_def id_ok_def)
  ultimately have "rtranclp (sys_step alist_ops ns bots st) S0 submitted" by simp
  then show ?thesis by (simp add: S0_def)
qed

theorem reference_engine_scores_100_witness:
  "\<exists>S. rtranclp (sys_step alist_ops (\<lambda>_. 7) ([] :: unit PretestBot list) 0) submitted S \<and> sy_wire S = [] \<and> sy_queue S = [] \<and>
     fst (GetCorrectnessScore (co_validator (sy_core S))) = 100"
proof -
  let ?step = "sys_step alist_ops (\<lambda>_. 7) ([] :: unit PretestBot list) 0"
  obtain S where S: "rtranclp ?step submitted S" "sy_wire S = []" "sy_queue S = []"
    using reference_engine_scores_100 [OF alist.price_tree_axioms submitted_reachable] by blast
  then have "rtranclp ?step sys0 S" using submitted_reachable by (meson rtranclp_trans)
  then show ?thesis using reference_engine_scores_100 [OF alist.price_tree_axioms] S by blast
qed

end
