(* ===== verification/Probe.thy ===== *)
theory Probe
  imports Main
begin

text \<open>
  The liveness probe in front of a fleet, in \<^verbatim>\<open>services/testing/runner.go\<close> and in \<^verbatim>\<open>bot-fleet/runner.go\<close>: an engine is
  dialled with growing pauses until it accepts a connection and stays silent or answers. \<open>A n\<close> is what
  attempt \<open>n\<close> meets and how long it takes; times are nanoseconds. The loop ends within ten seconds and 14 attempts.
\<close>

section \<open>Attempts\<close>

datatype attempt = DialFailed string | ReadTimeout | ReadFailed string | ReadData

fun probeError :: "attempt \<Rightarrow> string option" where
  \<comment> \<open>a time-out of the read means that the engine waits for data\<close>
  "probeError (DialFailed e) = Some e"
| "probeError ReadTimeout = None"
| "probeError (ReadFailed e) = Some e"
| "probeError ReadData = None"

primrec backoff :: "nat \<Rightarrow> nat" where
  "backoff 0 = 50000000"
| "backoff (Suc n) = (let b = 2 * backoff n in if b > 1000000000 then 1000000000 else b)"

lemma backoff_pos [simp]: "0 < backoff n"
  by (induction n) (auto simp: Let_def)

section \<open>The loops\<close>

function probeLoop :: "(nat \<Rightarrow> attempt \<times> nat) \<Rightarrow> nat \<Rightarrow> nat \<Rightarrow> string option \<Rightarrow> string option \<times> nat" where
  \<comment> \<open>the error and the number of attempts\<close>
  "probeLoop A n elapsed err =
     (if elapsed < 10000000000 then
        case probeError (fst (A n)) of
          None \<Rightarrow> (None, Suc n)
        | Some e \<Rightarrow> probeLoop A (Suc n) (elapsed + snd (A n) + backoff n) (Some e)
      else (err, n))"
  by pat_completeness auto

termination
  by (relation "measure (\<lambda>(A, n, elapsed, err). 10000000000 - elapsed)") (auto simp: diff_less_mono2 trans_less_add2)

declare probeLoop.simps [simp del]

function fleetProbe :: "(nat \<Rightarrow> attempt \<times> nat) \<Rightarrow> (nat \<Rightarrow> string option) \<Rightarrow> nat \<Rightarrow> nat \<Rightarrow> string option \<Rightarrow> string option \<times> nat" where
  \<comment> \<open>as above; \<open>D n\<close> is the error of the context when it ends during pause \<open>n\<close>\<close>
  "fleetProbe A D n elapsed err =
     (if elapsed < 10000000000 then
        case probeError (fst (A n)) of
          None \<Rightarrow> (None, Suc n)
        | Some e \<Rightarrow>
            (case D n of
               Some c \<Rightarrow> (Some c, Suc n)
             | None \<Rightarrow> fleetProbe A D (Suc n) (elapsed + snd (A n) + backoff n) (Some e))
      else (err, n))"
  by pat_completeness auto

termination
  by (relation "measure (\<lambda>(A, D, n, elapsed, err). 10000000000 - elapsed)") (auto simp: diff_less_mono2 trans_less_add2)

declare fleetProbe.simps [simp del]

section \<open>Bounds\<close>

lemma backoff_numeral: "backoff (numeral k) = (if 2 * backoff (pred_numeral k) > 1000000000 then 1000000000 else 2 * backoff (pred_numeral k))"
  unfolding numeral_eq_Suc [of k] backoff.simps(2) Let_def ..

lemma backoff_1: "backoff (Suc 0) = 100000000"
  by simp

lemma backoff_sum: "14 \<le> n \<Longrightarrow> 10000000000 \<le> sum backoff {..<n}"
proof -
  assume "14 \<le> n"
  then have "sum backoff {..<14} \<le> sum backoff {..<n}" by (intro sum_mono2) auto
  moreover have "sum backoff {..<14} = 10550000000" by (simp add: backoff_numeral backoff_1 lessThan_nat_numeral del: backoff.simps(2))
  ultimately show ?thesis by simp
qed

text \<open>The fleet's probe without an end of the context is the probe of the tests.\<close>

lemma fleetProbe_probeLoop: "fleetProbe A (\<lambda>n. None) n elapsed err = probeLoop A n elapsed err"
  by (induction A n elapsed err rule: probeLoop.induct)
    (subst fleetProbe.simps, subst probeLoop.simps, auto split: option.splits)

lemma probe_attempts:
  "sum backoff {..<n} \<le> elapsed \<Longrightarrow> n \<le> 14 \<Longrightarrow> snd (fleetProbe A D n elapsed err) \<le> 14"
proof (induction A D n elapsed err rule: fleetProbe.induct)
  case (1 A D n elapsed err)
  have "n < 14" if "elapsed < 10000000000"
    using backoff_sum [of n] 1(2) that by (meson leD le_less_trans not_less)
  then show ?case using 1 by (subst fleetProbe.simps) (auto split: option.splits)
qed

text \<open>The probe reports success only after an attempt that succeeded.\<close>

lemma probe_success:
  assumes "fst (probeLoop A n elapsed (Some e)) = None"
  shows "\<exists>k \<ge> n. probeError (fst (A k)) = None"
  using assms
proof (induction A n elapsed "Some e" arbitrary: e rule: probeLoop.induct)
  case (1 A n elapsed)
  show ?case
  proof (cases "probeError (fst (A n))")
    case (Some x)
    then have "elapsed < 10000000000" "fst (probeLoop A (Suc n) (elapsed + snd (A n) + backoff n) (Some x)) = None"
      using 1(2) by (auto simp: probeLoop.simps [of A n elapsed] split: if_splits)
    then show ?thesis using 1(1) [of x] Some Suc_leD by blast
  qed blast
qed

end
