(* ===== verification/Fleet_Launch.thy ===== *)
theory Fleet_Launch
  imports Fleet_Shards Go_Strings Probe
begin

text \<open>
  \<^verbatim>\<open>runFleet\<close> of \<^verbatim>\<open>bot-fleet/runner.go\<close>: the liveness probe, then one goroutine per bot with a semaphore that bounds
  how many run at a time. What a bot returns is an argument of the step in which it ends; \<open>Bot_Runner\<close> models it.
\<close>

definition maxConcurrentBots :: "(string \<Rightarrow> string) \<Rightarrow> int" where
  "maxConcurrentBots getenv =
     (let v = getenv ''MAX_CONCURRENT_BOTS'' in
      if v \<noteq> '''' then (case Atoi v of Some n \<Rightarrow> if n > 0 then n else 500 | None \<Rightarrow> 500) else 500)"

lemma maxConcurrentBots_pos: "0 < maxConcurrentBots getenv"
  by (simp add: maxConcurrentBots_def Let_def split: option.splits)

definition cleanEndpoint :: "(string \<Rightarrow> string option) \<Rightarrow> string \<Rightarrow> string" where
  \<comment> \<open>\<open>parse\<close> is the host of \<^verbatim>\<open>url.Parse\<close>\<close>
  "cleanEndpoint parse endpoint =
     (if Contains endpoint ''://'' then (case parse endpoint of Some host \<Rightarrow> host | None \<Rightarrow> endpoint) else endpoint)"

definition failedResult :: "'h hist_ops \<Rightarrow> 'r Bot \<Rightarrow> 'h BotResult" where
  "failedResult H b = \<lparr>brOrdersSent = 0, brOrdersFailed = OrdersToSend (config b), brHistogram = h_new H\<rparr>"

section \<open>The semaphore\<close>

record 'h launch =
  la_next :: nat \<comment> \<open>the bot that is started next\<close>
  la_running :: "nat list" \<comment> \<open>the bots that hold a slot\<close>
  la_results :: "'h BotResult option list"
  la_err :: bool \<comment> \<open>the error group has an error, its context is cancelled\<close>

definition beginLaunch :: "'r Bot list \<Rightarrow> 'h launch" where
  "beginLaunch bots = \<lparr>la_next = 0, la_running = [], la_results = replicate (length bots) None, la_err = False\<rparr>"

definition allFailed :: "'r Bot \<Rightarrow> 'h BotResult \<Rightarrow> bool" where
  "allFailed b r \<longleftrightarrow> brOrdersFailed r = OrdersToSend (config b) \<and> OrdersToSend (config b) > 0"

inductive launch_step :: "nat \<Rightarrow> 'r Bot list \<Rightarrow> 'h launch \<Rightarrow> 'h launch \<Rightarrow> bool" for cap bots where
  acquire: "la_next s < length bots \<Longrightarrow> length (la_running s) < cap \<Longrightarrow>
    launch_step cap bots s (s\<lparr>la_next := Suc (la_next s), la_running := la_running s @ [la_next s]\<rparr>)"
| release: "i \<in> set (la_running s) \<Longrightarrow>
    launch_step cap bots s (s\<lparr>la_running := remove1 i (la_running s), la_results := (la_results s)[i := Some r],
      la_err := (la_err s \<or> allFailed (bots ! i) r)\<rparr>)"

definition launched :: "'r Bot list \<Rightarrow> 'h launch \<Rightarrow> bool" where
  \<comment> \<open>the loop has ended and \<^verbatim>\<open>g.Wait\<close> returns\<close>
  "launched bots s \<longleftrightarrow> la_next s = length bots \<and> la_running s = []"

definition runFleet_results :: "'h hist_ops \<Rightarrow> 'r Bot list \<Rightarrow> string option \<Rightarrow> 'h launch \<Rightarrow> 'h BotResult list" where
  \<comment> \<open>the results for the error of the probe and the state at the end; a bot that never ran has the zero value\<close>
  "runFleet_results H bots probeErr s =
     (case probeErr of
        Some e \<Rightarrow> map (failedResult H) bots
      | None \<Rightarrow> map (\<lambda>r. case r of Some x \<Rightarrow> x | None \<Rightarrow> \<lparr>brOrdersSent = 0, brOrdersFailed = 0, brHistogram = h_new H\<rparr>) (la_results s))"

section \<open>Every bot runs once, within the bound\<close>

definition launch_ok :: "nat \<Rightarrow> 'r Bot list \<Rightarrow> 'h launch \<Rightarrow> bool" where
  "launch_ok cap bots s \<longleftrightarrow> length (la_running s) \<le> cap \<and> distinct (la_running s) \<and> set (la_running s) \<subseteq> {..<la_next s} \<and>
     la_next s \<le> length bots \<and> length (la_results s) = length bots \<and>
     (\<forall>i < length bots. la_results s ! i \<noteq> None \<longleftrightarrow> i < la_next s \<and> i \<notin> set (la_running s))"

lemma launch_ok_begin: "launch_ok cap bots (beginLaunch bots)"
  by (simp add: launch_ok_def beginLaunch_def)

lemma launch_ok_step: "launch_step cap bots s s' \<Longrightarrow> launch_ok cap bots s \<Longrightarrow> launch_ok cap bots s'"
proof (induction rule: launch_step.induct)
  case (acquire s)
  then show ?case by (auto simp: launch_ok_def less_Suc_eq)
next
  case (release i s r)
  have "length (remove1 i (la_running s)) \<le> cap" using release by (auto simp: launch_ok_def length_remove1)
  moreover have "set (remove1 i (la_running s)) = set (la_running s) - {i}" using release by (simp add: launch_ok_def)
  moreover have "i < la_next s" "i < length (la_results s)" using release by (auto simp: launch_ok_def)
  ultimately show ?case using release by (auto simp: launch_ok_def nth_list_update)
qed

lemma launch_ok_reachable: "(launch_step cap bots)\<^sup>*\<^sup>* (beginLaunch bots) s \<Longrightarrow> launch_ok cap bots s"
  by (induction rule: rtranclp_induct) (auto simp: launch_ok_begin intro: launch_ok_step)

text \<open>The launch makes progress until every bot has a result, and then every result is one that a bot returned.\<close>

lemma launch_progress:
  assumes "launch_ok cap bots s" "\<not> launched bots s" "0 < cap"
  shows "\<exists>s'. launch_step cap bots s s'"
proof (cases "la_running s")
  case Nil
  then have "la_next s < length bots" using assms(1,2) by (auto simp: launched_def launch_ok_def)
  then show ?thesis using launch_step.acquire [of s bots cap] Nil assms(3) by auto
next
  case (Cons i js)
  then show ?thesis using launch_step.release [of i s cap bots] by auto
qed

lemma launched_complete:
  assumes "(launch_step cap bots)\<^sup>*\<^sup>* (beginLaunch bots) s" "launched bots s" "i < length bots"
  shows "\<exists>r. la_results s ! i = Some r \<and> runFleet_results H bots None s ! i = r"
proof -
  have ok: "launch_ok cap bots s" using assms(1) by (rule launch_ok_reachable)
  then have "la_results s ! i \<noteq> None" using assms(2,3) by (auto simp: launch_ok_def launched_def)
  then obtain r where "la_results s ! i = Some r" by blast
  then show ?thesis using ok assms(3) by (auto simp: runFleet_results_def launch_ok_def)
qed

text \<open>An engine that does not listen fails every order of every bot.\<close>

lemma probe_failure_fails_all:
  "i < length bots \<Longrightarrow> brOrdersFailed (runFleet_results H bots (Some e) s ! i) = OrdersToSend (config (bots ! i)) \<and>
     brOrdersSent (runFleet_results H bots (Some e) s ! i) = 0"
  by (simp add: runFleet_results_def failedResult_def)

end
