(* ===== verification/Pretest_Fleet.thy ===== *)
theory Pretest_Fleet
  imports Pretest_Run Probe
begin

text \<open>
  The rest of \<^verbatim>\<open>RunFleet\<close> in \<^verbatim>\<open>services/testing/runner.go\<close>: its bots, the scheduler of the system test, and the
  goroutines of a run with the two wait groups, the event channel and the error group that hold them together.
  \<open>fleet_step\<close> has the steps of a run without faults and \<open>fleet_fault\<close> the failures: a connection that cannot be
  made, a limiter that gives up, the end of the context. Events are counted; what the consumer does
  with them is in \<open>Pretest_Run\<close>.
\<close>

section \<open>Bots\<close>

definition ratePerSecOf :: "(string \<Rightarrow> rat option) \<Rightarrow> (string \<Rightarrow> string) \<Rightarrow> rat" where
  \<comment> \<open>\<open>parse\<close> is \<^verbatim>\<open>strconv.ParseFloat\<close>\<close>
  "ratePerSecOf parse getenv =
     (case parse (getenv ''BOT_RATE_PER_SEC'') of Some v \<Rightarrow> if v > 0 then v else 50 | None \<Rightarrow> 50)"

definition pretestBot :: "'r rng_ops \<Rightarrow> int \<Rightarrow> rat \<Rightarrow> int \<Rightarrow> nat \<Rightarrow> 'r PretestBot option" where
  "pretestBot R ordersPerBot ratePerSec baseSeed i =
     NewPretestBot R (int i + 1) (''bot-'' @ utoa (i + 1)) ([MarketMaker, MomentumTrader, NoiseTrader] ! (i mod 3)) 100 (fl (1 / 10))
       ordersPerBot ratePerSec (wrap64 (baseSeed + int i))"

definition pretestBots :: "'r rng_ops \<Rightarrow> nat \<Rightarrow> int \<Rightarrow> rat \<Rightarrow> int \<Rightarrow> 'r PretestBot list option" where
  "pretestBots R numBots ordersPerBot ratePerSec baseSeed =
     those (map (pretestBot R ordersPerBot ratePerSec baseSeed) [0..<numBots])"

datatype adapterKind = TCP | WS | REST | FIX

definition adapterOf :: "string \<Rightarrow> adapterKind" where
  "adapterOf protocolStr =
     (let p = ToUpper protocolStr in if p = ''WS'' then WS else if p = ''REST'' then REST else if p = ''FIX'' then FIX else TCP)"

text \<open>The bots of a run have the numbers 1 to their count, which is where \<open>recordMetrics\<close> looks them up.\<close>

lemma those_Some: "those xs = Some ys \<longleftrightarrow> xs = map Some ys"
  by (induction xs arbitrary: ys) (auto split: option.splits simp: Cons_eq_map_conv)

lemma pretestBots_numbers:
  assumes "pretestBots R n k rate seed = Some bs" "i < n"
  shows "length bs = n \<and> pb_NumericID (bs ! i) = int i + 1 \<and> pb_OrdersToSend (bs ! i) = k"
proof -
  have m: "map (pretestBot R k rate seed) [0..<n] = map Some bs" using assms(1) by (simp add: pretestBots_def those_Some)
  then have l: "length bs = n" by (metis length_map length_upt minus_nat.diff_0)
  have "map (pretestBot R k rate seed) [0..<n] ! i = map Some bs ! i" using m by simp
  then have "pretestBot R k rate seed i = Some (bs ! i)" using assms(2) l by simp
  moreover have "pb_NumericID b = int i + 1 \<and> pb_OrdersToSend b = k" if "pretestBot R k rate seed i = Some b" for b
    using that by (auto simp: pretestBot_def NewPretestBot_def split: if_splits)
  ultimately show ?thesis using l by blast
qed

section \<open>The scheduler of the system test\<close>

datatype MMPPState = CalmState | ElevatedState | PanicState

record 'r MMPPScheduler =
  ms_state :: MMPPState
  ms_baseRate :: rat
  ms_rng :: 'r
  ms_lastSwitch :: int
  ms_regimeDur :: int
  ms_numBots :: int
  ms_isSystest :: bool
  ms_botID :: int
  ms_orderCount :: int

definition regime :: "'r rng_ops \<Rightarrow> 'r \<Rightarrow> int \<times> 'r" where
  "regime R r = (case rngIntn R 200 r of (d, r1) \<Rightarrow> ((100 + d) * 1000000, r1))"

definition NewMMPPScheduler :: "'r rng_ops \<Rightarrow> int \<Rightarrow> rat \<Rightarrow> int \<Rightarrow> int \<Rightarrow> bool \<Rightarrow> int \<Rightarrow> 'r MMPPScheduler" where
  "NewMMPPScheduler R now baseRate seed numBots isSystest botNum =
     (case regime R (NewSource R seed) of (d, r1) \<Rightarrow>
       \<lparr>ms_state = CalmState, ms_baseRate = baseRate, ms_rng = r1, ms_lastSwitch = now, ms_regimeDur = d, ms_numBots = numBots,
        ms_isSystest = isSystest, ms_botID = botNum, ms_orderCount = 0\<rparr>)"

fun nextRegime :: "MMPPState \<Rightarrow> rat \<Rightarrow> MMPPState" where
  "nextRegime CalmState roll = (if roll < fl (15 / 100) then ElevatedState else if roll < fl (20 / 100) then PanicState else CalmState)"
| "nextRegime ElevatedState roll = (if roll < fl (20 / 100) then CalmState else if roll < fl (30 / 100) then PanicState else ElevatedState)"
| "nextRegime PanicState roll = (if roll < fl (50 / 100) then ElevatedState else if roll < fl (70 / 100) then CalmState else PanicState)"

definition switchRegime :: "'r rng_ops \<Rightarrow> int \<Rightarrow> 'r MMPPScheduler \<Rightarrow> 'r MMPPScheduler" where
  "switchRegime R now s =
     (if now - ms_lastSwitch s \<ge> ms_regimeDur s then
        case regime R (ms_rng s) of (d, r1) \<Rightarrow>
          (case rngFloat64 R r1 of (roll, r2) \<Rightarrow>
             s\<lparr>ms_lastSwitch := now, ms_regimeDur := d, ms_rng := r2, ms_state := nextRegime (ms_state s) roll\<rparr>)
      else s)"

definition orderRate :: "'r MMPPScheduler \<Rightarrow> rat" where
  \<comment> \<open>after the order was counted\<close>
  "orderRate s =
     (let bots = float64 (if ms_numBots s \<le> 0 then 1 else ms_numBots s);
          rate = (if ms_isSystest s then
                    if ms_orderCount s \<le> 100 then fdiv 10000 bots
                    else (case ms_state s of CalmState \<Rightarrow> fdiv 1000 bots | ElevatedState \<Rightarrow> fdiv 20000 bots | PanicState \<Rightarrow> fdiv 500000 bots)
                  else (case ms_state s of CalmState \<Rightarrow> fmul (ms_baseRate s) (fl (3 / 10)) | ElevatedState \<Rightarrow> fmul (ms_baseRate s) (fl (12 / 10))
                        | PanicState \<Rightarrow> fmul (ms_baseRate s) 4)) in
      if rate \<le> 0 then 1 else rate)"

definition toDuration :: "(rat \<Rightarrow> int) \<Rightarrow> rat \<Rightarrow> int" where
  \<comment> \<open>\<open>conv\<close> is what the processor does with a value out of range\<close>
  "toDuration conv f = (if - (2 ^ 63) \<le> f \<and> f < 2 ^ 63 then trunc64 f else conv f)"

definition NextSleep :: "'r rng_ops \<Rightarrow> (rat \<Rightarrow> rat) \<Rightarrow> (rat \<Rightarrow> int) \<Rightarrow> int \<Rightarrow> 'r MMPPScheduler \<Rightarrow> int \<times> 'r MMPPScheduler" where
  "NextSleep R Log conv now s0 =
     (let s1 = switchRegime R now s0;
          s2 = (if ms_isSystest s1 then s1\<lparr>ms_orderCount := wrap64 (ms_orderCount s1 + 1)\<rparr> else s1);
          (u, r1) = rngFloat64 R (ms_rng s2);
          u1 = (if u \<ge> 1 then fl (9999 / 10000) else u);
          deltaSeconds = fdiv (- Log (fsub 1 u1)) (orderRate s2) in
      (toDuration conv (fmul deltaSeconds 1000000000), s2\<lparr>ms_rng := r1\<rparr>))"


definition log_sign :: "(rat \<Rightarrow> rat) \<Rightarrow> bool" where
  "log_sign Log \<longleftrightarrow> (\<forall>x. 0 \<le> x \<longrightarrow> x \<le> 1 \<longrightarrow> Log x \<le> 0)"

lemma orderRate_pos: "0 < orderRate s"
  by (simp add: orderRate_def Let_def)

context rng_source
begin

lemma regime_range: "regime R r = (d, r') \<Longrightarrow> 100000000 \<le> d \<and> d < 300000000"
  using intn_range [of 200 r] by (auto simp: regime_def split: prod.splits)

text \<open>A regime lasts between 100 and 300 milliseconds, also after any number of sleeps.\<close>

lemma switch_range:
  assumes "100000000 \<le> ms_regimeDur s" "ms_regimeDur s < 300000000"
  shows "100000000 \<le> ms_regimeDur (switchRegime R now s) \<and> ms_regimeDur (switchRegime R now s) < 300000000"
  using assms regime_range [of "ms_rng s"] by (auto simp: switchRegime_def split: prod.splits)

lemma NextSleep_state: "ms_regimeDur (snd (NextSleep R Log conv now s)) = ms_regimeDur (switchRegime R now s)"
  by (simp add: NextSleep_def Let_def split: prod.splits)

lemma NextSleep_nonneg:
  assumes "log_sign Log" "\<And>f. 0 \<le> f \<Longrightarrow> 0 \<le> conv f"
  shows "0 \<le> fst (NextSleep R Log conv now s)"
proof -
  have pos: "0 \<le> fst (toDuration conv (fmul (fdiv (- Log (fsub 1 u)) rate) 1000000000), x)"
    if "0 \<le> u" "u < 1" "0 < rate" for u rate and x :: "'a MMPPScheduler"
  proof -
    have "0 \<le> fsub 1 u" "fsub 1 u \<le> 1"
      using that fl64.rnd_ge_int [of 0 "1 - u"] fl64.rnd_le_int [of "1 - u" 1] by (simp_all add: fsub_def)
    then have "Log (fsub 1 u) \<le> 0" using assms(1) by (simp add: log_sign_def)
    then have "0 \<le> fdiv (- Log (fsub 1 u)) rate" using that(3) fl_nonneg [of "- Log (fsub 1 u) / rate"]
      by (simp add: fdiv_def divide_nonpos_pos)
    then have "0 \<le> fmul (fdiv (- Log (fsub 1 u)) rate) 1000000000"
      using fl64.rnd_ge_int [of 0 "fdiv (- Log (fsub 1 u)) rate * 1000000000"] by (simp add: fmul_def)
    then show ?thesis using assms(2) by (simp add: toDuration_def trunc64_def)
  qed
  have u: "\<not> 1 \<le> fst (rngFloat64 R r)" "0 \<le> fst (rngFloat64 R r)" "fst (rngFloat64 R r) < 1" for r
    using float_range [of r] by simp_all
  show ?thesis
    by (simp add: NextSleep_def Let_def split_beta u orderRate_pos pos [simplified])
qed

end


section \<open>The goroutines of a run\<close>

datatype phase = \<comment> \<open>of the goroutine of a bot\<close>
    Starting
  | Sending nat \<comment> \<open>orders that are left\<close>
  | Waiting \<comment> \<open>at \<^verbatim>\<open>sendLoopsDone.Wait\<close>\<close>
  | Returned
  | Left \<comment> \<open>returned without \<^verbatim>\<open>sendLoopsDone.Done\<close>\<close>

datatype receiver = NotStarted | Reading | Holding \<comment> \<open>it has a report to send\<close> | Stopped

record fleet =
  fl_bots :: "phase list"
  fl_receivers :: "receiver list"
  fl_orders :: nat \<comment> \<open>orders of a bot\<close>
  fl_sendLoops :: nat \<comment> \<open>the counter of \<^verbatim>\<open>sendLoopsDone\<close>\<close>
  fl_runners :: nat \<comment> \<open>the counter of \<^verbatim>\<open>botRunnersDone\<close>\<close>
  fl_queue :: nat \<comment> \<open>events in \<^verbatim>\<open>eventChan\<close>\<close>
  fl_closed :: bool
  fl_consumer :: bool \<comment> \<open>the consumer runs\<close>
  fl_cancelled :: bool
  fl_err :: bool \<comment> \<open>the error group has an error\<close>
  fl_crashed :: bool

definition startFleet :: "nat \<Rightarrow> nat \<Rightarrow> fleet" where
  "startFleet n k =
     \<lparr>fl_bots = replicate n Starting, fl_receivers = replicate n NotStarted, fl_orders = k, fl_sendLoops = n, fl_runners = n, fl_queue = 0,
      fl_closed = False, fl_consumer = True, fl_cancelled = False, fl_err = False, fl_crashed = False\<rparr>"

abbreviation setBot :: "nat \<Rightarrow> phase \<Rightarrow> fleet \<Rightarrow> fleet" where
  "setBot i p s \<equiv> s\<lparr>fl_bots := (fl_bots s)[i := p]\<rparr>"

abbreviation setReceiver :: "nat \<Rightarrow> receiver \<Rightarrow> fleet \<Rightarrow> fleet" where
  "setReceiver i p s \<equiv> s\<lparr>fl_receivers := (fl_receivers s)[i := p]\<rparr>"

definition eventCap :: nat where "eventCap = 10000"

inductive fleet_step :: "fleet \<Rightarrow> fleet \<Rightarrow> bool" where
  started: "\<not> fl_crashed s \<Longrightarrow> i < length (fl_bots s) \<Longrightarrow> fl_bots s ! i = Starting \<Longrightarrow>
    fleet_step s (setReceiver i Reading (setBot i (Sending (fl_orders s)) s))"
| sent: "\<not> fl_crashed s \<Longrightarrow> i < length (fl_bots s) \<Longrightarrow> fl_bots s ! i = Sending (Suc k) \<Longrightarrow> fleet_step s (setBot i (Sending k) s)"
| write_failed: "\<not> fl_crashed s \<Longrightarrow> i < length (fl_bots s) \<Longrightarrow> fl_bots s ! i = Sending (Suc k) \<Longrightarrow> fl_queue s < eventCap \<Longrightarrow>
    fleet_step s ((setBot i Waiting s)\<lparr>fl_queue := fl_queue s + 1, fl_sendLoops := fl_sendLoops s - 1\<rparr>)"
| loop_done: "\<not> fl_crashed s \<Longrightarrow> i < length (fl_bots s) \<Longrightarrow> fl_bots s ! i = Sending 0 \<Longrightarrow>
    fleet_step s ((setBot i Waiting s)\<lparr>fl_sendLoops := fl_sendLoops s - 1\<rparr>)"
| released: "\<not> fl_crashed s \<Longrightarrow> i < length (fl_bots s) \<Longrightarrow> fl_bots s ! i = Waiting \<Longrightarrow> fl_sendLoops s = 0 \<Longrightarrow>
    fleet_step s ((setBot i Returned s)\<lparr>fl_runners := fl_runners s - 1\<rparr>)"
| close_channel: "\<not> fl_crashed s \<Longrightarrow> fl_runners s = 0 \<Longrightarrow> \<not> fl_closed s \<Longrightarrow> fleet_step s (s\<lparr>fl_closed := True\<rparr>)"
| consumed: "\<not> fl_crashed s \<Longrightarrow> fl_consumer s \<Longrightarrow> fl_queue s = Suc q \<Longrightarrow> fleet_step s (s\<lparr>fl_queue := q\<rparr>)"
| consumer_done: "\<not> fl_crashed s \<Longrightarrow> fl_consumer s \<Longrightarrow> fl_closed s \<Longrightarrow> fl_queue s = 0 \<Longrightarrow> fleet_step s (s\<lparr>fl_consumer := False\<rparr>)"
| read: "\<not> fl_crashed s \<Longrightarrow> i < length (fl_bots s) \<Longrightarrow> fl_receivers s ! i = Reading \<Longrightarrow> fl_bots s ! i \<notin> {Returned, Left} \<Longrightarrow>
    fleet_step s (setReceiver i Holding s)"
| delivered: "\<not> fl_crashed s \<Longrightarrow> i < length (fl_bots s) \<Longrightarrow> fl_receivers s ! i = Holding \<Longrightarrow> \<not> fl_closed s \<Longrightarrow> fl_queue s < eventCap \<Longrightarrow>
    fleet_step s ((setReceiver i Reading s)\<lparr>fl_queue := fl_queue s + 1\<rparr>)"
| read_error: "\<not> fl_crashed s \<Longrightarrow> i < length (fl_bots s) \<Longrightarrow> fl_receivers s ! i = Reading \<Longrightarrow> fleet_step s (setReceiver i Stopped s)"
| send_on_closed: "\<not> fl_crashed s \<Longrightarrow> i < length (fl_bots s) \<Longrightarrow> fl_receivers s ! i = Holding \<Longrightarrow> fl_closed s \<Longrightarrow>
    fleet_step s (s\<lparr>fl_crashed := True\<rparr>)"

inductive fleet_fault :: "fleet \<Rightarrow> fleet \<Rightarrow> bool" where
  init_failed: "\<not> fl_crashed s \<Longrightarrow> i < length (fl_bots s) \<Longrightarrow> fl_bots s ! i = Starting \<Longrightarrow>
    fleet_fault s ((setBot i Left s)\<lparr>fl_runners := fl_runners s - 1, fl_cancelled := True, fl_err := True\<rparr>)"
| wait_failed: "\<not> fl_crashed s \<Longrightarrow> i < length (fl_bots s) \<Longrightarrow> fl_bots s ! i = Sending (Suc k) \<Longrightarrow>
    fleet_fault s ((setBot i Left s)\<lparr>fl_runners := fl_runners s - 1\<rparr>)"
| write_cancelled: "\<not> fl_crashed s \<Longrightarrow> i < length (fl_bots s) \<Longrightarrow> fl_bots s ! i = Sending (Suc k) \<Longrightarrow> fl_cancelled s \<Longrightarrow>
    fleet_fault s ((setBot i Waiting s)\<lparr>fl_sendLoops := fl_sendLoops s - 1\<rparr>)"
| context_done: "\<not> fl_crashed s \<Longrightarrow> fleet_fault s (s\<lparr>fl_cancelled := True\<rparr>)"
| consumer_cancelled: "\<not> fl_crashed s \<Longrightarrow> fl_consumer s \<Longrightarrow> fl_cancelled s \<Longrightarrow> fleet_fault s (s\<lparr>fl_consumer := False\<rparr>)"
| receiver_cancelled: "\<not> fl_crashed s \<Longrightarrow> i < length (fl_bots s) \<Longrightarrow> fl_receivers s ! i = Holding \<Longrightarrow> fl_cancelled s \<Longrightarrow>
    fleet_fault s (setReceiver i Stopped s)"

definition any_step :: "fleet \<Rightarrow> fleet \<Rightarrow> bool" where
  "any_step s s' \<longleftrightarrow> fleet_step s s' \<or> fleet_fault s s'"

definition finished :: "fleet \<Rightarrow> bool" where
  \<comment> \<open>\<^verbatim>\<open>g.Wait\<close> returns: the goroutines of the bots and the consumer have ended\<close>
  "finished s \<longleftrightarrow> set (fl_bots s) \<subseteq> {Returned, Left} \<and> \<not> fl_consumer s \<and> \<not> fl_crashed s"

section \<open>A run without faults can always finish\<close>

fun looping :: "phase \<Rightarrow> nat" where
  "looping Starting = 1" | "looping (Sending k) = 1" | "looping Waiting = 0" | "looping Returned = 0" | "looping Left = 1"

fun running :: "phase \<Rightarrow> nat" where
  "running Returned = 0" | "running Left = 0" | "running p = 1"

lemma sum_list_map_update:
  assumes "i < length xs"
  shows "sum_list (map f (xs[i := x])) + f (xs ! i) = sum_list (map f xs) + (f x :: nat)"
  using assms by (induction xs arbitrary: i) (auto simp: nth_Cons' split: nat.splits)

definition groups_ok :: "fleet \<Rightarrow> bool" where
  \<comment> \<open>the counters of the wait groups\<close>
  "groups_ok s \<longleftrightarrow> fl_sendLoops s = sum_list (map looping (fl_bots s)) \<and> fl_runners s = sum_list (map running (fl_bots s))"


lemma groups_ok_start: "groups_ok (startFleet n k)"
  by (simp add: groups_ok_def startFleet_def sum_list_replicate)

lemma sum_set: "i < length bs \<Longrightarrow> sum_list (map f (bs[i := p])) = sum_list (map f bs) + f p - (f (bs ! i) :: nat)"
  using sum_list_map_update [of i bs f p] by simp

lemma sum_ge: "i < length bs \<Longrightarrow> (f (bs ! i) :: nat) \<le> sum_list (map f bs)"
  by (metis elem_le_sum_list length_map nth_map)

lemma groups_ok_step:
  assumes "fleet_step s s'" "groups_ok s"
  shows "groups_ok s'"
  using assms
  by (induction rule: fleet_step.induct) (simp_all add: groups_ok_def sum_set)

lemma groups_ok_fault:
  assumes "fleet_fault s s'" "groups_ok s"
  shows "groups_ok s'"
  using assms
proof (induction rule: fleet_fault.induct)
  case (init_failed s i)
  then show ?case using sum_ge [of i "fl_bots s" looping] by (simp add: groups_ok_def sum_set)
next
  case (wait_failed s i k)
  then show ?case using sum_ge [of i "fl_bots s" looping] by (simp add: groups_ok_def sum_set)
qed (simp_all add: groups_ok_def sum_set)

definition gang_ok :: "fleet \<Rightarrow> bool" where
  "gang_ok s \<longleftrightarrow> groups_ok s \<and> Left \<notin> set (fl_bots s) \<and> (fl_consumer s \<or> fl_closed s \<and> fl_queue s = 0) \<and>
     (fl_closed s \<longrightarrow> fl_runners s = 0)"

lemma gang_ok_start: "gang_ok (startFleet n k)"
  using groups_ok_start [of n k] by (simp add: gang_ok_def) (auto simp: startFleet_def)

lemma Left_update: "p \<noteq> Left \<Longrightarrow> Left \<notin> set bs \<Longrightarrow> Left \<notin> set (bs[i := p])"
  using set_update_subset_insert [of bs i p] by auto

lemma gang_ok_step:
  assumes "fleet_step s s'" "gang_ok s"
  shows "gang_ok s'"
proof -
  have "groups_ok s'" using groups_ok_step assms by (simp add: gang_ok_def)
  moreover have "\<not> fl_closed s" if "i < length (fl_bots s)" "running (fl_bots s ! i) = 1" for i
    using assms(2) sum_ge [of i "fl_bots s" running] that by (auto simp: gang_ok_def groups_ok_def)
  ultimately show ?thesis using assms(2) by (cases rule: fleet_step.cases [OF assms(1)]) (auto simp: gang_ok_def Left_update)
qed


fun botWeight :: "nat \<Rightarrow> phase \<Rightarrow> nat" where
  "botWeight k Starting = k + 3" | "botWeight k (Sending j) = j + 2" | "botWeight k Waiting = 1" | "botWeight k Returned = 0" | "botWeight k Left = 0"

definition fleetWeight :: "fleet \<Rightarrow> nat" where
  "fleetWeight s = sum_list (map (botWeight (fl_orders s)) (fl_bots s)) + fl_queue s + (if fl_closed s then 0 else 1) + (if fl_consumer s then 1 else 0)"

lemma botWeight_step:
  assumes "i < length bs" "botWeight k p < botWeight k (bs ! i)"
  shows "sum_list (map (botWeight k) (bs[i := p])) < sum_list (map (botWeight k) bs)"
  using assms sum_list_map_update [of i bs "botWeight k" p] by simp

lemma fleet_progress:
  assumes ok: "gang_ok s" and live: "\<not> fl_crashed s" and unfinished: "\<not> finished s"
  shows "\<exists>s'. fleet_step s s' \<and> fleetWeight s' < fleetWeight s \<and> \<not> fl_crashed s'"
proof (cases "\<exists>i < length (fl_bots s). looping (fl_bots s ! i) = 1")
  case True
  then obtain i where i: "i < length (fl_bots s)" "looping (fl_bots s ! i) = 1" by blast
  have "fl_bots s ! i \<noteq> Left" using ok i(1) nth_mem by (fastforce simp: gang_ok_def)
  then consider "fl_bots s ! i = Starting" | k where "fl_bots s ! i = Sending (Suc k)" | "fl_bots s ! i = Sending 0"
    using i(2) by (metis looping.simps(3,4) phase.exhaust old.nat.exhaust zero_neq_one)
  then show ?thesis
  proof cases
    case 1
    show ?thesis using fleet_step.started [OF live i(1) 1] botWeight_step [OF i(1), of "fl_orders s" "Sending (fl_orders s)"] live 1
      by (intro exI [of _ "setReceiver i Reading (setBot i (Sending (fl_orders s)) s)"]) (simp add: fleetWeight_def)
  next
    case (2 k)
    show ?thesis using fleet_step.sent [OF live i(1) 2] botWeight_step [OF i(1), of "fl_orders s" "Sending k"] live 2
      by (intro exI [of _ "setBot i (Sending k) s"]) (simp add: fleetWeight_def)
  next
    case 3
    show ?thesis using fleet_step.loop_done [OF live i(1) 3] botWeight_step [OF i(1), of "fl_orders s" Waiting] live 3
      by (intro exI [of _ "(setBot i Waiting s)\<lparr>fl_sendLoops := fl_sendLoops s - 1\<rparr>"]) (simp add: fleetWeight_def)
  qed
next
  case False
  then have none: "looping p = 0" if "p \<in> set (fl_bots s)" for p
    using that by (metis in_set_conv_nth looping.elims)
  then have loops: "fl_sendLoops s = 0" using ok by (simp add: gang_ok_def groups_ok_def)
  show ?thesis
  proof (cases "Waiting \<in> set (fl_bots s)")
    case True
    then obtain i where i: "i < length (fl_bots s)" "fl_bots s ! i = Waiting" by (metis in_set_conv_nth)
    show ?thesis using fleet_step.released [OF live i loops] botWeight_step [OF i(1), of "fl_orders s" Returned] live i(2)
      by (intro exI [of _ "(setBot i Returned s)\<lparr>fl_runners := fl_runners s - 1\<rparr>"]) (simp add: fleetWeight_def)
  next
    case False
    then have ret: "p = Returned" if "p \<in> set (fl_bots s)" for p using none [OF that] that ok by (cases p) (auto simp: gang_ok_def)
    have "running p = 0" if "p \<in> set (fl_bots s)" for p using ret [OF that] by simp
    then have run: "fl_runners s = 0" using ok by (simp add: gang_ok_def groups_ok_def)
    have c: "fl_consumer s" using unfinished ret live by (auto simp: finished_def)
    consider "\<not> fl_closed s" | q where "fl_closed s" "fl_queue s = Suc q" | "fl_closed s" "fl_queue s = 0" by (cases "fl_queue s") auto
    then show ?thesis
    proof cases
      case 1
      then show ?thesis using fleet_step.close_channel [OF live run] live
        by (intro exI [of _ "s\<lparr>fl_closed := True\<rparr>"]) (simp add: fleetWeight_def)
    next
      case (2 q)
      then show ?thesis using fleet_step.consumed [OF live c 2(2)] live
        by (intro exI [of _ "s\<lparr>fl_queue := q\<rparr>"]) (simp add: fleetWeight_def)
    next
      case 3
      then show ?thesis using fleet_step.consumer_done [OF live c] live c
        by (intro exI [of _ "s\<lparr>fl_consumer := False\<rparr>"]) (simp add: fleetWeight_def)
    qed
  qed
qed


lemma gang_ok_reachable: "fleet_step\<^sup>*\<^sup>* (startFleet n k) s \<Longrightarrow> gang_ok s"
  by (induction rule: rtranclp_induct) (auto simp: gang_ok_start intro: gang_ok_step)

lemma can_finish: "gang_ok s \<Longrightarrow> \<not> fl_crashed s \<Longrightarrow> \<exists>s'. fleet_step\<^sup>*\<^sup>* s s' \<and> finished s'"
proof (induction "fleetWeight s" arbitrary: s rule: less_induct)
  case less
  show ?case
  proof (cases "finished s")
    case False
    obtain s' where s': "fleet_step s s'" "fleetWeight s' < fleetWeight s" "\<not> fl_crashed s'"
      using fleet_progress [OF less.prems False] by blast
    then show ?thesis using less.hyps [OF s'(2) gang_ok_step [OF s'(1) less.prems(1)] s'(3)] by (meson converse_rtranclp_into_rtranclp)
  qed blast
qed

text \<open>C14: A run in which every connection is made, no limiter gives up and the context stays alive never gets stuck: from every point
  that is reached by any interleaving of its goroutines, and at which the process lives, the error group can still return, with all bots
  released by both wait groups and the event channel closed and drained.\<close>

theorem fleet_run_can_finish:
  assumes "fleet_step\<^sup>*\<^sup>* (startFleet n k) s" "\<not> fl_crashed s"
  shows "\<exists>s'. fleet_step\<^sup>*\<^sup>* s s' \<and> finished s' \<and> set (fl_bots s') \<subseteq> {Returned} \<and> fl_closed s' \<and> fl_queue s' = 0"
proof -
  have ok: "gang_ok s" using assms(1) by (rule gang_ok_reachable)
  obtain s' where s': "fleet_step\<^sup>*\<^sup>* s s'" "finished s'" using can_finish [OF ok assms(2)] by blast
  have "gang_ok s'" using s'(1) ok by (induction rule: rtranclp_induct) (auto intro: gang_ok_step)
  then show ?thesis using s' by (auto simp: finished_def gang_ok_def)
qed

lemma one_bot_sends: "fleet_step\<^sup>*\<^sup>* (startFleet 2 (Suc 0)) ((startFleet 2 (Suc 0))\<lparr>fl_bots := [Waiting, Starting], fl_receivers := [Reading, NotStarted], fl_sendLoops := 1\<rparr>)"
proof -
  let ?s = "startFleet 2 (Suc 0)"
  let ?s1 = "setReceiver 0 Reading (setBot 0 (Sending (fl_orders ?s)) ?s)"
  let ?s2 = "setBot 0 (Sending 0) ?s1"
  have b: "fl_bots ?s = [Starting, Starting]" "fl_receivers ?s = [NotStarted, NotStarted]" "fl_orders ?s = 1" "fl_sendLoops ?s = 2" "\<not> fl_crashed ?s"
    by (simp_all add: startFleet_def numeral_2_eq_2)
  have "fleet_step ?s ?s1" by (rule fleet_step.started) (simp_all add: b)
  moreover have "fleet_step ?s1 ?s2" by (rule fleet_step.sent) (simp_all add: b)
  moreover have "fleet_step ?s2 ((setBot 0 Waiting ?s2)\<lparr>fl_sendLoops := fl_sendLoops ?s2 - 1\<rparr>)" by (rule fleet_step.loop_done) (simp_all add: b)
  moreover have "(setBot 0 Waiting ?s2)\<lparr>fl_sendLoops := fl_sendLoops ?s2 - 1\<rparr> =
      ?s\<lparr>fl_bots := [Waiting, Starting], fl_receivers := [Reading, NotStarted], fl_sendLoops := 1\<rparr>" by (simp add: b)
  ultimately show ?thesis by (metis (no_types, lifting) rtranclp.rtrancl_into_rtrancl rtranclp.rtrancl_refl)
qed

theorem fleet_run_can_finish_witness:
  "\<exists>s'. fleet_step\<^sup>*\<^sup>* ((startFleet 2 (Suc 0))\<lparr>fl_bots := [Waiting, Starting], fl_receivers := [Reading, NotStarted], fl_sendLoops := 1\<rparr>) s' \<and> finished s' \<and>
     set (fl_bots s') \<subseteq> {Returned} \<and> fl_closed s' \<and> fl_queue s' = 0"
  using fleet_run_can_finish [OF one_bot_sends] by (simp add: startFleet_def)

section \<open>A bot that leaves early blocks the run for ever\<close>

definition blocked :: "fleet \<Rightarrow> bool" where
  "blocked s \<longleftrightarrow> groups_ok s \<and> Left \<in> set (fl_bots s) \<and> Waiting \<in> set (fl_bots s)"

lemma blocked_loops: "blocked s \<Longrightarrow> 0 < fl_sendLoops s"
  by (metis blocked_def groups_ok_def in_set_conv_nth less_one linorder_not_less looping.simps(5) sum_ge zero_less_iff_neq_zero)

lemma keeps_member: "i < length bs \<Longrightarrow> x \<in> set bs \<Longrightarrow> bs ! i \<noteq> x \<Longrightarrow> x \<in> set (bs[i := p])"
  by (metis in_set_conv_nth length_list_update nth_list_update_neq)

lemma blocked_step:
  assumes "any_step s s'" "blocked s"
  shows "blocked s'"
proof -
  have g: "groups_ok s'" using assms groups_ok_step groups_ok_fault by (auto simp: any_step_def blocked_def)
  have l: "fl_sendLoops s \<noteq> 0" using blocked_loops [OF assms(2)] by simp
  from assms(1) show ?thesis unfolding any_step_def
  proof
    assume "fleet_step s s'"
    then show ?thesis using g l assms(2) by (cases rule: fleet_step.cases) (auto simp: blocked_def keeps_member)
  next
    assume "fleet_fault s s'"
    then show ?thesis using g assms(2) by (cases rule: fleet_fault.cases) (auto simp: blocked_def keeps_member set_update_memI)
  qed
qed

text \<open>C15: A bot whose connection fails, or whose limiter gives up, returns without \<^verbatim>\<open>sendLoopsDone.Done\<close>. Once another bot waits for the
  wait group, the run never ends again, whatever happens afterwards, the end of the context included: \<^verbatim>\<open>RunFleet\<close> does not return.\<close>

theorem early_exit_blocks_run:
  assumes "any_step\<^sup>*\<^sup>* (startFleet n k) s" "Left \<in> set (fl_bots s)" "Waiting \<in> set (fl_bots s)" "any_step\<^sup>*\<^sup>* s s'"
  shows "\<not> finished s'"
proof -
  have "groups_ok s" using assms(1)
    by (induction rule: rtranclp_induct) (auto simp: groups_ok_start any_step_def intro: groups_ok_step groups_ok_fault)
  then have "blocked s" using assms(2,3) by (simp add: blocked_def)
  with assms(4) have "blocked s'" by (induction rule: rtranclp_induct) (auto intro: blocked_step)
  then show ?thesis by (auto simp: blocked_def finished_def)
qed


definition stuck0 :: fleet where
  \<comment> \<open>the first bot has sent its order, the connection of the second one failed, the context has ended\<close>
  "stuck0 = (startFleet 2 (Suc 0))\<lparr>fl_bots := [Waiting, Left], fl_receivers := [Reading, NotStarted], fl_sendLoops := 1, fl_runners := 1,
     fl_cancelled := True, fl_err := True\<rparr>"

lemma stuck0_reached: "any_step\<^sup>*\<^sup>* (startFleet 2 (Suc 0)) stuck0"
proof -
  let ?s = "(startFleet 2 (Suc 0))\<lparr>fl_bots := [Waiting, Starting], fl_receivers := [Reading, NotStarted], fl_sendLoops := 1\<rparr>"
  have "fleet_fault ?s ((setBot 1 Left ?s)\<lparr>fl_runners := fl_runners ?s - 1, fl_cancelled := True, fl_err := True\<rparr>)"
    by (rule fleet_fault.init_failed) (simp_all add: startFleet_def)
  then have "any_step ?s stuck0" by (simp add: any_step_def stuck0_def startFleet_def)
  moreover have "any_step\<^sup>*\<^sup>* (startFleet 2 (Suc 0)) ?s"
    by (rule mono_rtranclp [rule_format, OF _ one_bot_sends]) (simp add: any_step_def)
  ultimately show ?thesis by (rule rtranclp.rtrancl_into_rtrancl [rotated])
qed

theorem early_exit_blocks_run_witness: "any_step\<^sup>*\<^sup>* stuck0 (stuck0\<lparr>fl_consumer := False\<rparr>) \<and> \<not> finished (stuck0\<lparr>fl_consumer := False\<rparr>)"
proof -
  have "fleet_fault stuck0 (stuck0\<lparr>fl_consumer := False\<rparr>)"
    by (rule fleet_fault.consumer_cancelled) (simp_all add: stuck0_def startFleet_def)
  then have r: "any_step\<^sup>*\<^sup>* stuck0 (stuck0\<lparr>fl_consumer := False\<rparr>)" by (simp add: any_step_def r_into_rtranclp)
  have "Left \<in> set (fl_bots stuck0)" "Waiting \<in> set (fl_bots stuck0)" by (simp_all add: stuck0_def)
  from r early_exit_blocks_run [OF stuck0_reached this r] show ?thesis ..
qed

section \<open>A report that arrives at the end crashes the process\<close>

text \<open>The receivers are in no wait group: one that holds a report when the last bot has closed its connection and the channel is closed
  sends on a closed channel, which panics. A run of one bot without any fault shows it.\<close>

lemma late_report_crashes: "\<exists>s. fleet_step\<^sup>*\<^sup>* (startFleet 1 0) s \<and> fl_crashed s"
proof -
  let ?s = "startFleet (Suc 0) 0"
  let ?s1 = "setReceiver 0 Reading (setBot 0 (Sending (fl_orders ?s)) ?s)"
  let ?s2 = "setReceiver 0 Holding ?s1"
  let ?s3 = "(setBot 0 Waiting ?s2)\<lparr>fl_sendLoops := fl_sendLoops ?s2 - 1\<rparr>"
  let ?s4 = "(setBot 0 Returned ?s3)\<lparr>fl_runners := fl_runners ?s3 - 1\<rparr>"
  have b: "fl_bots ?s = [Starting]" "fl_receivers ?s = [NotStarted]" "fl_orders ?s = 0" "fl_sendLoops ?s = 1" "fl_runners ?s = 1"
      "\<not> fl_crashed ?s" "\<not> fl_closed ?s" by (simp_all add: startFleet_def)
  have "fleet_step ?s ?s1" by (rule fleet_step.started) (simp_all add: b)
  moreover have "fleet_step ?s1 ?s2" by (rule fleet_step.read) (simp_all add: b)
  moreover have "fleet_step ?s2 ?s3" by (rule fleet_step.loop_done) (simp_all add: b)
  moreover have "fleet_step ?s3 ?s4" by (rule fleet_step.released) (simp_all add: b)
  moreover have "fleet_step ?s4 (?s4\<lparr>fl_closed := True\<rparr>)" by (rule fleet_step.close_channel) (simp_all add: b)
  moreover have "fleet_step (?s4\<lparr>fl_closed := True\<rparr>) (?s4\<lparr>fl_closed := True\<rparr>\<lparr>fl_crashed := True\<rparr>)"
    by (rule fleet_step.send_on_closed [of _ 0]) (simp_all add: b)
  ultimately have "fleet_step\<^sup>*\<^sup>* ?s (?s4\<lparr>fl_closed := True\<rparr>\<lparr>fl_crashed := True\<rparr>)"
    by (meson rtranclp.rtrancl_into_rtrancl rtranclp.rtrancl_refl)
  then show ?thesis by (intro exI [of _ "?s4\<lparr>fl_closed := True\<rparr>\<lparr>fl_crashed := True\<rparr>"]) simp
qed

end
