(* ===== verification/Rest_Adapter.thy ===== *)
theory Rest_Adapter
  imports Engine_Run Engine_Wire
begin

text \<open>
  The sending side of the WebSocket and REST adapters of \<^verbatim>\<open>services/testing/runner.go\<close>. Both send an order as the JSON
  document that the engines decode. The REST adapter answers as soon as the order is in its channel; 50
  workers take orders from there and post them. The time of the workers is the step relation \<open>rest_step\<close>.
\<close>

section \<open>Addresses and documents\<close>

definition wsURL :: "string \<Rightarrow> string" where
  "wsURL endpoint = (if \<not> HasPrefix endpoint ''ws://'' \<and> \<not> HasPrefix endpoint ''wss://'' then ''ws://'' @ endpoint else endpoint)"

definition httpURL :: "string \<Rightarrow> string" where
  "httpURL endpoint = (if \<not> HasPrefix endpoint ''http://'' \<and> \<not> HasPrefix endpoint ''https://'' then ''http://'' @ endpoint else endpoint)"

definition restOrderMap :: "POrder \<Rightarrow> WSOrder" where
  \<comment> \<open>the document by its members, as an engine decodes it\<close>
  "restOrderMap ord =
     \<lparr>ws_BotID = po_BotId ord, ws_OrderID = po_OrderId ord, ws_Type = typeString (po_Type ord), ws_Side = sideString (po_Side ord),
      ws_Price = po_Price ord, ws_Quantity = po_Quantity ord\<rparr>"


text \<open>What the engine decodes is the order of the binary protocol: the three transports agree on every order.\<close>

lemma json_order_agrees: "wsOrder conn (restOrderMap ord) = (engineOrder ord)\<lparr>eo_Conn := conn\<rparr>"
  by (cases "po_Type ord"; cases "po_Side ord") (simp_all add: wsOrder_def restOrderMap_def engineOrder_def typeString_def sideString_def)

definition WS_SendOrder :: "bool \<Rightarrow> POrder \<Rightarrow> WSOrder list \<Rightarrow> bool \<times> WSOrder list" where
  \<comment> \<open>the messages written so far; whether the write succeeds\<close>
  "WS_SendOrder ok ord out = (if ok then (True, out @ [restOrderMap ord]) else (False, out))"

section \<open>The REST adapter\<close>

record RESTAdapter =
  ra_orderChan :: "POrder list"
  ra_busy :: "POrder list" \<comment> \<open>what the workers are posting\<close>
  ra_cancelled :: bool \<comment> \<open>the context of the adapter\<close>
  ra_closed :: bool
  ra_posted :: "POrder list" \<comment> \<open>in the order in which the engine gets them\<close>
  ra_lost :: "POrder list"

definition REST_Init :: RESTAdapter where
  "REST_Init = \<lparr>ra_orderChan = [], ra_busy = [], ra_cancelled = False, ra_closed = False, ra_posted = [], ra_lost = []\<rparr>"

definition numWorkers :: nat where "numWorkers = 50"
definition orderCap :: nat where "orderCap = 50000"

datatype sendCase = AdapterDone | ContextDone | Enqueue

definition readyCases :: "bool \<Rightarrow> RESTAdapter \<Rightarrow> sendCase list" where
  "readyCases ctxDone a =
     (if ra_cancelled a then [AdapterDone] else []) @ (if ctxDone then [ContextDone] else []) @
     (if length (ra_orderChan a) < orderCap then [Enqueue] else [])"

definition REST_SendOrder :: "nat \<Rightarrow> bool \<Rightarrow> POrder \<Rightarrow> RESTAdapter \<Rightarrow> string option \<times> RESTAdapter" where
  \<comment> \<open>the error; \<open>pick\<close> is the choice of the select among the ready cases\<close>
  "REST_SendOrder pick ctxDone ord a =
     (let cs = readyCases ctxDone a in
      if cs = [] then (Some ''RESTAdapter order channel buffer full'', a)
      else case cs ! (pick mod length cs) of
        Enqueue \<Rightarrow> (None, a\<lparr>ra_orderChan := ra_orderChan a @ [ord]\<rparr>)
      | _ \<Rightarrow> (Some ''context canceled'', a))"

definition REST_Close :: "RESTAdapter \<Rightarrow> RESTAdapter" where
  \<comment> \<open>then it waits until the workers have emptied the channel\<close>
  "REST_Close a = a\<lparr>ra_cancelled := True, ra_closed := True\<rparr>"

inductive rest_step :: "RESTAdapter \<Rightarrow> RESTAdapter \<Rightarrow> bool" where
  take: "ra_orderChan a = ord # q \<Longrightarrow> length (ra_busy a) < numWorkers \<Longrightarrow>
    rest_step a (a\<lparr>ra_orderChan := q, ra_busy := ra_busy a @ [ord]\<rparr>)"
| post: "ra_busy a = xs @ ord # ys \<Longrightarrow> \<not> ra_cancelled a \<Longrightarrow> rest_step a (a\<lparr>ra_busy := xs @ ys, ra_posted := ra_posted a @ [ord]\<rparr>)"
| drop: "ra_busy a = xs @ ord # ys \<Longrightarrow> rest_step a (a\<lparr>ra_busy := xs @ ys, ra_lost := ra_lost a @ [ord]\<rparr>)"

inductive_cases rest_stepE: "rest_step a a'"

definition accepted :: "RESTAdapter \<Rightarrow> POrder multiset" where
  "accepted a = mset (ra_orderChan a) + mset (ra_busy a) + mset (ra_posted a) + mset (ra_lost a)"

text \<open>The workers neither invent nor repeat orders.\<close>

lemma rest_step_accepted: "rest_step a a' \<Longrightarrow> accepted a' = accepted a"
  by (induction rule: rest_step.induct) (auto simp: accepted_def)

lemma send_accepted:
  "REST_SendOrder pick ctxDone ord a = (e, a') \<Longrightarrow> accepted a' = (if e = None then add_mset ord (accepted a) else accepted a)"
  by (auto simp: REST_SendOrder_def Let_def accepted_def split: if_splits sendCase.splits)

definition drained :: "RESTAdapter \<Rightarrow> bool" where
  "drained a \<longleftrightarrow> ra_orderChan a = [] \<and> ra_busy a = []"

lemma closed_posts: "rest_step\<^sup>*\<^sup>* a a' \<Longrightarrow> ra_cancelled a \<Longrightarrow> ra_cancelled a' \<and> ra_posted a' = ra_posted a"
  by (induction rule: rtranclp_induct) (auto elim!: rest_stepE)

lemma rest_steps_accepted: "rest_step\<^sup>*\<^sup>* a a' \<Longrightarrow> accepted a' = accepted a"
  by (induction rule: rtranclp_induct) (auto dest: rest_step_accepted)

text \<open>Orders that wait in the channel when the adapter is closed are never posted, although \<^verbatim>\<open>SendOrder\<close> accepted them and they count
  as sent: the context of their requests has ended before the workers get to them.\<close>

lemma close_loses_queued_orders:
  assumes "rest_step\<^sup>*\<^sup>* (REST_Close a) a'" "drained a'"
  shows "ra_posted a' = ra_posted a \<and> mset (ra_lost a') = mset (ra_orderChan a) + mset (ra_busy a) + mset (ra_lost a)"
  using closed_posts [OF assms(1)] rest_steps_accepted [OF assms(1)] assms(2)
  by (simp add: REST_Close_def accepted_def drained_def)

lemma drain_weight: "\<exists>a'. rest_step\<^sup>*\<^sup>* a a' \<and> drained a'"
proof (induction "2 * length (ra_orderChan a) + length (ra_busy a)" arbitrary: a rule: less_induct)
  case less
  consider (busy) ord ys where "ra_busy a = ord # ys" | (wait) ord q where "ra_busy a = []" "ra_orderChan a = ord # q" | (empty) "drained a"
    by (cases "ra_busy a"; cases "ra_orderChan a") (auto simp: drained_def)
  then show ?case
  proof cases
    case busy
    have "rest_step a (a\<lparr>ra_busy := ys, ra_lost := ra_lost a @ [ord]\<rparr>)" using rest_step.drop [of a "[]" ord ys] busy by simp
    moreover obtain a' where "rest_step\<^sup>*\<^sup>* (a\<lparr>ra_busy := ys, ra_lost := ra_lost a @ [ord]\<rparr>) a'" "drained a'"
      using less [of "a\<lparr>ra_busy := ys, ra_lost := ra_lost a @ [ord]\<rparr>"] busy by auto
    ultimately show ?thesis by (meson converse_rtranclp_into_rtranclp)
  next
    case wait
    have "rest_step a (a\<lparr>ra_orderChan := q, ra_busy := [ord]\<rparr>)" using rest_step.take [OF wait(2)] wait by (simp add: numWorkers_def)
    moreover obtain a' where "rest_step\<^sup>*\<^sup>* (a\<lparr>ra_orderChan := q, ra_busy := [ord]\<rparr>) a'" "drained a'"
      using less [of "a\<lparr>ra_orderChan := q, ra_busy := [ord]\<rparr>"] wait by auto
    ultimately show ?thesis by (meson converse_rtranclp_into_rtranclp)
  next
    case empty
    then show ?thesis by blast
  qed
qed

text \<open>Two orders of one bot can reach the engine in the other order, since two workers post them: a cancellation can overtake its order.\<close>

lemma rest_orders_overtake:
  assumes "ra_orderChan a = [o1, o2]" "ra_busy a = []" "\<not> ra_cancelled a"
  shows "\<exists>a'. rest_step\<^sup>*\<^sup>* a a' \<and> ra_posted a' = ra_posted a @ [o2, o1]"
proof -
  let ?a1 = "a\<lparr>ra_orderChan := [o2], ra_busy := [o1]\<rparr>"
  let ?a2 = "?a1\<lparr>ra_orderChan := [], ra_busy := [o1, o2]\<rparr>"
  let ?a3 = "?a2\<lparr>ra_busy := [o1], ra_posted := ra_posted a @ [o2]\<rparr>"
  let ?a4 = "?a3\<lparr>ra_busy := [], ra_posted := ra_posted a @ [o2, o1]\<rparr>"
  have "rest_step a ?a1" using rest_step.take [OF assms(1)] assms(2) by (simp add: numWorkers_def)
  moreover have "rest_step ?a1 ?a2" using rest_step.take [of ?a1 o2 "[]"] by (simp add: numWorkers_def)
  moreover have "rest_step ?a2 ?a3" using rest_step.post [of ?a2 "[o1]" o2 "[]"] assms(3) by simp
  moreover have "rest_step ?a3 ?a4" using rest_step.post [of ?a3 "[]" o1 "[]"] assms(3) by simp
  ultimately have "rest_step\<^sup>*\<^sup>* a ?a4" by (meson converse_rtranclp_into_rtranclp rtranclp.rtrancl_refl)
  then show ?thesis by (intro exI [of _ ?a4]) simp
qed

end
