(* ===== verification/Platform.thy ===== *)
theory Platform
  imports Verdict Go_Strings
begin

text \<open>
  The state that the gateway, the compiler and the test workers share: the tables of
  \<^verbatim>\<open>migrations/\<close> and the Redis streams, with the queue helpers of \<^verbatim>\<open>services/common\<close>.

  \<^item> A table is the list of its rows in the order of insertion; a statement of the sources is a
    function on tables, with the keys and references of the schema checked by inserts.
  \<^item> Redis is not part of the sources: its commands are the fields of \<open>redis_ops\<close>, and the
    locale \<open>redis_streams\<close> states what their documentation promises about the undelivered and the
    pending entries of a stream. \<open>redis_answers\<close> adds that no command fails. Both are
    interpreted on a list model of a server.
  \<^item> A \<^verbatim>\<open>map[string]interface{}\<close> of a message holds strings only, as Redis returns it.
\<close>

section \<open>Tables\<close>

datatype diag = \<comment> \<open>the column \<^verbatim>\<open>diagnostics\<close>\<close>
    DiagEmpty
  | DiagError string "string option" \<comment> \<open>the error, the logs of the sandbox\<close>
  | DiagRun Diagnostics rat rat "rat list" string \<comment> \<open>with deviation, bonus, scores and logs of the runs\<close>

record SubmissionRow =
  sub_id :: string
  sub_contestant_id :: string
  sub_status :: string
  sub_verdict :: string
  sub_diagnostics :: diag
  sub_composite_score :: rat
  sub_correctness_score :: rat
  sub_p50_us :: int
  sub_p90_us :: int
  sub_p99_us :: int
  sub_actual_tps :: rat
  sub_s3_path :: string
  sub_github_url :: "string option"
  sub_user_id :: "string option"
  sub_arena_id :: "string option"
  sub_created_at :: int
  sub_updated_at :: int

record UserRow =
  usr_id :: string
  usr_handle :: string
  usr_email :: "string option"
  usr_password_hash :: "string option"
  usr_github_id :: "string option"
  usr_role :: string

record ArenaRow =
  ar_id :: string
  ar_title :: string
  ar_description :: string
  ar_status :: string
  ar_start_time :: int
  ar_end_time :: int

record DB =
  submissions :: "SubmissionRow list"
  submission_sources :: "(string \<times> string) list"
  users :: "UserRow list"
  arenas :: "ArenaRow list"
  arena_registrations :: "(string \<times> string) list" \<comment> \<open>arena and user, in the order of registration\<close>

definition newSubmission :: "int \<Rightarrow> string \<Rightarrow> string \<Rightarrow> string \<Rightarrow> SubmissionRow" where
  \<comment> \<open>a row with the defaults of the columns that an insert does not name\<close>
  "newSubmission now i contestant s3Path =
     \<lparr>sub_id = i, sub_contestant_id = contestant, sub_status = ''queued'', sub_verdict = ''Pending'', sub_diagnostics = DiagEmpty,
      sub_composite_score = 0, sub_correctness_score = 0, sub_p50_us = 0, sub_p90_us = 0, sub_p99_us = 0, sub_actual_tps = 0,
      sub_s3_path = s3Path, sub_github_url = None, sub_user_id = None, sub_arena_id = None,
      sub_created_at = now, sub_updated_at = now\<rparr>"

definition references_ok :: "SubmissionRow \<Rightarrow> DB \<Rightarrow> bool" where
  \<comment> \<open>the foreign keys of \<^verbatim>\<open>submissions\<close>\<close>
  "references_ok r db \<longleftrightarrow>
     (case sub_user_id r of None \<Rightarrow> True | Some u \<Rightarrow> u \<in> usr_id ` set (users db)) \<and>
     (case sub_arena_id r of None \<Rightarrow> True | Some a \<Rightarrow> a \<in> ar_id ` set (arenas db))"

definition insertSubmission :: "SubmissionRow \<Rightarrow> DB \<Rightarrow> DB option" where
  "insertSubmission r db =
     (if sub_id r \<in> sub_id ` set (submissions db) \<or> \<not> references_ok r db then None
      else Some (db\<lparr>submissions := submissions db @ [r]\<rparr>))"

definition insertSource :: "string \<Rightarrow> string \<Rightarrow> DB \<Rightarrow> DB option" where
  "insertSource i src db =
     (if i \<in> fst ` set (submission_sources db) \<or> i \<notin> sub_id ` set (submissions db) then None
      else Some (db\<lparr>submission_sources := submission_sources db @ [(i, src)]\<rparr>))"

definition updateSubmission :: "int \<Rightarrow> string \<Rightarrow> (SubmissionRow \<Rightarrow> SubmissionRow) \<Rightarrow> DB \<Rightarrow> DB" where
  \<comment> \<open>\<^verbatim>\<open>UPDATE submissions SET ... WHERE id = i\<close>; the trigger of the table sets \<^verbatim>\<open>updated_at\<close>\<close>
  "updateSubmission now i f db =
     db\<lparr>submissions := map (\<lambda>r. if sub_id r = i then (f r)\<lparr>sub_updated_at := now\<rparr> else r) (submissions db)\<rparr>"

definition setStatus :: "string \<Rightarrow> SubmissionRow \<Rightarrow> SubmissionRow" where
  "setStatus st r = r\<lparr>sub_status := st\<rparr>"

definition setFailed :: "string \<Rightarrow> diag \<Rightarrow> SubmissionRow \<Rightarrow> SubmissionRow" where
  "setFailed v d r = r\<lparr>sub_status := ''failed'', sub_verdict := v, sub_diagnostics := d\<rparr>"

definition findSubmission :: "string \<Rightarrow> DB \<Rightarrow> SubmissionRow option" where
  "findSubmission i db = find (\<lambda>r. sub_id r = i) (submissions db)"

section \<open>Redis\<close>

type_synonym valmap = "(string \<times> string) list"

record XMessage =
  msg_ID :: string
  msg_Values :: valmap

record 'q redis_ops =
  XAdd :: "string \<Rightarrow> valmap \<Rightarrow> 'q \<Rightarrow> bool \<times> 'q"
  XReadGroup :: "string \<Rightarrow> string \<Rightarrow> string \<Rightarrow> 'q \<Rightarrow> XMessage option \<times> 'q" \<comment> \<open>the ID \<^verbatim>\<open>>\<close>, one message\<close>
  XAck :: "string \<Rightarrow> string \<Rightarrow> string \<Rightarrow> 'q \<Rightarrow> bool \<times> 'q"
  XDel :: "string \<Rightarrow> string \<Rightarrow> 'q \<Rightarrow> bool \<times> 'q"
  XPendingExt :: "string \<Rightarrow> string \<Rightarrow> nat \<Rightarrow> 'q \<Rightarrow> (string \<times> int) list option" \<comment> \<open>ID and idle time\<close>
  XClaim :: "string \<Rightarrow> string \<Rightarrow> string \<Rightarrow> int \<Rightarrow> string \<Rightarrow> 'q \<Rightarrow> bool \<times> 'q"
  XLen :: "string \<Rightarrow> 'q \<Rightarrow> int"
  XGroupCreateMkStream :: "string \<Rightarrow> string \<Rightarrow> 'q \<Rightarrow> string option \<times> 'q" \<comment> \<open>the error\<close>
  Del :: "string list \<Rightarrow> 'q \<Rightarrow> bool \<times> 'q"
  SetNX :: "string \<Rightarrow> int \<Rightarrow> int \<Rightarrow> 'q \<Rightarrow> bool option \<times> 'q" \<comment> \<open>key, expiration, the time now\<close>
  TTL :: "string \<Rightarrow> int \<Rightarrow> 'q \<Rightarrow> int option"

definition CompilationQueue :: string where "CompilationQueue = ''compilation_queue''"
definition CompilationGroup :: string where "CompilationGroup = ''compiler_group''"
definition PretestQueue :: string where "PretestQueue = ''pretest_queue''"
definition PretestGroup :: string where "PretestGroup = ''pretest_group''"
definition SystestQueue :: string where "SystestQueue = ''systest_queue''"
definition SystestGroup :: string where "SystestGroup = ''systest_group''"
definition DeadLetterQueue :: string where "DeadLetterQueue = ''dead_letter_queue''"
definition MaxRetries :: int where "MaxRetries = 3"

lemmas queue_names = CompilationQueue_def CompilationGroup_def PretestQueue_def PretestGroup_def
  SystestQueue_def SystestGroup_def DeadLetterQueue_def

definition groupOf :: "string \<Rightarrow> string" where
  \<comment> \<open>the one consumer group of each queue\<close>
  "groupOf stream =
     (if stream = CompilationQueue then CompilationGroup
      else if stream = PretestQueue then PretestGroup else SystestGroup)"

fun initQueues :: "'q redis_ops \<Rightarrow> (string \<times> string) list \<Rightarrow> 'q \<Rightarrow> string option \<times> 'q" where
  "initQueues R [] q = (None, q)"
| "initQueues R ((stream, grp) # qs) q =
     (case XGroupCreateMkStream R stream grp q of
        (None, q1) \<Rightarrow> initQueues R qs q1
      | (Some err, q1) \<Rightarrow>
          if err = ''BUSYGROUP Consumer Group name already exists'' then initQueues R qs q1
          else (Some (''failed to create group '' @ grp @ '' on '' @ stream @ '': '' @ err), q1))"

definition InitRedisQueues :: "'q redis_ops \<Rightarrow> 'q \<Rightarrow> string option \<times> 'q" where
  "InitRedisQueues R q =
     initQueues R [(CompilationQueue, CompilationGroup), (PretestQueue, PretestGroup), (SystestQueue, SystestGroup)] q"

definition AckAndDel :: "'q redis_ops \<Rightarrow> string \<Rightarrow> string \<Rightarrow> string \<Rightarrow> 'q \<Rightarrow> bool \<times> 'q" where
  "AckAndDel R stream grp i q =
     (case XAck R stream grp i q of
        (False, q1) \<Rightarrow> (False, q1)
      | (True, q1) \<Rightarrow> XDel R stream i q1)"

definition atoiValue :: "string \<Rightarrow> int" where
  \<comment> \<open>the value \<^verbatim>\<open>strconv.Atoi\<close> returns beside an error: 0 for bad syntax, the nearest int when out of range\<close>
  "atoiValue s =
     (let (neg, ds) = (case s of [] \<Rightarrow> (False, []) | c # cs \<Rightarrow> if c = CHR ''-'' then (True, cs) else if c = CHR ''+'' then (False, cs) else (False, s)) in
      if ds = [] \<or> \<not> list_all is_digit ds then 0
      else if neg then max (- (2 ^ 63)) (- int (atou ds)) else min (2 ^ 63 - 1) (int (atou ds)))"

definition retryCountOf :: "valmap \<Rightarrow> int" where
  "retryCountOf vs = atoiValue (get_or '''' vs ''retry_count'')"

definition ShouldRetry :: "'q redis_ops \<Rightarrow> string \<Rightarrow> string \<Rightarrow> string \<Rightarrow> valmap \<Rightarrow> string \<Rightarrow> 'q \<Rightarrow> bool \<times> 'q" where
  "ShouldRetry R stream grp i vs err q =
     (let retryCount = retryCountOf vs in
      if retryCount \<ge> MaxRetries
      then let vs1 = AList.update ''failure_reason'' err (AList.update ''original_stream'' stream vs);
               q1 = snd (XAdd R DeadLetterQueue vs1 q) in
           (False, snd (AckAndDel R stream grp i q1))
      else let vs1 = AList.update ''retry_count'' (Itoa (retryCount + 1)) vs;
               q1 = snd (XAdd R stream vs1 q) in
           (True, snd (AckAndDel R stream grp i q1)))"

fun claimStale :: "'q redis_ops \<Rightarrow> string \<Rightarrow> string \<Rightarrow> string \<Rightarrow> int \<Rightarrow> (string \<times> int) list \<Rightarrow> 'q \<Rightarrow> 'q" where
  "claimStale R stream grp consumer maxPendingAge [] q = q"
| "claimStale R stream grp consumer maxPendingAge ((i, idle) # ps) q =
     claimStale R stream grp consumer maxPendingAge ps
       (if idle \<ge> maxPendingAge then snd (XClaim R stream grp consumer maxPendingAge i q) else q)"

definition pelRecoveryTick :: "'q redis_ops \<Rightarrow> string \<Rightarrow> string \<Rightarrow> string \<Rightarrow> int \<Rightarrow> 'q \<Rightarrow> 'q" where
  "pelRecoveryTick R stream grp consumer maxPendingAge q =
     (case XPendingExt R stream grp 10 q of
        None \<Rightarrow> q
      | Some pending \<Rightarrow> claimStale R stream grp consumer maxPendingAge pending q)"

definition rateKey :: "string \<Rightarrow> string" where
  "rateKey contestantID = ''rate_limit:'' @ contestantID"

lemma rateKey_inject [simp]: "rateKey i = rateKey j \<longleftrightarrow> i = j"
  by (simp add: rateKey_def)

definition CheckRateLimit :: "'q redis_ops \<Rightarrow> int \<Rightarrow> string \<Rightarrow> 'q \<Rightarrow> (bool \<times> int) option \<times> 'q" where
  \<comment> \<open>times in nanoseconds; \<^verbatim>\<open>None\<close> is the error of a command\<close>
  "CheckRateLimit R now contestantID q =
     (let key = rateKey contestantID in
      case SetNX R key (60 * 1000000000) now q of
        (None, q1) \<Rightarrow> (None, q1)
      | (Some True, q1) \<Rightarrow> (Some (True, 0), q1)
      | (Some False, q1) \<Rightarrow>
          (case TTL R key now q1 of
             None \<Rightarrow> (None, q1)
           | Some ttl \<Rightarrow>
               let retryAfter = ttl div 1000000000 in
               (Some (False, if retryAfter \<le> 0 then 1 else retryAfter), q1)))"


section \<open>What Redis promises\<close>

definition unique_ids :: "XMessage list \<Rightarrow> XMessage list \<Rightarrow> bool" where
  "unique_ids p f \<longleftrightarrow> distinct (map msg_ID (p @ f))"

lemma unique_ids_snoc: "unique_ids p (f @ [m]) \<longleftrightarrow> unique_ids p f \<and> msg_ID m \<notin> msg_ID ` set (p @ f)"
  by (auto simp: unique_ids_def)

lemma unique_ids_move: "unique_ids (p @ [m]) f \<longleftrightarrow> unique_ids p (m # f)"
  by (simp add: unique_ids_def)

lemma unique_ids_filter: "unique_ids p f \<Longrightarrow> unique_ids (filter P p) (filter P f)"
  by (auto simp: unique_ids_def distinct_map_filter)

lemma filter_unique_last: "unique_ids (p @ [m]) f \<Longrightarrow>
    filter (\<lambda>x. msg_ID x \<noteq> msg_ID m) (p @ [m]) = p \<and> filter (\<lambda>x. msg_ID x \<noteq> msg_ID m) f = f"
  by (auto simp: unique_ids_def filter_id_conv image_iff dest!: arg_cong [of "msg_ID m"])

locale redis_streams =
  fixes R :: "'q redis_ops"
    and fresh :: "'q \<Rightarrow> string \<Rightarrow> XMessage list" \<comment> \<open>the entries not yet delivered to the group\<close>
    and pel :: "'q \<Rightarrow> string \<Rightarrow> XMessage list" \<comment> \<open>the entries delivered and not yet acknowledged\<close>
  assumes add_effect: "XAdd R s v q = (True, q') \<Longrightarrow>
      \<exists>i. i \<notin> msg_ID ` set (pel q s @ fresh q s) \<and>
        fresh q' = (fresh q)(s := fresh q s @ [\<lparr>msg_ID = i, msg_Values = v\<rparr>]) \<and> pel q' = pel q"
    and read_effect: "XReadGroup R s (groupOf s) c q = (Some m, q') \<Longrightarrow>
      \<exists>ms. fresh q s = m # ms \<and> fresh q' = (fresh q)(s := ms) \<and> pel q' = (pel q)(s := pel q s @ [m])"
    and read_none: "XReadGroup R s (groupOf s) c q = (None, q') \<Longrightarrow> fresh q' = fresh q \<and> pel q' = pel q"
    and ack_effect: "XAck R s (groupOf s) i q = (True, q') \<Longrightarrow>
      fresh q' = fresh q \<and> pel q' = (pel q)(s := filter (\<lambda>m. msg_ID m \<noteq> i) (pel q s))"
    and del_effect: "XDel R s i q = (True, q') \<Longrightarrow>
      fresh q' = (fresh q)(s := filter (\<lambda>m. msg_ID m \<noteq> i) (fresh q s)) \<and>
      pel q' = (pel q)(s := filter (\<lambda>m. msg_ID m \<noteq> i) (pel q s))"
    and claim_effect: "XClaim R s (groupOf s) c age i q = (b, q') \<Longrightarrow> fresh q' = fresh q \<and> pel q' = pel q"
    and setnx_streams: "SetNX R k ex now q = (x, q') \<Longrightarrow> fresh q' = fresh q \<and> pel q' = pel q"
begin

lemma unique_ids_add: "XAdd R s v q = (True, q') \<Longrightarrow> unique_ids (pel q t) (fresh q t) \<Longrightarrow> unique_ids (pel q' t) (fresh q' t)"
  by (drule add_effect) (auto simp: unique_ids_snoc)

lemma unique_ids_read:
  "XReadGroup R s (groupOf s) c q = (r, q') \<Longrightarrow> unique_ids (pel q t) (fresh q t) \<Longrightarrow> unique_ids (pel q' t) (fresh q' t)"
  by (cases r) (auto dest!: read_none read_effect simp: unique_ids_move)

lemma claimStale_effect:
  "claimStale R s (groupOf s) c age ps q = q' \<Longrightarrow> fresh q' = fresh q \<and> pel q' = pel q"
proof (induction ps arbitrary: q)
  case (Cons p ps)
  obtain i idle where p: "p = (i, idle)" by (cases p)
  obtain b q1 where x: "XClaim R s (groupOf s) c age i q = (b, q1)" by (cases "XClaim R s (groupOf s) c age i q")
  show ?case using Cons.prems Cons.IH [of q] Cons.IH [of q1] claim_effect [OF x] by (auto simp: p x split: if_splits)
qed simp

lemma rate_limit_streams: "CheckRateLimit R now i q = (r, q') \<Longrightarrow> fresh q' = fresh q \<and> pel q' = pel q"
  by (auto simp: CheckRateLimit_def Let_def split: prod.splits option.splits bool.splits dest: setnx_streams)

text \<open>The recovery of stale entries changes their owner only: an entry that a consumer lost stays pending.\<close>

lemma pel_recovery_effect:
  "pelRecoveryTick R s (groupOf s) c age q = q' \<Longrightarrow> fresh q' = fresh q \<and> pel q' = pel q"
  using claimStale_effect by (auto simp: pelRecoveryTick_def split: option.splits)

end

locale redis_answers = redis_streams +
  assumes add_up: "fst (XAdd R s v q)"
    and read_up: "fresh q s \<noteq> [] \<Longrightarrow> fst (XReadGroup R s (groupOf s) c q) \<noteq> None"
    and ack_up: "fst (XAck R s (groupOf s) i q)"
    and del_up: "fst (XDel R s i q)"
begin

lemma add_cases:
  obtains i q' where "XAdd R s v q = (True, q')" "i \<notin> msg_ID ` set (pel q s @ fresh q s)"
    "fresh q' = (fresh q)(s := fresh q s @ [\<lparr>msg_ID = i, msg_Values = v\<rparr>])" "pel q' = pel q"
  using add_up [of s v q] add_effect [of s v q] by (cases "XAdd R s v q") auto

lemma ack_del_effect:
  "AckAndDel R s (groupOf s) i q = (b, q') \<Longrightarrow>
     fresh q' = (fresh q)(s := filter (\<lambda>m. msg_ID m \<noteq> i) (fresh q s)) \<and>
     pel q' = (pel q)(s := filter (\<lambda>m. msg_ID m \<noteq> i) (pel q s))"
  using ack_up [of s i q] del_up [of s i "snd (XAck R s (groupOf s) i q)"]
  by (auto simp: AckAndDel_def dest!: ack_effect del_effect split: prod.splits bool.splits)

lemma unique_ids_ack_del:
  "AckAndDel R s (groupOf s) i q = (b, q') \<Longrightarrow> unique_ids (pel q t) (fresh q t) \<Longrightarrow> unique_ids (pel q' t) (fresh q' t)"
  by (drule ack_del_effect) (auto simp: unique_ids_filter)

end


locale redis_keys =
  fixes R :: "'q redis_ops"
    and expiry :: "'q \<Rightarrow> string \<Rightarrow> int option" \<comment> \<open>when a key that was set expires\<close>
  assumes setnx_effect: "SetNX R k d now q = (Some b, q') \<Longrightarrow>
      b = (case expiry q k of None \<Rightarrow> True | Some t \<Rightarrow> t \<le> now) \<and>
      expiry q' = (if b then (expiry q)(k \<mapsto> now + d) else expiry q)"
    and setnx_error: "SetNX R k d now q = (None, q') \<Longrightarrow> expiry q' = expiry q"
    and ttl_effect: "TTL R k now q = Some r \<Longrightarrow> expiry q k = Some t \<Longrightarrow> now < t \<Longrightarrow> r \<le> t - now + 1000000000"
    and add_keys: "expiry (snd (XAdd R s v q)) = expiry q"
begin

lemma rate_limit_effect:
  assumes "CheckRateLimit R now i q = (r, q')"
  shows "expiry q' = (case r of Some (True, _) \<Rightarrow> (expiry q)(rateKey i \<mapsto> now + 60000000000) | _ \<Rightarrow> expiry q)"
  using assms by (auto simp: CheckRateLimit_def Let_def split: prod.splits option.splits bool.splits dest!: setnx_effect setnx_error)

lemma rate_limit_decision:
  assumes "CheckRateLimit R now i q = (Some (b, n), q')"
  shows "b = (case expiry q (rateKey i) of None \<Rightarrow> True | Some t \<Rightarrow> t \<le> now)"
  using assms by (auto simp: CheckRateLimit_def Let_def split: prod.splits option.splits bool.splits dest!: setnx_effect)

lemma rate_limit_retry_after:
  assumes c: "CheckRateLimit R now i q = (Some (False, n), q')" and e: "expiry q (rateKey i) = Some t"
  shows "1 \<le> n \<and> n \<le> max 1 ((t - now) div 1000000000 + 1)"
proof -
  let ?k = "rateKey i"
  obtain q1 r where s: "SetNX R ?k 60000000000 now q = (Some False, q1)" and l: "TTL R ?k now q1 = Some r"
      and n: "n = (if r div 1000000000 \<le> 0 then 1 else r div 1000000000)"
    using c by (auto simp: CheckRateLimit_def Let_def split: prod.splits option.splits bool.splits)
  have x: "now < t" "expiry q1 = expiry q" using setnx_effect [OF s] e by auto
  have "r \<le> t - now + 1000000000" using ttl_effect [OF l, of t] x e by simp
  then have "r div 1000000000 \<le> (t - now + 1000000000) div 1000000000" by (rule zdiv_mono1) simp
  then show ?thesis using n by auto
qed

end

section \<open>A server\<close>

record server =
  srv_fresh :: "string \<Rightarrow> XMessage list"
  srv_pel :: "string \<Rightarrow> XMessage list"
  srv_keys :: "string \<Rightarrow> int option"

definition freshID :: "XMessage list \<Rightarrow> string" where
  \<comment> \<open>longer than every ID of the stream\<close>
  "freshID ms = CHR ''0'' # concat (map msg_ID ms)"

lemma freshID_notin: "freshID ms \<notin> msg_ID ` set ms"
proof
  assume "freshID ms \<in> msg_ID ` set ms"
  then obtain m where m: "m \<in> set ms" "msg_ID m = freshID ms" by auto
  have "length (msg_ID m) \<le> length (concat (map msg_ID ms))" using m(1) by (induction ms) auto
  then show False using m(2) by (simp add: freshID_def)
qed

definition redis0 :: "server redis_ops" where
  "redis0 =
     \<lparr>XAdd = (\<lambda>s v q. (True, q\<lparr>srv_fresh := (srv_fresh q)(s := srv_fresh q s @ [\<lparr>msg_ID = freshID (srv_pel q s @ srv_fresh q s), msg_Values = v\<rparr>])\<rparr>)),
      XReadGroup = (\<lambda>s g c q. case srv_fresh q s of [] \<Rightarrow> (None, q)
         | m # ms \<Rightarrow> (Some m, q\<lparr>srv_fresh := (srv_fresh q)(s := ms), srv_pel := (srv_pel q)(s := srv_pel q s @ [m])\<rparr>)),
      XAck = (\<lambda>s g i q. (True, q\<lparr>srv_pel := (srv_pel q)(s := filter (\<lambda>m. msg_ID m \<noteq> i) (srv_pel q s))\<rparr>)),
      XDel = (\<lambda>s i q. (True, q\<lparr>srv_fresh := (srv_fresh q)(s := filter (\<lambda>m. msg_ID m \<noteq> i) (srv_fresh q s)),
                               srv_pel := (srv_pel q)(s := filter (\<lambda>m. msg_ID m \<noteq> i) (srv_pel q s))\<rparr>)),
      XPendingExt = (\<lambda>s g n q. Some (map (\<lambda>m. (msg_ID m, 0)) (take n (srv_pel q s)))),
      XClaim = (\<lambda>s g c a i q. (True, q)),
      XLen = (\<lambda>s q. int (length (srv_pel q s) + length (srv_fresh q s))),
      XGroupCreateMkStream = (\<lambda>s g q. (Some ''BUSYGROUP Consumer Group name already exists'', q)),
      Del = (\<lambda>ss q. (True, q\<lparr>srv_fresh := (\<lambda>s. if s \<in> set ss then [] else srv_fresh q s), srv_pel := (\<lambda>s. if s \<in> set ss then [] else srv_pel q s)\<rparr>)),
      SetNX = (\<lambda>k d now q. if (case srv_keys q k of None \<Rightarrow> True | Some t \<Rightarrow> t \<le> now)
                 then (Some True, q\<lparr>srv_keys := (srv_keys q)(k \<mapsto> now + d)\<rparr>) else (Some False, q)),
      TTL = (\<lambda>k now q. Some (case srv_keys q k of None \<Rightarrow> - 2 | Some t \<Rightarrow> if t \<le> now then - 2 else t - now))\<rparr>"

definition server0 :: server where
  "server0 = \<lparr>srv_fresh = (\<lambda>s. []), srv_pel = (\<lambda>s. []), srv_keys = (\<lambda>k. None)\<rparr>"

interpretation srv: redis_answers redis0 srv_fresh srv_pel
proof
  fix s v and q q' :: server
  assume "XAdd redis0 s v q = (True, q')"
  then show "\<exists>i. i \<notin> msg_ID ` set (srv_pel q s @ srv_fresh q s) \<and>
      srv_fresh q' = (srv_fresh q)(s := srv_fresh q s @ [\<lparr>msg_ID = i, msg_Values = v\<rparr>]) \<and> srv_pel q' = srv_pel q"
    using freshID_notin [of "srv_pel q s @ srv_fresh q s"] by (auto simp: redis0_def)
qed (auto simp: redis0_def split: list.splits if_splits)

interpretation srvk: redis_keys redis0 srv_keys
  by unfold_locales (auto simp: redis0_def split: option.splits if_splits)


section \<open>The rate limit\<close>

fun rateRun :: "'q redis_ops \<Rightarrow> (int \<times> string) list \<Rightarrow> 'q \<Rightarrow> (bool \<times> int) option list" where
  \<comment> \<open>the answers to a sequence of calls, each with its time\<close>
  "rateRun R [] q = []"
| "rateRun R ((now, i) # cs) q = (case CheckRateLimit R now i q of (r, q') \<Rightarrow> r # rateRun R cs q')"

lemma length_rateRun [simp]: "length (rateRun R cs q) = length cs"
  by (induction R cs q rule: rateRun.induct) (auto split: prod.splits)

definition allowed :: "(bool \<times> int) option \<Rightarrow> bool" where
  "allowed r \<longleftrightarrow> (\<exists>n. r = Some (True, n))"

context redis_keys
begin

lemma rate_limit_step:
  assumes c: "CheckRateLimit R now j q = (r, q')" and e: "expiry q (rateKey i) = Some e" and ne: "i \<noteq> j \<or> now < e"
  shows "expiry q' (rateKey i) = Some e" "i = j \<Longrightarrow> \<not> allowed r"
proof -
  show 2: "\<not> allowed r" if "i = j"
  proof
    assume "allowed r"
    then obtain n where "r = Some (True, n)" by (auto simp: allowed_def)
    from rate_limit_decision [OF c [unfolded this]] show False using e ne that by simp
  qed
  show "expiry q' (rateKey i) = Some e"
    using rate_limit_effect [OF c] e 2 by (cases "i = j") (auto simp: allowed_def split: option.splits bool.splits)
qed

lemma rate_limit_blocks:
  assumes "expiry q (rateKey i) = Some e" "sorted (map fst cs)" "k < length cs" "snd (cs ! k) = i" "allowed (rateRun R cs q ! k)"
  shows "e \<le> fst (cs ! k)"
  using assms
proof (induction cs arbitrary: q k)
  case (Cons x cs)
  obtain now j where x: "x = (now, j)" by (cases x)
  obtain r q' where c: "CheckRateLimit R now j q = (r, q')" by (cases "CheckRateLimit R now j q")
  have run: "rateRun R (x # cs) q = r # rateRun R cs q'" by (simp add: x c)
  note prems = Cons.prems [unfolded run]
  show ?case
  proof (cases "i \<noteq> j \<or> now < e")
    case False
    have "now \<le> fst ((x # cs) ! k)" using Cons.prems(2,3) by (cases k) (auto simp: x)
    then show ?thesis using False by simp
  next
    case True
    note s = rate_limit_step [OF c Cons.prems(1) True]
    obtain l where k: "k = Suc l" using prems(4,5) s(2) by (cases k) (auto simp: x)
    show ?thesis using Cons.IH [OF s(1), of l] prems by (simp add: k x)
  qed
qed simp

text \<open>Two accepted calls for one name are at least 60 seconds apart.\<close>

lemma rate_limit_spaced:
  assumes "sorted (map fst cs)" "j < k" "k < length cs" "snd (cs ! j) = snd (cs ! k)"
    "allowed (rateRun R cs q ! j)" "allowed (rateRun R cs q ! k)"
  shows "fst (cs ! j) + 60000000000 \<le> fst (cs ! k)"
  using assms
proof (induction cs arbitrary: q j k)
  case (Cons x cs)
  obtain now i where x: "x = (now, i)" by (cases x)
  obtain r q' where c: "CheckRateLimit R now i q = (r, q')" by (cases "CheckRateLimit R now i q")
  have run: "rateRun R (x # cs) q = r # rateRun R cs q'" by (simp add: x c)
  note prems = Cons.prems [unfolded run]
  obtain l where k: "k = Suc l" using Cons.prems(2) by (cases k) auto
  show ?case
  proof (cases j)
    case 0
    then obtain n where r: "r = Some (True, n)" using prems(5) by (auto simp: allowed_def)
    have e: "expiry q' (rateKey i) = Some (now + 60000000000)" using rate_limit_effect [OF c] by (simp add: r)
    show ?thesis using rate_limit_blocks [OF e, of cs l] prems by (simp add: k x 0)
  next
    case (Suc m)
    then show ?thesis using Cons.IH [of m l q'] prems by (simp add: k x)
  qed
qed simp

end


text \<open>C37: Of the submissions under one name, two that the rate limit lets through are at least 60 seconds apart, whatever other names
  submit in between.\<close>

theorem rate_limit_spacing:
  assumes "redis_keys R expiry" "sorted (map fst cs)" "j < k" "k < length cs" "snd (cs ! j) = snd (cs ! k)"
    and "allowed (rateRun R cs q ! j)" "allowed (rateRun R cs q ! k)"
  shows "fst (cs ! j) + 60000000000 \<le> fst (cs ! k)"
  using assms by (rule redis_keys.rate_limit_spaced)

definition calls0 :: "(int \<times> string) list" where
  "calls0 = [(0, ''ann''), (59999999999, ''ann''), (59999999999, ''bob''), (60000000000, ''ann'')]"

theorem rate_limit_spacing_witness:
  "rateRun redis0 calls0 server0 = [Some (True, 0), Some (False, 1), Some (True, 0), Some (True, 0)] \<and>
   fst (calls0 ! 0) + 60000000000 \<le> fst (calls0 ! 3)"
proof
  show r: "rateRun redis0 calls0 server0 = [Some (True, 0), Some (False, 1), Some (True, 0), Some (True, 0)]"
    by (simp add: calls0_def CheckRateLimit_def redis0_def server0_def rateKey_def)
  show "fst (calls0 ! 0) + 60000000000 \<le> fst (calls0 ! 3)"
    by (rule rate_limit_spacing [OF srvk.redis_keys_axioms, where q = server0]) (simp_all only: r, simp_all add: calls0_def allowed_def)
qed

end
