(* ===== verification/Test_Worker.thy ===== *)
theory Test_Worker
  imports Platform
begin

text \<open>
  The test worker of \<^verbatim>\<open>services/testing/main.go\<close>: the queue loop, one evaluation of a submission
  (\<open>processPretestMessage\<close>) with the aggregation of its runs, the clean-up of the logs and the
  selection of containers by the sweepers.

  Containers, pods and the fleet run concurrently and outside the model of this theory: what they
  return is an argument (\<open>RunEnv\<close>), as is the order in which the runs finish. Failures of database
  statements are given by \<open>ok\<close>. A handler returns \<open>None\<close> when it panics, which ends the process.
  \<^verbatim>\<open>math.Log\<close> and \<^verbatim>\<open>math.Sqrt\<close> are arguments.
\<close>

record 'q World =
  redis :: 'q
  db :: DB

section \<open>Logs\<close>

definition cont_byte :: "char \<Rightarrow> bool" where
  "cont_byte c \<longleftrightarrow> 128 \<le> (of_char c :: nat) \<and> (of_char c :: nat) \<le> 191"

definition utf8_len :: "string \<Rightarrow> nat" where
  \<comment> \<open>the number of bytes of the encoded character at the front, 0 when there is none\<close>
  "utf8_len s =
     (case s of
        [] \<Rightarrow> 0
      | c # cs \<Rightarrow>
          let b = (of_char c :: nat); next = (\<lambda>lo hi. case cs of [] \<Rightarrow> False | d # _ \<Rightarrow> lo \<le> (of_char d :: nat) \<and> (of_char d :: nat) \<le> hi);
              more = (\<lambda>n. n \<le> length cs \<and> list_all cont_byte (take n cs)) in
          if b < 128 then 1
          else if 194 \<le> b \<and> b \<le> 223 then if more 1 then 2 else 0
          else if 224 \<le> b \<and> b \<le> 239
            then if more 2 \<and> next (if b = 224 then 160 else 128) (if b = 237 then 159 else 191) then 3 else 0
          else if 240 \<le> b \<and> b \<le> 244
            then if more 3 \<and> next (if b = 240 then 144 else 128) (if b = 244 then 143 else 191) then 4 else 0
          else 0)"

lemma utf8_len_le: "utf8_len s \<le> length s"
  by (auto simp: utf8_len_def Let_def split: list.splits)

function ToValidUTF8 :: "string \<Rightarrow> string" where
  \<comment> \<open>\<^verbatim>\<open>strings.ToValidUTF8(s, "")\<close>\<close>
  "ToValidUTF8 [] = []"
| "ToValidUTF8 (c # cs) =
     (let n = utf8_len (c # cs) in
      if n = 0 then ToValidUTF8 cs else take n (c # cs) @ ToValidUTF8 (drop n (c # cs)))"
  by pat_completeness auto
termination by (relation "measure length") auto

definition removeNUL :: "string \<Rightarrow> string" where
  "removeNUL s = filter (\<lambda>c. c \<noteq> CHR 0x00) s"

definition tailLogs :: "string \<Rightarrow> nat \<Rightarrow> string" where
  "tailLogs logs maxLines =
     (let logs1 = ToValidUTF8 (removeNUL logs);
          lines = split_char (CHR 0x0A) logs1 in
      if length lines \<le> maxLines then logs1
      else join_char (CHR 0x0A) (drop (length lines - maxLines) lines))"

section \<open>Configuration\<close>

definition envPositive :: "(string \<Rightarrow> string) \<Rightarrow> string \<Rightarrow> int \<Rightarrow> int" where
  "envPositive getenv key dflt = (case Atoi (getenv key) of Some v \<Rightarrow> if v > 0 then v else dflt | None \<Rightarrow> dflt)"

definition testSize :: "(string \<Rightarrow> string) \<Rightarrow> bool \<Rightarrow> int \<times> int" where
  \<comment> \<open>bots and orders of a bot\<close>
  "testSize getenv isSystest =
     (if isSystest then (envPositive getenv ''SYSTEST_NUM_BOTS'' 500, envPositive getenv ''SYSTEST_ORDERS_PER_BOT'' 2000)
      else (envPositive getenv ''PRETEST_NUM_BOTS'' 5, envPositive getenv ''PRETEST_ORDERS_PER_BOT'' 200))"

definition queueOf :: "bool \<Rightarrow> string" where
  "queueOf isSystest = (if isSystest then SystestQueue else PretestQueue)"

section \<open>One run\<close>

record RunEnv =
  startSandbox :: "string \<Rightarrow> string \<Rightarrow> string + string \<times> string" \<comment> \<open>container and endpoint\<close>
  inspectEnv :: "string \<Rightarrow> string list option" \<comment> \<open>the environment of a container; never available in a cluster\<close>
  runFleet :: "string \<Rightarrow> int \<Rightarrow> int \<Rightarrow> int \<Rightarrow> string \<Rightarrow> bool \<Rightarrow> string + PretestResults"
  sandboxLogs :: "string \<Rightarrow> string option"

record runResult =
  rr_results :: PretestResults
  rr_score :: rat
  rr_logs :: string

fun protocolFromEnv :: "string list \<Rightarrow> string option" where
  "protocolFromEnv [] = None"
| "protocolFromEnv (e # es) =
     (if HasPrefix e ''ENGINE_PROTOCOL='' then Some (TrimPrefix e ''ENGINE_PROTOCOL='') else protocolFromEnv es)"

definition detectProtocol :: "RunEnv \<Rightarrow> string \<Rightarrow> string \<Rightarrow> string" where
  "detectProtocol E fromMsg containerID =
     (if fromMsg \<noteq> '''' then fromMsg
      else case inspectEnv E containerID of
        None \<Rightarrow> ''TCP_PROTOBUF''
      | Some es \<Rightarrow> (case protocolFromEnv es of Some p \<Rightarrow> p | None \<Rightarrow> ''TCP_PROTOBUF''))"

definition percentRank :: "rat list \<Rightarrow> rat \<Rightarrow> rat" where
  \<comment> \<open>\<^verbatim>\<open>PERCENT_RANK() OVER (ORDER BY score DESC)\<close>\<close>
  "percentRank scores s =
     (if length scores \<le> 1 then 0
      else rat_of_nat (length (filter (\<lambda>x. x > s) scores)) / rat_of_nat (length scores - 1))"

definition diagProtocol :: "diag \<Rightarrow> string option" where
  "diagProtocol d = (case d of DiagRun x _ _ _ _ \<Rightarrow> Some (res_Protocol (d_results x)) | _ \<Rightarrow> None)"

definition topTenAverage :: "string \<Rightarrow> DB \<Rightarrow> rat" where
  "topTenAverage protocol d =
     (let subs = filter (\<lambda>r. sub_status r = ''completed'' \<and> sub_verdict r = ''Accepted'' \<and> diagProtocol (sub_diagnostics r) = Some protocol)
                   (submissions d);
          top = filter (\<lambda>r. percentRank (map sub_composite_score subs) (sub_composite_score r) \<le> 1 / 10) subs in
      if top = [] then 0 else fl (rat_of_int (sum_list (map sub_p99_us top)) / rat_of_nat (length top)))"

definition runLogs :: "nat \<Rightarrow> string option \<Rightarrow> string" where
  "runLogs run ls = (case ls of None \<Rightarrow> ''''
     | Some l \<Rightarrow> ''=== RUN '' @ utoa (Suc run) @ '' LOGS ==='' @ [CHR 0x0A] @ l @ [CHR 0x0A])"

definition runOnce :: "(rat \<Rightarrow> rat) \<Rightarrow> RunEnv \<Rightarrow> DB \<Rightarrow> int \<times> int \<Rightarrow> string \<Rightarrow> string \<Rightarrow> string \<Rightarrow> bool \<Rightarrow> nat \<Rightarrow> string + runResult" where
  "runOnce Log E d sz submissionID imageTag fromMsg isSystest run =
     (case startSandbox E (submissionID @ ''-run-'' @ utoa run) imageTag of
        Inl err \<Rightarrow> Inl (''run '' @ utoa (Suc run) @ '' sandbox failed: '' @ err)
      | Inr (containerID, endpoint) \<Rightarrow>
          let protocol = detectProtocol E fromMsg containerID;
              seed = 42424242 + int run * 1000;
              logs = runLogs run (sandboxLogs E containerID) in
          case runFleet E endpoint seed (fst sz) (snd sz) protocol isSystest of
            Inl err \<Rightarrow> Inl (''run '' @ utoa (Suc run) @ '' execution failed: '' @ err)
          | Inr res \<Rightarrow>
              (case EvaluateVerdict Log (Some (topTenAverage (res_Protocol res) d)) res of
                 (_, score, diagn) \<Rightarrow> Inr \<lparr>rr_results = d_results diagn, rr_score = score, rr_logs = logs\<rparr>))"


section \<open>Aggregation of the runs\<close>

definition div64 :: "int \<Rightarrow> int \<Rightarrow> int" where
  "div64 a b = wrap64 (a sdiv b)"

definition fsum :: "rat list \<Rightarrow> rat" where
  "fsum xs = foldl fadd 0 xs"

definition strategyNames :: "string list" where
  "strategyNames = [''MARKET_MAKER'', ''MOMENTUM_TRADER'', ''NOISE_TRADER'']"

definition strategySum :: "runResult list \<Rightarrow> int \<Rightarrow> string \<Rightarrow> StrategyMetrics" where
  "strategySum outs k strat =
     (let ms = List.map_filter (\<lambda>ro. case res_StrategyBreakdown (rr_results ro) of None \<Rightarrow> None | Some b \<Rightarrow> map_of b strat) outs in
      \<lparr>sm_OrdersSent = sum64 sm_OrdersSent ms 0, sm_OrdersFailed = sum64 sm_OrdersFailed ms 0,
       sm_AvgLatencyUs = div64 (sum64 sm_AvgLatencyUs ms 0) k, sm_TotalLatency = 0, sm_AckCount = 0\<rparr>)"

definition aggregate :: "runResult list \<Rightarrow> int \<Rightarrow> PretestResults" where
  \<comment> \<open>fields that the composite literal does not name are zero\<close>
  "aggregate outs k =
     (let avg = (\<lambda>f. div64 (sum64 (\<lambda>ro. f (rr_results ro)) outs 0) k);
          favg = (\<lambda>f. fdiv (fsum (map (\<lambda>ro. f (rr_results ro)) outs)) (float64 k)) in
      \<lparr>res_Protocol = res_Protocol (rr_results (hd outs)),
       res_Correctness = favg res_Correctness,
       res_P50Us = avg res_P50Us, res_P90Us = avg res_P90Us, res_P99Us = avg res_P99Us, res_EngineP99Us = avg res_EngineP99Us,
       res_OrdersSent = avg res_OrdersSent, res_OrdersFailed = avg res_OrdersFailed,
       res_TpsStart = res_TpsStart (rr_results (hd outs)), res_TpsEnd = favg res_TpsEnd,
       res_MaxSustainedTPS = 0, res_IsSystest = False,
       res_PhantomFills = avg res_PhantomFills, res_PriorityViolations = avg res_PriorityViolations,
       res_StrategyBreakdown = Some (map (\<lambda>s. (s, strategySum outs k s)) strategyNames)\<rparr>)"

definition scoreDeviation :: "(rat \<Rightarrow> rat) \<Rightarrow> rat list \<Rightarrow> int \<Rightarrow> rat" where
  "scoreDeviation Sqrt scores k =
     (let mean = fdiv (fsum scores) (float64 k);
          variance = fsum (map (\<lambda>s. fmul (fsub s mean) (fsub s mean)) scores) in
      Sqrt (fdiv variance (float64 k)))"

definition stabilityBonus :: "rat \<Rightarrow> rat" where
  "stabilityBonus stdDev = (if stdDev < 2 then 5 else 0)"

definition finalScore :: "rat \<Rightarrow> rat \<Rightarrow> rat" where
  "finalScore composite bonus = (let s = fadd composite bonus in if s > 100 then 100 else s)"

definition verdictName :: "verdict \<Rightarrow> string" where
  "verdictName v =
     (case v of Accepted \<Rightarrow> ''Accepted'' | Logic_Violation \<Rightarrow> ''Logic Violation (LV)'' | Correctness_Error \<Rightarrow> ''Correctness Error''
      | Tail_Latency_Exceeded \<Rightarrow> ''Tail Latency Exceeded (TLE)'' | Throughput_Degradation \<Rightarrow> ''Throughput Degradation'')"

section \<open>One message\<close>

datatype pcall = Update_Running | Update_Result | Update_Failed

definition failPretest :: "(pcall \<Rightarrow> bool) \<Rightarrow> int \<Rightarrow> string \<Rightarrow> string \<Rightarrow> string \<Rightarrow> string \<Rightarrow> DB \<Rightarrow> DB" where
  "failPretest ok now submissionID vd stderr logs d =
     (if ok Update_Failed
      then updateSubmission now submissionID
             (setFailed vd (DiagError (ToValidUTF8 (removeNUL stderr)) (if logs \<noteq> '''' then Some (tailLogs logs 100) else None))) d
      else d)"

definition firstError :: "nat list \<Rightarrow> (string + runResult) list \<Rightarrow> string option" where
  \<comment> \<open>\<^verbatim>\<open>errgroup\<close> returns the first error in the order in which the runs finish\<close>
  "firstError finish outs =
     (case List.map_filter (\<lambda>i. case outs ! i of Inl e \<Rightarrow> Some e | Inr _ \<Rightarrow> None) (filter (\<lambda>i. i < length outs) finish @ [0..<length outs]) of
        [] \<Rightarrow> None | e # _ \<Rightarrow> Some e)"

definition goodRuns :: "(string + runResult) list \<Rightarrow> runResult list" where
  "goodRuns outs = List.map_filter (\<lambda>r. case r of Inl _ \<Rightarrow> None | Inr x \<Rightarrow> Some x) outs"

definition completeRow :: "verdict \<Rightarrow> rat \<Rightarrow> PretestResults \<Rightarrow> diag \<Rightarrow> SubmissionRow \<Rightarrow> SubmissionRow" where
  "completeRow v score agg dg r =
     r\<lparr>sub_status := ''completed'', sub_verdict := verdictName v, sub_composite_score := score,
       sub_correctness_score := res_Correctness agg, sub_p50_us := res_P50Us agg, sub_p90_us := res_P90Us agg,
       sub_p99_us := res_P99Us agg, sub_actual_tps := res_TpsEnd agg, sub_diagnostics := dg\<rparr>"

definition judgeRuns :: "(rat \<Rightarrow> rat) \<Rightarrow> (rat \<Rightarrow> rat) \<Rightarrow> DB \<Rightarrow> runResult list \<Rightarrow> int \<Rightarrow> verdict \<times> rat \<times> PretestResults \<times> diag" where
  "judgeRuns Log Sqrt d outs k =
     (let agg = aggregate outs k;
          scores = map rr_score outs;
          stdDev = scoreDeviation Sqrt scores k;
          bonus = stabilityBonus stdDev in
      case EvaluateVerdict Log (Some (topTenAverage (res_Protocol agg) d)) agg of
        (v, composite, dg) \<Rightarrow>
          (v, finalScore composite bonus, agg,
           DiagRun dg (fdiv (math_Round (fmul stdDev 100)) 100) bonus scores (tailLogs (concat (map rr_logs outs)) 100)))"

record testArgs =
  ta_Log :: "rat \<Rightarrow> rat"
  ta_Sqrt :: "rat \<Rightarrow> rat"
  ta_getenv :: "string \<Rightarrow> string"
  ta_env :: RunEnv
  ta_finish :: "nat list"
  ta_ok :: "pcall \<Rightarrow> bool"
  ta_now :: int

definition processPretestMessage :: "'q redis_ops \<Rightarrow> testArgs \<Rightarrow> bool \<Rightarrow> XMessage \<Rightarrow> 'q World \<Rightarrow> 'q World option" where
  "processPretestMessage R A isSystest m w =
     (let queue = queueOf isSystest; grp = groupOf queue; vs = msg_Values m in
      case (map_of vs ''submission_id'', map_of vs ''image_tag'') of
        (Some submissionID, Some imageTag) \<Rightarrow>
          if length submissionID < 8 then None
          else
            let d1 = (if ta_ok A Update_Running then updateSubmission (ta_now A) submissionID (setStatus ''running'') (db w) else db w);
                k = envPositive (ta_getenv A) ''K_RUNS'' 1;
                outs = map (runOnce (ta_Log A) (ta_env A) d1 (testSize (ta_getenv A) isSystest) submissionID imageTag
                              (get_or '''' vs ''protocol'') isSystest) [0..<nat k] in
            (case firstError (ta_finish A) outs of
               Some err \<Rightarrow>
                 (case ShouldRetry R queue grp (msg_ID m) vs err (redis w) of
                    (True, q1) \<Rightarrow> Some \<lparr>redis = q1, db = d1\<rparr>
                  | (False, q1) \<Rightarrow>
                      Some \<lparr>redis = snd (AckAndDel R queue grp (msg_ID m) q1),
                            db = failPretest (ta_ok A) (ta_now A) submissionID ''Runtime Failure'' (''Parallel K-run failed: '' @ err)
                                   (concat (map rr_logs (goodRuns outs))) d1\<rparr>)
             | None \<Rightarrow>
                 (case judgeRuns (ta_Log A) (ta_Sqrt A) d1 (goodRuns outs) k of
                    (v, score, agg, dg) \<Rightarrow>
                      Some \<lparr>redis = snd (AckAndDel R queue grp (msg_ID m) (redis w)),
                            db = (if ta_ok A Update_Result then updateSubmission (ta_now A) submissionID (completeRow v score agg dg) d1 else d1)\<rparr>))
      | _ \<Rightarrow> Some (w\<lparr>redis := snd (AckAndDel R queue grp (msg_ID m) (redis w))\<rparr>))"


section \<open>The queue loop\<close>

fun startWorkerLoop :: "'q redis_ops \<Rightarrow> ('a \<Rightarrow> XMessage \<Rightarrow> 'q World \<Rightarrow> 'q World option) \<Rightarrow> string \<Rightarrow> string \<Rightarrow> string \<Rightarrow>
    ('a \<times> bool) list \<Rightarrow> 'q World \<Rightarrow> 'q World option" where
  \<comment> \<open>each poll has the arguments of the handler and whether the context is cancelled after the read\<close>
  "startWorkerLoop R handler stream grp consumer [] w = Some w"
| "startWorkerLoop R handler stream grp consumer ((a, cancelled) # polls) w =
     (case XReadGroup R stream grp consumer (redis w) of
        (r, q) \<Rightarrow>
          let w1 = w\<lparr>redis := q\<rparr> in
          if cancelled then Some w1
          else case r of
            None \<Rightarrow> startWorkerLoop R handler stream grp consumer polls w1
          | Some m \<Rightarrow>
              (case handler a m w1 of
                 None \<Rightarrow> None
               | Some w2 \<Rightarrow> startWorkerLoop R handler stream grp consumer polls w2))"

section \<open>Sweepers\<close>

record Container =
  c_ID :: string
  c_Names :: "string list"
  c_Created :: int \<comment> \<open>seconds\<close>

definition contestantName :: "string \<Rightarrow> bool" where
  "contestantName name \<longleftrightarrow> length name > 0 \<and>
     (name = ''/contestant'' \<or> length name > 11 \<and> take 12 name = ''/contestant-'')"

fun sweepDocker :: "int \<Rightarrow> int \<Rightarrow> Container list \<Rightarrow> string list option" where
  \<comment> \<open>the containers a tick stops and removes; the log line slices the ID\<close>
  "sweepDocker timeoutMin now [] = Some []"
| "sweepDocker timeoutMin now (c # cs) =
     (if \<not> list_ex contestantName (c_Names c) then sweepDocker timeoutMin now cs
      else if now - c_Created c * 1000000000 > timeoutMin * 60000000000
        then if length (c_ID c) < 12 then None else map_option (Cons (c_ID c)) (sweepDocker timeoutMin now cs)
      else sweepDocker timeoutMin now cs)"

definition sweepK8s :: "int \<Rightarrow> int \<Rightarrow> (string \<times> int) list \<Rightarrow> string list" where
  \<comment> \<open>name and creation time of the pods with the label of a sandbox\<close>
  "sweepK8s timeoutMin now pods = map fst (filter (\<lambda>(_, created). now - created > timeoutMin * 60000000000) pods)"

definition sweeperTimeout :: "(string \<Rightarrow> string) \<Rightarrow> int" where
  "sweeperTimeout getenv = envPositive getenv ''SWEEPER_TIMEOUT_MINUTES'' 30"

lemma sweepDocker_safe:
  "sweepDocker t now cs = Some is \<Longrightarrow> i \<in> set is \<Longrightarrow>
     \<exists>c \<in> set cs. c_ID c = i \<and> (\<exists>n \<in> set (c_Names c). contestantName n) \<and> now - c_Created c * 1000000000 > t * 60000000000"
  by (induction t now cs arbitrary: "is" rule: sweepDocker.induct) (fastforce simp: list_ex_iff split: if_splits)+

section \<open>Properties of the logs\<close>

lemma set_ToValidUTF8: "set (ToValidUTF8 s) \<subseteq> set s"
proof (induction s rule: ToValidUTF8.induct)
  case (2 c cs)
  then show ?case using set_take_subset [of "utf8_len (c # cs)" "c # cs"] set_drop_subset [of "utf8_len (c # cs)" "c # cs"]
    by (simp only: ToValidUTF8.simps Let_def split: if_splits) (force split: if_splits)
qed simp

lemma split_no_sep: "w \<in> set (split_char sep s) \<Longrightarrow> sep \<notin> set w"
  by (induction s arbitrary: w) (auto split: if_splits list.splits)

lemma join_split: "join_char sep (split_char sep s) = s"
proof (induction s)
  case (Cons c s)
  obtain w ws where s: "split_char sep s = w # ws" by (cases "split_char sep s") auto
  then show ?case using Cons by (cases ws) auto
qed simp

lemma join_append: "xs \<noteq> [] \<Longrightarrow> ys \<noteq> [] \<Longrightarrow> join_char sep (xs @ ys) = join_char sep xs @ sep # join_char sep ys"
proof (induction xs)
  case (Cons x xs)
  then show ?case by (cases xs; cases ys) auto
qed simp

text \<open>\<^verbatim>\<open>tailLogs\<close> keeps the end of the cleaned logs, at most the given number of lines, and no zero byte.\<close>

lemma tail_logs_bounded:
  assumes n: "0 < n"
  shows "length (split_char (CHR 0x0A) (tailLogs logs n)) \<le> n"
    and "\<exists>front. ToValidUTF8 (removeNUL logs) = front @ tailLogs logs n"
    and "CHR 0x00 \<notin> set (tailLogs logs n)"
proof -
  let ?l = "ToValidUTF8 (removeNUL logs)" and ?nl = "CHR 0x0A"
  let ?ls = "split_char ?nl ?l"
  let ?k = "length ?ls - n"
  have nul: "CHR 0x00 \<notin> set ?l" using set_ToValidUTF8 [of "removeNUL logs"] by (auto simp: removeNUL_def)
  have len: "length (split_char ?nl (tailLogs logs n)) \<le> n \<and> (\<exists>front. ?l = front @ tailLogs logs n)"
  proof (cases "length ?ls \<le> n")
    case False
    have ne: "drop ?k ?ls \<noteq> []" "take ?k ?ls \<noteq> []" using False n by auto
    have "split_char ?nl (join_char ?nl (drop ?k ?ls)) = drop ?k ?ls"
      using ne(1) by (intro split_join) (auto dest!: in_set_dropD split_no_sep)
    moreover have "?l = join_char ?nl (take ?k ?ls @ drop ?k ?ls)" by (simp add: join_split)
    then have "?l = (join_char ?nl (take ?k ?ls) @ [?nl]) @ join_char ?nl (drop ?k ?ls)" using join_append [OF ne(2,1)] by simp
    moreover have "tailLogs logs n = join_char ?nl (drop ?k ?ls)" using False by (simp add: tailLogs_def Let_def)
    ultimately show ?thesis using n by (metis diff_diff_cancel length_drop nat_le_linear diff_is_0_eq' drop0)
  qed (simp add: tailLogs_def Let_def)
  then show "length (split_char ?nl (tailLogs logs n)) \<le> n" "\<exists>front. ?l = front @ tailLogs logs n" by auto
  then show "CHR 0x00 \<notin> set (tailLogs logs n)" using nul by (metis Un_iff set_append)
qed

section \<open>Properties of the judgement\<close>

lemma aggregate_drops: "res_IsSystest (aggregate outs k) = False" "res_MaxSustainedTPS (aggregate outs k) = 0"
  by (simp_all add: aggregate_def Let_def)

lemma aggregate_throughput: "log_ok Log \<Longrightarrow> throughputOf Log (aggregate outs k) \<le> 50"
proof -
  assume "log_ok Log"
  then have "stabilityScore Log (aggregate outs k) \<le> 100" by (simp add: stabilityScore_range)
  then have "fl (1 / 2 * stabilityScore Log (aggregate outs k)) \<le> of_int 50" by (intro fl64.rnd_le_int) auto
  moreover have "maxTPSScore (aggregate outs k) = 0" by (simp add: maxTPSScore_def aggregate_drops fmul_def fdiv_def)
  ultimately have "fl (fl (1 / 2 * stabilityScore Log (aggregate outs k)) + 0) \<le> of_int 50" by (intro fl64.rnd_le_int) auto
  then show ?thesis using \<open>maxTPSScore _ = 0\<close> by (simp add: throughputOf_def fadd_def fmul_def)
qed

lemma composite_half: "CompositeScore 100 100 50 = 85" by code_simp

lemma finalScore_mono: "x \<le> y \<Longrightarrow> b \<le> c \<Longrightarrow> finalScore x b \<le> finalScore y c"
  using fl_mono [of "x + b" "y + c"] by (auto simp: finalScore_def fadd_def Let_def)

lemma finalScore_top: "finalScore 85 5 = 90" by code_simp


lemma fsum_le: "(\<forall>x \<in> set xs. x \<le> 100) \<Longrightarrow> 100 * (n + int (length xs)) \<le> 2 ^ 53 \<Longrightarrow> 0 \<le> n \<Longrightarrow> s \<le> of_int (100 * n) \<Longrightarrow>
    foldl fadd s xs \<le> of_int (100 * (n + int (length xs)))"
proof (induction xs arbitrary: s n)
  case (Cons x xs)
  have "s + x \<le> of_int (100 * (n + 1))" using Cons.prems by (simp add: add_mono)
  then have "fadd s x \<le> of_int (100 * (n + 1))"
    unfolding fadd_def using Cons.prems by (intro fl64.rnd_le_int) auto
  from Cons.IH [of "n + 1" "fadd s x", OF _ _ _ this] Cons.prems show ?case by (simp add: algebra_simps)
qed simp

lemma aggregate_correctness:
  assumes "outs \<noteq> []" "length outs \<le> 2 ^ 40" "\<forall>ro \<in> set outs. res_Correctness (rr_results ro) \<le> 100"
  shows "res_Correctness (aggregate outs (int (length outs))) \<le> 100"
proof -
  let ?n = "int (length outs)" and ?s = "fsum (map (\<lambda>ro. res_Correctness (rr_results ro)) outs)"
  have n: "?n \<le> 2 ^ 40" using assms(2) by (metis of_nat_le_iff of_nat_numeral of_nat_power)
  have f: "float64 ?n = of_int ?n" unfolding float64_def by (rule fl_int_exact) (use n in simp)
  have "?s \<le> of_int (100 * ?n)"
    unfolding fsum_def using fsum_le [of "map (\<lambda>ro. res_Correctness (rr_results ro)) outs" 0 0] assms(3) n by simp
  then have "?s / of_int ?n \<le> of_int 100" using assms(1) by (simp add: pos_divide_le_eq)
  then have "fl (?s / of_int ?n) \<le> of_int 100" by (intro fl64.rnd_le_int) auto
  then show ?thesis by (simp only: aggregate_def Let_def PretestResults.simps fdiv_def f)
qed

lemma judgeRuns_parts:
  assumes "judgeRuns Log Sqrt d outs k = (v, score, agg, dg)"
  shows "agg = aggregate outs k" "v = fst (EvaluateVerdict Log (Some (topTenAverage (res_Protocol agg) d)) agg)"
    "score = finalScore (fst (snd (EvaluateVerdict Log (Some (topTenAverage (res_Protocol agg) d)) agg)))
       (stabilityBonus (scoreDeviation Sqrt (map rr_score outs) k))"
  using assms by (auto simp: judgeRuns_def Let_def split: prod.splits)

text \<open>C35: The score that a test worker records is at most 90, whatever the engine does: the aggregation of the runs does
  not carry the sustained throughput over, so half of the throughput score is always missing and the
  stability bonus of 5 points does not make up for it.\<close>

theorem recorded_score_at_most_90:
  assumes "judgeRuns Log Sqrt d outs (int (length outs)) = (v, score, agg, dg)" "log_ok Log"
    and "outs \<noteq> []" "length outs \<le> 2 ^ 40" "\<forall>ro \<in> set outs. res_Correctness (rr_results ro) \<le> 100"
  shows "score \<le> 90"
proof -
  note p = judgeRuns_parts [OF assms(1)]
  let ?avg = "Some (topTenAverage (res_Protocol agg) d)"
  obtain tg c where tc: "latencyTargets ?avg (res_Protocol agg) = (tg, c)" by (cases "latencyTargets ?avg (res_Protocol agg)")
  have "fst (snd (EvaluateVerdict Log ?avg agg)) \<le> CompositeScore 100 100 50"
    unfolding EvaluateVerdict_parts(2) [OF tc]
    using aggregate_correctness [OF assms(3-5)] aggregate_throughput [OF assms(2)] DynamicLatencyScore_range
    by (intro CompositeScore_mono) (auto simp: p(1))
  then have "score \<le> finalScore 85 5" unfolding p(3) composite_half
    by (rule finalScore_mono) (simp add: stabilityBonus_def)
  then show ?thesis by (simp add: finalScore_top)
qed

definition run0 :: "bool \<Rightarrow> int \<Rightarrow> int \<Rightarrow> runResult" where
  \<comment> \<open>a run without errors in the order book\<close>
  "run0 systest sent failed =
     \<lparr>rr_results = \<lparr>res_Protocol = ''FIX'', res_Correctness = 100, res_P50Us = 10, res_P90Us = 20, res_P99Us = 30, res_EngineP99Us = 5,
        res_OrdersSent = sent, res_OrdersFailed = failed, res_TpsStart = 100, res_TpsEnd = 100, res_MaxSustainedTPS = 500000,
        res_IsSystest = systest, res_PhantomFills = 0, res_PriorityViolations = 0, res_StrategyBreakdown = None\<rparr>,
      rr_score = 100, rr_logs = []\<rparr>"

definition db0 :: DB where
  "db0 = \<lparr>submissions = [], submission_sources = [], users = [], arenas = [], arena_registrations = []\<rparr>"

theorem recorded_score_at_most_90_witness:
  "fst (snd (judgeRuns Log0 (\<lambda>x. x) db0 [run0 True 1000000 0] 1)) \<le> 90"
proof -
  obtain v score agg dg where j: "judgeRuns Log0 (\<lambda>x. x) db0 [run0 True 1000000 0] (int (length [run0 True 1000000 0])) = (v, score, agg, dg)"
    by (metis prod_cases4)
  have "score \<le> 90" by (rule recorded_score_at_most_90 [OF j Log0_ok]) (simp_all add: run0_def)
  then show ?thesis using j by simp
qed

lemma single_correctness:
  assumes "100 \<le> res_Correctness (rr_results ro)"
  shows "100 \<le> res_Correctness (aggregate [ro] 1)"
proof -
  have "of_int 100 \<le> fl (0 + res_Correctness (rr_results ro))" using assms by (intro fl64.rnd_ge_int) auto
  then have "of_int 100 \<le> fl (fl (0 + res_Correctness (rr_results ro)) / 1)" by (intro fl64.rnd_ge_int) auto
  moreover have "float64 1 = 1" by code_simp
  ultimately show ?thesis by (simp add: aggregate_def Let_def fsum_def fadd_def fdiv_def)
qed

lemma single_failed: "in64 (res_OrdersFailed (rr_results ro)) \<Longrightarrow> res_OrdersFailed (aggregate [ro] 1) = res_OrdersFailed (rr_results ro)"
  by (simp add: aggregate_def Let_def div64_def wrap64_id)

text \<open>A system test is judged by the limits of a pretest: the aggregated results do not say that they come from a
  system test. A run that the system test accepts, because at most 0.1 percent of its orders failed, ends with
  the verdict \<^verbatim>\<open>Correctness Error\<close> as soon as more than five of them did.\<close>

lemma system_test_judged_as_pretest:
  assumes "res_IsSystest (rr_results ro)" "fst (decideVerdict c (rr_results ro)) = Accepted"
    and "5 < res_OrdersFailed (rr_results ro)" "in64 (res_OrdersFailed (rr_results ro))"
  shows "fst (judgeRuns Log Sqrt d [ro] 1) = Correctness_Error"
proof -
  obtain v score agg dg where j: "judgeRuns Log Sqrt d [ro] 1 = (v, score, agg, dg)" by (cases "judgeRuns Log Sqrt d [ro] 1")
  note p = judgeRuns_parts [OF j]
  obtain tg cl where tc: "latencyTargets (Some (topTenAverage (res_Protocol agg) d)) (res_Protocol agg) = (tg, cl)"
    by (cases "latencyTargets (Some (topTenAverage (res_Protocol agg) d)) (res_Protocol agg)")
  have "100 \<le> res_Correctness (rr_results ro)" using assms(2) by (auto simp: decideVerdict_def split: if_splits)
  then have "fst (decideVerdict cl agg) = Correctness_Error"
    using single_correctness [of ro] assms(3) single_failed [OF assms(4)]
    by (simp add: decideVerdict_def thresholdExceeded_def p(1) aggregate_drops)
  then show ?thesis by (simp add: j p(2) EvaluateVerdict_parts(1) [OF tc])
qed

lemma system_test_judged_as_pretest_witness:
  "fst (decideVerdict 500000 (rr_results (run0 True 1000000 10))) = Accepted \<and>
   fst (judgeRuns Log0 (\<lambda>x. x) db0 [run0 True 1000000 10] 1) = Correctness_Error"
proof
  show a: "fst (decideVerdict 500000 (rr_results (run0 True 1000000 10))) = Accepted" by code_simp
  show "fst (judgeRuns Log0 (\<lambda>x. x) db0 [run0 True 1000000 10] 1) = Correctness_Error"
    by (rule system_test_judged_as_pretest [OF _ a]) (simp_all add: run0_def in64_def)
qed

end
