(* ===== verification/Compiler.thy ===== *)
theory Compiler
  imports Test_Worker
begin

text \<open>
  The compilation worker: \<^verbatim>\<open>services/compiler/worker.go\<close> (building an image from an archive or a repository,
  with docker or with a Kaniko job) and the message handler of \<^verbatim>\<open>services/compiler/main.go\<close>.

  The results of processes, of the object store, of the archive reader and of the cluster are
  arguments (\<open>BuildEnv\<close>). A handler returns \<open>None\<close> when it panics or has not ended with the given rounds of waiting.
  Paths are cleaned as \<^verbatim>\<open>path/filepath\<close> does on Unix.
\<close>

section \<open>Paths\<close>

fun cleanParts :: "bool \<Rightarrow> string list \<Rightarrow> string list \<Rightarrow> string list" where
  \<comment> \<open>the components that remain, last one first\<close>
  "cleanParts rooted [] acc = acc"
| "cleanParts rooted (p # ps) acc =
     (if p = '''' \<or> p = ''.'' then cleanParts rooted ps acc
      else if p = ''..'' then
        (case acc of
           [] \<Rightarrow> cleanParts rooted ps (if rooted then [] else [p])
         | a # as \<Rightarrow> if a = ''..'' then cleanParts rooted ps (p # acc) else cleanParts rooted ps as)
      else cleanParts rooted ps (p # acc))"

definition Clean :: "string \<Rightarrow> string" where
  "Clean path =
     (let rooted = (path \<noteq> '''' \<and> hd path = CHR ''/'');
          out = join_char (CHR ''/'') (rev (cleanParts rooted (split_char (CHR ''/'') path) [])) in
      if rooted then CHR ''/'' # out else if out = '''' then ''.'' else out)"

definition pathJoin :: "string \<Rightarrow> string \<Rightarrow> string" where
  \<comment> \<open>\<^verbatim>\<open>filepath.Join\<close> of two elements\<close>
  "pathJoin a b =
     (if a = '''' \<and> b = '''' then ''''
      else if a = '''' then Clean b else if b = '''' then Clean a else Clean (a @ ''/'' @ b))"

definition pathDir :: "string \<Rightarrow> string" where
  \<comment> \<open>\<^verbatim>\<open>filepath.Dir\<close>\<close>
  "pathDir path = Clean (rev (dropWhile (\<lambda>c. c \<noteq> CHR ''/'') (rev path)))"

section \<open>Archives\<close>

record ZipFile =
  zf_Name :: string
  zf_IsDir :: bool
  zf_Content :: "string option" \<comment> \<open>None when the entry cannot be read\<close>

record FileSystem =
  fs_MkdirAll :: "string \<Rightarrow> bool"
  fs_OpenFile :: "string \<Rightarrow> bool"

datatype fsop = Mkdir string | WriteFile string string

fun extractFiles :: "FileSystem \<Rightarrow> string \<Rightarrow> ZipFile list \<Rightarrow> bool \<times> fsop list" where
  \<comment> \<open>success, and the operations done\<close>
  "extractFiles F destDir [] = (True, [])"
| "extractFiles F destDir (file # fs) =
     (let path = pathJoin destDir (zf_Name file) in
      if \<not> HasPrefix (Clean path) (Clean destDir) then extractFiles F destDir fs
      else if zf_IsDir file then map_prod id (Cons (Mkdir path)) (extractFiles F destDir fs)
      else if \<not> fs_MkdirAll F (pathDir path) then (False, [])
      else if \<not> fs_OpenFile F path then (False, [Mkdir (pathDir path)])
      else case zf_Content file of
        None \<Rightarrow> (False, [Mkdir (pathDir path)])
      | Some c \<Rightarrow> map_prod id (\<lambda>ops. Mkdir (pathDir path) # WriteFile path c # ops) (extractFiles F destDir fs))"

definition extractZip :: "(string \<Rightarrow> ZipFile list option) \<Rightarrow> FileSystem \<Rightarrow> string \<Rightarrow> string \<Rightarrow> bool \<times> fsop list" where
  "extractZip unzip F zipBytes destDir =
     (case unzip zipBytes of None \<Rightarrow> (False, []) | Some fs \<Rightarrow> extractFiles F destDir fs)"

section \<open>The protocol of a submission\<close>

fun splitFields :: "string \<Rightarrow> string \<Rightarrow> string list" where
  \<comment> \<open>\<^verbatim>\<open>strings.Fields\<close>, with the word read so far\<close>
  "splitFields [] w = (if w = [] then [] else [w])"
| "splitFields (c # cs) w =
     (if is_space c then (if w = [] then splitFields cs [] else w # splitFields cs []) else splitFields cs (w @ [c]))"

definition trimQuotes :: "string \<Rightarrow> string" where
  "trimQuotes s = (let q = (\<lambda>c. c = CHR 0x22 \<or> c = CHR 0x27) in rev (dropWhile q (rev (dropWhile q s))))"

definition protocolOfLine :: "string \<Rightarrow> string option" where
  "protocolOfLine line0 =
     (let line = TrimSpace line0; parts = splitFields line [] in
      if HasPrefix (ToUpper line) ''ENV ENGINE_PROTOCOL'' \<and> length parts \<ge> 2 then
        let val = join_char (CHR '' '') (tl parts) in
        if CHR ''='' \<in> set val then Some (trimQuotes (TrimSpace (tl (dropWhile (\<lambda>c. c \<noteq> CHR ''='') val))))
        else if length parts \<ge> 3 then Some (trimQuotes (TrimSpace (parts ! 2)))
        else None
      else None)"

fun protocolOfLines :: "string list \<Rightarrow> string" where
  "protocolOfLines [] = ''TCP_PROTOBUF''"
| "protocolOfLines (l # ls) = (case protocolOfLine l of Some p \<Rightarrow> p | None \<Rightarrow> protocolOfLines ls)"

definition ParseProtocolFromDockerfile :: "string \<Rightarrow> string" where
  "ParseProtocolFromDockerfile content = protocolOfLines (split_char (CHR 0x0A) content)"

definition DetectProtocol :: "(string \<Rightarrow> string option) \<Rightarrow> (string \<Rightarrow> ZipFile list option) \<Rightarrow> string \<Rightarrow> string" where
  \<comment> \<open>\<open>getObject\<close> is the content of an object that could be read\<close>
  "DetectProtocol getObject unzip s3Path =
     (if s3Path = '''' then ''TCP_PROTOBUF''
      else case getObject s3Path of
        None \<Rightarrow> ''TCP_PROTOBUF''
      | Some bytes \<Rightarrow>
          (case unzip bytes of
             None \<Rightarrow> ''TCP_PROTOBUF''
           | Some fs \<Rightarrow>
               (case find (\<lambda>f. zf_Name f = ''Dockerfile'' \<and> zf_Content f \<noteq> None) fs of
                  None \<Rightarrow> ''TCP_PROTOBUF''
                | Some f \<Rightarrow> ParseProtocolFromDockerfile (the (zf_Content f)))))"

section \<open>Building an image\<close>

datatype cmdResult = CmdOK | CmdTimeout | CmdFail string string \<comment> \<open>standard error and output\<close>

datatype ktick = \<comment> \<open>one round of waiting for a Kaniko job\<close>
    KCancelled string
  | KTimeout
  | KTick "(int \<times> int) option" "(int \<times> int) option" \<comment> \<open>succeeded and failed pods, at both queries\<close>

datatype kresult = KError string | KTimedOut | KDone bool

fun kanikoWait :: "ktick list \<Rightarrow> kresult option" where
  \<comment> \<open>\<open>None\<close> when the list ends before the loop does\<close>
  "kanikoWait [] = None"
| "kanikoWait (KCancelled e # ts) = Some (KError e)"
| "kanikoWait (KTimeout # ts) = Some KTimedOut"
| "kanikoWait (KTick None _ # ts) = kanikoWait ts"
| "kanikoWait (KTick (Some (succeeded, failed)) again # ts) =
     (if succeeded > 0 then Some (KDone True)
      else case again of
        Some (_, failed2) \<Rightarrow> if failed2 > 0 then Some (KDone False) else kanikoWait ts
      | None \<Rightarrow> kanikoWait ts)"

record BuildEnv =
  be_getenv :: "string \<Rightarrow> string"
  be_cwd :: "string + string"
  be_mkBuildDir :: "string option" \<comment> \<open>the error\<close>
  be_clone :: "(string \<times> string) option" \<comment> \<open>the error and the output\<close>
  be_getObject :: "string \<Rightarrow> string + string"
  be_unzip :: "string \<Rightarrow> ZipFile list option"
  be_fs :: FileSystem
  be_dockerBuild :: "string \<Rightarrow> fsop list \<Rightarrow> cmdResult" \<comment> \<open>of the tag and the directory\<close>
  be_dockerTag :: "string option"
  be_dockerPush :: "string option"
  be_cluster :: "string option" \<comment> \<open>the error of the cluster client\<close>
  be_createJob :: "string \<Rightarrow> string \<Rightarrow> string option" \<comment> \<open>context and destination\<close>
  be_ticks :: "ktick list"
  be_jobLogs :: string

type_synonym buildResult = "string + bool \<times> string \<times> string"

definition kanikoContext :: "string \<Rightarrow> string \<Rightarrow> string \<Rightarrow> string option" where
  "kanikoContext bucket s3Path githubURL =
     (if s3Path \<noteq> '''' then Some (''s3://'' @ bucket @ ''/'' @ s3Path)
      else if githubURL \<noteq> '''' then
        Some (if \<not> HasPrefix githubURL ''git://'' \<and> HasPrefix githubURL ''https://''
              then ''git://'' @ TrimPrefix githubURL ''https://'' else githubURL)
      else None)"

definition kanikoTag :: "string \<Rightarrow> string \<Rightarrow> string" where
  "kanikoTag registryURL submissionID = registryURL @ ''/iicpc-contestants:contestant-'' @ submissionID"

definition buildImageWithKaniko :: "string \<Rightarrow> BuildEnv \<Rightarrow> string \<Rightarrow> string \<Rightarrow> string \<Rightarrow> buildResult option" where
  "buildImageWithKaniko bucket B s3Path githubURL submissionID =
     (case be_cluster B of
        Some e \<Rightarrow> Some (Inl e)
      | None \<Rightarrow>
          (case kanikoContext bucket s3Path githubURL of
             None \<Rightarrow> Some (Inl ''invalid submission: both s3_path and github_url are empty'')
           | Some url \<Rightarrow>
               let registryURL = be_getenv B ''REGISTRY_URL''; remoteTag = kanikoTag registryURL submissionID in
               if registryURL = '''' then Some (Inl ''REGISTRY_URL environment variable is not set'')
               else case be_createJob B url remoteTag of
                 Some e \<Rightarrow> Some (Inl (''failed to create Kaniko Job: '' @ e))
               | None \<Rightarrow>
                   (case kanikoWait (be_ticks B) of
                      None \<Rightarrow> None
                    | Some (KError e) \<Rightarrow> Some (Inl e)
                    | Some KTimedOut \<Rightarrow> Some (Inr (False, '''', ''Build Timeout: The Kaniko build process exceeded the 5-minute limit.''))
                    | Some (KDone True) \<Rightarrow> Some (Inr (True, remoteTag, ''''))
                    | Some (KDone False) \<Rightarrow>
                        Some (Inr (False, '''', if be_jobLogs B = '''' then ''Kaniko build job failed (no logs collected).'' else be_jobLogs B)))))"

definition inCluster :: "(string \<Rightarrow> string) \<Rightarrow> bool" where
  "inCluster getenv \<longleftrightarrow> getenv ''KUBERNETES_SERVICE_HOST'' \<noteq> '''' \<and> getenv ''REGISTRY_URL'' \<noteq> ''''"

definition fetchSource :: "BuildEnv \<Rightarrow> string \<Rightarrow> string \<Rightarrow> string \<Rightarrow> string + string + fsop list" where
  \<comment> \<open>an error, a failed build, or the contents of the directory\<close>
  "fetchSource B s3Path githubURL buildDir =
     (if githubURL \<noteq> '''' then
        (case be_clone B of
           Some (err, out) \<Rightarrow> Inr (Inl (''Git clone failed: '' @ err @ [CHR 0x0A] @ out))
         | None \<Rightarrow> Inr (Inr []))
      else if s3Path \<noteq> '''' then
        (case be_getObject B s3Path of
           Inl e \<Rightarrow> Inl (''failed to get submission ZIP from S3: '' @ e)
         | Inr bytes \<Rightarrow>
             (case extractZip (be_unzip B) (be_fs B) bytes buildDir of
                (False, _) \<Rightarrow> Inr (Inl ''Failed to extract submission ZIP'') \<comment> \<open>and the text of the error\<close>
              | (True, ops) \<Rightarrow> Inr (Inr ops)))
      else Inl ''invalid submission: both github_url and s3_path are empty'')"

definition BuildImage :: "string \<Rightarrow> BuildEnv \<Rightarrow> string \<Rightarrow> string \<Rightarrow> string \<Rightarrow> buildResult option" where
  "BuildImage bucket B s3Path githubURL submissionID =
     (if inCluster (be_getenv B) then buildImageWithKaniko bucket B s3Path githubURL submissionID
      else case be_cwd B of
        Inl e \<Rightarrow> Some (Inl (''failed to get current working directory: '' @ e))
      | Inr cwd \<Rightarrow>
          (case be_mkBuildDir B of
             Some e \<Rightarrow> Some (Inl (''failed to create build directory: '' @ e))
           | None \<Rightarrow>
               (case fetchSource B s3Path githubURL (pathJoin (pathJoin cwd ''scratch'') (''build-'' @ submissionID)) of
                  Inl e \<Rightarrow> Some (Inl e)
                | Inr (Inl stderr) \<Rightarrow> Some (Inr (False, '''', stderr))
                | Inr (Inr ops) \<Rightarrow>
                    let imageTag = ''contestant-'' @ submissionID; registryURL = be_getenv B ''REGISTRY_URL'' in
                    (case be_dockerBuild B imageTag ops of
                       CmdTimeout \<Rightarrow> Some (Inr (False, '''', ''Build Timeout: The Docker build process exceeded the 5-minute limit.''))
                     | CmdFail err out \<Rightarrow> Some (Inr (False, '''', err @ [CHR 0x0A] @ out))
                     | CmdOK \<Rightarrow>
                         if registryURL = '''' then Some (Inr (True, imageTag, ''''))
                         else case be_dockerTag B of
                           Some e \<Rightarrow> Some (Inl (''failed to tag image for registry: '' @ e))
                         | None \<Rightarrow>
                             (case be_dockerPush B of
                                Some e \<Rightarrow> Some (Inl (''failed to push image to registry: '' @ e))
                              | None \<Rightarrow> Some (Inr (True, registryURL @ ''/'' @ imageTag, '''')))))))"


section \<open>One message\<close>

datatype ccall = Update_Building | Update_Built | Update_BuildFailed

record buildArgs =
  ba_bucket :: string
  ba_env :: BuildEnv
  ba_ok :: "ccall \<Rightarrow> bool"
  ba_now :: int

definition failSubmission :: "(ccall \<Rightarrow> bool) \<Rightarrow> int \<Rightarrow> string \<Rightarrow> string \<Rightarrow> string \<Rightarrow> DB \<Rightarrow> DB" where
  "failSubmission ok now submissionID vd stderr d =
     (if ok Update_BuildFailed then updateSubmission now submissionID (setFailed vd (DiagError (ToValidUTF8 (removeNUL stderr)) None)) d
      else d)"

definition testMessage :: "string \<Rightarrow> string \<Rightarrow> string \<Rightarrow> string \<Rightarrow> valmap" where
  "testMessage submissionID imageTag contestantID protocol =
     [(''submission_id'', submissionID), (''image_tag'', imageTag), (''contestant_id'', contestantID), (''protocol'', protocol)]"

definition objectBytes :: "BuildEnv \<Rightarrow> string \<Rightarrow> string option" where
  "objectBytes B path = (case be_getObject B path of Inl _ \<Rightarrow> None | Inr b \<Rightarrow> Some b)"

definition queueTest :: "'q redis_ops \<Rightarrow> buildArgs \<Rightarrow> XMessage \<Rightarrow> string \<Rightarrow> string \<Rightarrow> 'q \<Rightarrow> DB \<Rightarrow> 'q World" where
  \<comment> \<open>the end of \<^verbatim>\<open>processMessage\<close>, after a successful build\<close>
  "queueTest R A m submissionID imageTag q d =
     (let vs = msg_Values m;
          isSystest = (get_or '''' vs ''is_systest'' = ''true'');
          d1 = (if ba_ok A Update_Built then updateSubmission (ba_now A) submissionID (setStatus ''built'') d else d);
          protocol = DetectProtocol (objectBytes (ba_env A)) (be_unzip (ba_env A)) (get_or '''' vs ''s3_path'') in
      case XAdd R (queueOf isSystest) (testMessage submissionID imageTag (get_or '''' vs ''contestant_id'') protocol) q of
        (False, q1) \<Rightarrow>
          \<lparr>redis = q1, db = failSubmission (ba_ok A) (ba_now A) submissionID ''Queue Failure''
             (''Failed to queue for '' @ (if isSystest then ''system tests'' else ''pretests'')) d1\<rparr>
      | (True, q1) \<Rightarrow> \<lparr>redis = snd (AckAndDel R CompilationQueue CompilationGroup (msg_ID m) q1), db = d1\<rparr>)"

definition processMessage :: "'q redis_ops \<Rightarrow> buildArgs \<Rightarrow> XMessage \<Rightarrow> 'q World \<Rightarrow> 'q World option" where
  "processMessage R A m w =
     (let vs = msg_Values m; s3Path = get_or '''' vs ''s3_path''; githubURL = get_or '''' vs ''github_url'';
          acked = (\<lambda>q. snd (AckAndDel R CompilationQueue CompilationGroup (msg_ID m) q)) in
      case map_of vs ''submission_id'' of
        None \<Rightarrow> Some (w\<lparr>redis := acked (redis w)\<rparr>)
      | Some submissionID \<Rightarrow>
          if s3Path = '''' \<and> githubURL = '''' then Some (w\<lparr>redis := acked (redis w)\<rparr>)
          else if length submissionID < 8 then None
          else
            let d1 = (if ba_ok A Update_Building then updateSubmission (ba_now A) submissionID (setStatus ''building'') (db w) else db w) in
            (case BuildImage (ba_bucket A) (ba_env A) s3Path githubURL submissionID of
               None \<Rightarrow> None \<comment> \<open>still waiting for the job\<close>
             | Some (Inl err) \<Rightarrow>
                 (case ShouldRetry R CompilationQueue CompilationGroup (msg_ID m) vs err (redis w) of
                    (True, q1) \<Rightarrow> Some \<lparr>redis = q1, db = d1\<rparr>
                  | (False, q1) \<Rightarrow>
                      Some \<lparr>redis = q1, db = failSubmission (ba_ok A) (ba_now A) submissionID ''System Failure''
                              (''Internal build agent error: '' @ err) d1\<rparr>)
             | Some (Inr (False, _, stderr)) \<Rightarrow>
                 Some \<lparr>redis = acked (redis w),
                       db = failSubmission (ba_ok A) (ba_now A) submissionID
                              (if Contains stderr ''Build Timeout'' then ''Build Timeout'' else ''Build Error'') stderr d1\<rparr>
             | Some (Inr (True, imageTag, _)) \<Rightarrow> Some (queueTest R A m submissionID imageTag (redis w) d1)))"

section \<open>The archive check\<close>

lemma extract_prefix:
  "WriteFile p c \<in> set (snd (extractFiles F destDir fs)) \<Longrightarrow> HasPrefix (Clean p) (Clean destDir)"
  by (induction F destDir fs rule: extractFiles.induct) (auto simp: Let_def split: if_splits option.splits)

definition inside :: "string \<Rightarrow> string \<Rightarrow> bool" where
  \<comment> \<open>the directory itself or below it\<close>
  "inside path dir \<longleftrightarrow> path = dir \<or> HasPrefix path (dir @ ''/'')"

text \<open>The check against entries that leave the build directory compares strings, so it stops every entry whose cleaned
  path does not start with the name of the directory, and lets entries pass that go to a sibling whose name
  only starts with it: such an entry is written outside.\<close>

lemma archive_entry_escapes:
  "(WriteFile ''/app/scratch/build-42x/run'' c \<in>
     set (snd (extractFiles F ''/app/scratch/build-42'' [\<lparr>zf_Name = ''../build-42x/run'', zf_IsDir = False, zf_Content = Some c\<rparr>]))
   \<longleftrightarrow> fs_MkdirAll F ''/app/scratch/build-42x'' \<and> fs_OpenFile F ''/app/scratch/build-42x/run'') \<and>
   \<not> inside ''/app/scratch/build-42x/run'' ''/app/scratch/build-42'' \<and>
   extractFiles F ''/app/scratch/build-42'' [\<lparr>zf_Name = ''../../etc/run'', zf_IsDir = False, zf_Content = Some c\<rparr>] = (True, [])"
proof -
  have p: "pathJoin ''/app/scratch/build-42'' ''../build-42x/run'' = ''/app/scratch/build-42x/run''"
    "pathJoin ''/app/scratch/build-42'' ''../../etc/run'' = ''/app/etc/run''"
    "pathDir ''/app/scratch/build-42x/run'' = ''/app/scratch/build-42x''"
    "Clean ''/app/scratch/build-42x/run'' = ''/app/scratch/build-42x/run''"
    "Clean ''/app/etc/run'' = ''/app/etc/run''" "Clean ''/app/scratch/build-42'' = ''/app/scratch/build-42''"
    by code_simp+
  have h: "HasPrefix ''/app/scratch/build-42x/run'' ''/app/scratch/build-42''" "\<not> HasPrefix ''/app/etc/run'' ''/app/scratch/build-42''"
    by code_simp+
  have "\<not> inside ''/app/scratch/build-42x/run'' ''/app/scratch/build-42''" by code_simp
  then show ?thesis by (simp only: extractFiles.simps ZipFile.simps p h Let_def) simp
qed

section \<open>Uploaded archives\<close>

text \<open>The gateway uploads a compressed tar archive, which the archive reader does not accept as a zip file.\<close>

lemma DetectProtocol_not_zip: "unzip bytes = None \<Longrightarrow> getObject s3Path = Some bytes \<Longrightarrow> DetectProtocol getObject unzip s3Path = ''TCP_PROTOBUF''"
  by (simp add: DetectProtocol_def)

lemma fetchSource_not_zip:
  "be_getObject B s3Path = Inr bytes \<Longrightarrow> be_unzip B bytes = None \<Longrightarrow> s3Path \<noteq> [] \<Longrightarrow>
     fetchSource B s3Path [] dir = Inr (Inl ''Failed to extract submission ZIP'')"
  by (simp add: fetchSource_def extractZip_def)

section \<open>Waiting for a job\<close>

text \<open>The loop ends at the latest when its timeout fires.\<close>

lemma kanikoWait_ends: "KTimeout \<in> set ts \<Longrightarrow> \<exists>r. kanikoWait ts = Some r"
proof (induction ts rule: kanikoWait.induct)
  case (5 succeeded failed again ts)
  then show ?case by (auto split: option.splits)
qed auto

end
