(* ===== verification/Zip_Normalize.thy ===== *)
theory Zip_Normalize
  imports Compiler
begin

text \<open>
  \<^verbatim>\<open>services/gateway/zip_normalize.go\<close>: an uploaded zip archive becomes a compressed tar archive without the
  metadata of macOS and without a single directory around everything. The archive formats are arguments:
  \<open>unzip\<close> reads an archive, \<open>targz\<close> writes one; \<open>headerOK\<close> tells whether a header can be written.
\<close>

record TarEntry =
  te_Name :: string
  te_IsDir :: bool
  te_Content :: string

definition isMetadata :: "string \<Rightarrow> bool" where
  "isMetadata n \<longleftrightarrow> HasPrefix n ''__MACOSX/'' \<or> HasSuffix n ''.DS_Store''"

definition realFiles :: "ZipFile list \<Rightarrow> ZipFile list" where
  "realFiles fs = filter (\<lambda>f. \<not> isMetadata (zf_Name f)) fs"

definition splitRoot :: "string \<Rightarrow> (string \<times> string) option" where
  \<comment> \<open>\<^verbatim>\<open>strings.SplitN(name, "/", 2)\<close> when it has two parts\<close>
  "splitRoot name =
     (case dropWhile (\<lambda>c. c \<noteq> CHR ''/'') name of
        [] \<Rightarrow> None
      | _ # rest \<Rightarrow> Some (takeWhile (\<lambda>c. c \<noteq> CHR ''/'') name, rest))"

fun rootLoop :: "ZipFile list \<Rightarrow> string \<Rightarrow> string" where
  "rootLoop [] prefix = prefix"
| "rootLoop (f # fs) prefix =
     (if zf_IsDir f then rootLoop fs prefix
      else case splitRoot (zf_Name f) of
        None \<Rightarrow> ''''
      | Some (dir, rest) \<Rightarrow>
          if rest = '''' then ''''
          else if prefix = '''' then rootLoop fs (dir @ ''/'')
          else if prefix \<noteq> dir @ ''/'' then '''' else rootLoop fs prefix)"

definition detectRootPrefix :: "ZipFile list \<Rightarrow> string" where
  "detectRootPrefix fs = rootLoop fs ''''"

definition stripName :: "string \<Rightarrow> string \<Rightarrow> string" where
  "stripName prefix name = (if prefix \<noteq> '''' then TrimPrefix name prefix else name)"

fun tarEntries :: "(TarEntry \<Rightarrow> bool) \<Rightarrow> string \<Rightarrow> ZipFile list \<Rightarrow> TarEntry list option" where
  "tarEntries headerOK prefix [] = Some []"
| "tarEntries headerOK prefix (f # fs) =
     (let name = stripName prefix (zf_Name f) in
      if name = '''' \<or> name = ''/'' then tarEntries headerOK prefix fs
      else
        let e = (if zf_IsDir f
                 then \<lparr>te_Name = (if HasSuffix name ''/'' then name else name @ ''/''), te_IsDir = True, te_Content = ''''\<rparr>
                 else \<lparr>te_Name = name, te_IsDir = False, te_Content = (case zf_Content f of Some c \<Rightarrow> c | None \<Rightarrow> '''')\<rparr>) in
        if \<not> headerOK e then None
        else if \<not> zf_IsDir f \<and> zf_Content f = None then None
        else map_option (Cons e) (tarEntries headerOK prefix fs))"

definition normalizeZipToTarGz :: "(string \<Rightarrow> ZipFile list option) \<Rightarrow> (TarEntry \<Rightarrow> bool) \<Rightarrow> (TarEntry list \<Rightarrow> string option) \<Rightarrow> string \<Rightarrow> string + string" where
  "normalizeZipToTarGz unzip headerOK targz data =
     (case unzip data of
        None \<Rightarrow> Inl ''invalid zip''
      | Some fs \<Rightarrow>
          let rs = realFiles fs in
          if rs = [] then Inl ''zip archive is empty after removing metadata''
          else case tarEntries headerOK (detectRootPrefix rs) rs of
            None \<Rightarrow> Inl ''failed to copy the entries''
          | Some es \<Rightarrow> (case targz es of None \<Rightarrow> Inl ''failed to finalize'' | Some out \<Rightarrow> Inr out))"

section \<open>The common root\<close>

lemma splitRoot_iff: "splitRoot n = Some (a, b) \<longleftrightarrow> n = a @ ''/'' @ b \<and> CHR ''/'' \<notin> set a"
proof
  assume "splitRoot n = Some (a, b)"
  then obtain c where d: "dropWhile (\<lambda>c. c \<noteq> CHR ''/'') n = c # b" and a: "a = takeWhile (\<lambda>c. c \<noteq> CHR ''/'') n"
    by (auto simp: splitRoot_def split: list.splits)
  have "c = CHR ''/''" using d by (simp add: dropWhile_eq_Cons_conv)
  then show "n = a @ ''/'' @ b \<and> CHR ''/'' \<notin> set a"
    using d a takeWhile_dropWhile_id [of "\<lambda>c. c \<noteq> CHR ''/''" n] by (auto dest: set_takeWhileD)
next
  assume "n = a @ ''/'' @ b \<and> CHR ''/'' \<notin> set a"
  then show "splitRoot n = Some (a, b)" by (auto simp: splitRoot_def takeWhile_append dropWhile_append)
qed

lemma rootLoop_sound:
  "rootLoop fs prefix = p \<Longrightarrow> p \<noteq> [] \<Longrightarrow>
     (prefix \<noteq> [] \<longrightarrow> p = prefix) \<and> (\<forall>f \<in> set fs. \<not> zf_IsDir f \<longrightarrow> (\<exists>rest. zf_Name f = p @ rest \<and> rest \<noteq> []))"
proof (induction fs prefix rule: rootLoop.induct)
  case (2 f fs prefix)
  show ?case
  proof (cases "zf_IsDir f")
    case False
    then obtain dir rest where s: "splitRoot (zf_Name f) = Some (dir, rest)" "rest \<noteq> []"
      using 2(4,5) by (auto split: option.splits if_splits)
    then have n: "zf_Name f = (dir @ ''/'') @ rest" by (simp add: splitRoot_iff)
    show ?thesis
    proof (cases "prefix = []")
      case True
      then have "rootLoop fs (dir @ ''/'') = p" using 2(4) False s by simp
      from 2(2) [OF False s(1) refl s(2) True this 2(5)] show ?thesis using n s(2) True by auto
    next
      case ne: False
      then have p: "prefix = dir @ ''/''" "rootLoop fs prefix = p" using 2(4,5) False s by (auto split: if_splits)
      from 2(3) [OF False s(1) refl s(2) ne _ p(2) 2(5)] p(1) show ?thesis using n s(2) ne by auto
    qed
  qed (use 2 in auto)
qed simp

lemma rootLoop_complete:
  assumes "CHR ''/'' \<notin> set dir" "\<forall>f \<in> set fs. \<not> zf_IsDir f \<longrightarrow> (\<exists>rest. zf_Name f = dir @ ''/'' @ rest \<and> rest \<noteq> [])"
  shows "rootLoop fs (dir @ ''/'') = dir @ ''/''"
    and "rootLoop fs [] = (if \<exists>f \<in> set fs. \<not> zf_IsDir f then dir @ ''/'' else [])"
proof -
  have s [simp]: "splitRoot (dir @ CHR ''/'' # rest) = Some (dir, rest)" for rest
    using assms(1) by (simp add: splitRoot_iff)
  have keep: "rootLoop gs (dir @ ''/'') = dir @ ''/''" if "set gs \<subseteq> set fs" for gs
    using that assms(2) by (induction gs) auto
  show "rootLoop fs (dir @ ''/'') = dir @ ''/''" by (rule keep) simp
  have "rootLoop gs [] = (if \<exists>f \<in> set gs. \<not> zf_IsDir f then dir @ ''/'' else [])" if "set gs \<subseteq> set fs" for gs
    using that assms(2) by (induction gs) (auto simp: keep)
  then show "rootLoop fs [] = (if \<exists>f \<in> set fs. \<not> zf_IsDir f then dir @ ''/'' else [])" by simp
qed

section \<open>Properties\<close>

definition fileList :: "string \<Rightarrow> ZipFile list \<Rightarrow> (string \<times> string) list" where
  \<comment> \<open>the regular files with their contents, below a root\<close>
  "fileList prefix fs = map (\<lambda>f. (stripName prefix (zf_Name f), the (zf_Content f))) (filter (\<lambda>f. \<not> zf_IsDir f) fs)"

lemma tarEntries_files:
  assumes "tarEntries headerOK p fs = Some es" "\<forall>f \<in> set fs. \<not> zf_IsDir f \<longrightarrow> stripName p (zf_Name f) \<notin> {[], ''/''}"
  shows "map (\<lambda>e. (te_Name e, te_Content e)) (filter (\<lambda>e. \<not> te_IsDir e) es) = fileList p fs"
  using assms
proof (induction headerOK p fs arbitrary: es rule: tarEntries.induct)
  case (2 headerOK p f fs)
  then show ?case by (cases "zf_IsDir f") (auto simp: Let_def fileList_def split: if_splits)
qed (simp add: fileList_def)

lemma stripName_nonempty:
  assumes "detectRootPrefix rs = p" "f \<in> set rs" "\<not> zf_IsDir f" "zf_Name f \<noteq> []" "\<not> HasSuffix (zf_Name f) ''/''"
  shows "zf_Name f = p @ stripName p (zf_Name f) \<and> stripName p (zf_Name f) \<notin> {[], ''/''}"
proof (cases "p = []")
  case True
  then show ?thesis using assms(4,5) by (auto simp: stripName_def HasSuffix_def)
next
  case False
  then obtain rest where "zf_Name f = p @ rest" "rest \<noteq> []"
    using rootLoop_sound [of rs "[]" p] assms(1-3) by (auto simp: detectRootPrefix_def)
  moreover from this have "rest \<noteq> ''/''" using assms(5) by (auto simp: HasSuffix_def)
  ultimately show ?thesis using False by (simp add: stripName_def)
qed

text \<open>C36: The archive that the gateway stores holds exactly the regular files of the upload that are not metadata, in the same order and with
  their contents; a directory around all of them is removed from their names, and otherwise the names are
  unchanged.\<close>

theorem normalized_archive_keeps_files:
  assumes "unzip data = Some fs" "normalizeZipToTarGz unzip headerOK targz data = Inr out"
    and names: "\<forall>f \<in> set fs. \<not> zf_IsDir f \<longrightarrow> zf_Name f \<noteq> [] \<and> \<not> HasSuffix (zf_Name f) ''/''"
  shows "\<exists>p es. targz es = Some out \<and>
           map (\<lambda>e. (te_Name e, te_Content e)) (filter (\<lambda>e. \<not> te_IsDir e) es) = fileList p (realFiles fs) \<and>
           (\<forall>f \<in> set (realFiles fs). \<not> zf_IsDir f \<longrightarrow> zf_Name f = p @ stripName p (zf_Name f)) \<and>
           (\<forall>dir. CHR ''/'' \<notin> set dir \<and> (\<exists>f \<in> set (realFiles fs). \<not> zf_IsDir f) \<and>
              (\<forall>f \<in> set (realFiles fs). \<not> zf_IsDir f \<longrightarrow> (\<exists>rest. zf_Name f = dir @ ''/'' @ rest \<and> rest \<noteq> [])) \<longrightarrow> p = dir @ ''/'')"
proof -
  let ?rs = "realFiles fs" let ?p = "detectRootPrefix ?rs"
  obtain es where es: "tarEntries headerOK ?p ?rs = Some es" "targz es = Some out"
    using assms(1,2) by (auto simp: normalizeZipToTarGz_def Let_def split: if_splits option.splits)
  have n: "zf_Name f = ?p @ stripName ?p (zf_Name f) \<and> stripName ?p (zf_Name f) \<notin> {[], ''/''}"
    if "f \<in> set ?rs" "\<not> zf_IsDir f" for f
    using stripName_nonempty [OF refl that] names that by (simp add: realFiles_def)
  show ?thesis
  proof (intro exI conjI allI impI)
    show "targz es = Some out" by (rule es)
    show "map (\<lambda>e. (te_Name e, te_Content e)) (filter (\<lambda>e. \<not> te_IsDir e) es) = fileList ?p ?rs"
      by (rule tarEntries_files [OF es(1)]) (use n in blast)
    show "\<forall>f \<in> set ?rs. \<not> zf_IsDir f \<longrightarrow> zf_Name f = ?p @ stripName ?p (zf_Name f)" using n by blast
    show "?p = dir @ ''/''" if "CHR ''/'' \<notin> set dir \<and> (\<exists>f \<in> set ?rs. \<not> zf_IsDir f) \<and>
        (\<forall>f \<in> set ?rs. \<not> zf_IsDir f \<longrightarrow> (\<exists>rest. zf_Name f = dir @ ''/'' @ rest \<and> rest \<noteq> []))" for dir
      using that rootLoop_complete(2) [of dir ?rs] by (simp add: detectRootPrefix_def)
  qed
qed

definition zip0 :: "ZipFile list" where
  "zip0 = [\<lparr>zf_Name = ''app/'', zf_IsDir = True, zf_Content = None\<rparr>, \<lparr>zf_Name = ''app/Dockerfile'', zf_IsDir = False, zf_Content = Some ''FROM go''\<rparr>,
     \<lparr>zf_Name = ''__MACOSX/app/x'', zf_IsDir = False, zf_Content = Some ''m''\<rparr>, \<lparr>zf_Name = ''app/src/main.go'', zf_IsDir = False, zf_Content = Some ''go''\<rparr>]"

definition targz0 :: "TarEntry list \<Rightarrow> string option" where
  "targz0 es = Some (concat (map te_Name es))"

theorem normalized_archive_keeps_files_witness:
  "\<exists>p es. targz0 es = Some ''Dockerfilesrc/main.go'' \<and>
     map (\<lambda>e. (te_Name e, te_Content e)) (filter (\<lambda>e. \<not> te_IsDir e) es) = fileList p (realFiles zip0)"
proof -
  have n: "normalizeZipToTarGz (\<lambda>d. Some zip0) (\<lambda>e. True) targz0 ''upload'' = Inr ''Dockerfilesrc/main.go''" by code_simp
  have "\<forall>f \<in> set zip0. \<not> zf_IsDir f \<longrightarrow> zf_Name f \<noteq> [] \<and> \<not> HasSuffix (zf_Name f) ''/''" by code_simp
  from normalized_archive_keeps_files [OF refl n this] show ?thesis by blast
qed

end
