(* ===== verification/Gateway_Auth.thy ===== *)
theory Gateway_Auth
  imports Platform
begin

text \<open>
  Accounts and sessions: \<^verbatim>\<open>services/gateway/auth.go\<close>. The token library, the password hash, the generator of
  identifiers and GitHub are not part of the sources: they are the fields of \<open>auth_ops\<close> and arguments of the
  handlers, and \<open>auth_services\<close> states what is used of them. A handler returns its reply, the token it sets as
  a cookie and the database.

  \<open>auth_step\<close> lets registrations and logins of any kind happen in any order; \<open>admin_requires_admin_handle\<close>
  is proved over its reachable states. Handles are ASCII.
\<close>

section \<open>Data\<close>

record Claims =
  cl_UserID :: string
  cl_Handle :: string
  cl_Role :: string
  cl_ExpiresAt :: int
  cl_IssuedAt :: int

record auth_ops =
  SignedString :: "Claims \<Rightarrow> string option"
  ParseWithClaims :: "int \<Rightarrow> string \<Rightarrow> Claims option" \<comment> \<open>the claims of a valid token, at a time\<close>
  GenerateFromPassword :: "string \<Rightarrow> string option"
  CompareHashAndPassword :: "string \<Rightarrow> string \<Rightarrow> bool"

record Request =
  rq_cookie :: string
  rq_authorization :: string
  rq_user_id :: "string option" \<comment> \<open>the values a middleware leaves for the handlers\<close>
  rq_handle :: "string option"
  rq_role :: "string option"

datatype 'a reply = Reply nat 'a | Fail nat string

record UserInfo =
  ui_user_id :: string
  ui_handle :: string
  ui_email :: string
  ui_role :: string

definition day :: int where "day = 24 * 3600 * 1000000000"

definition generateToken :: "auth_ops \<Rightarrow> int \<Rightarrow> string \<Rightarrow> string \<Rightarrow> string \<Rightarrow> string option" where
  "generateToken X now userID handle role =
     SignedString X \<lparr>cl_UserID = userID, cl_Handle = handle, cl_Role = role, cl_ExpiresAt = now + day, cl_IssuedAt = now\<rparr>"

section \<open>Middleware\<close>

definition tokenOf :: "Request \<Rightarrow> string" where
  "tokenOf rq =
     (if rq_cookie rq = '''' \<and> HasPrefix (rq_authorization rq) ''Bearer '' then TrimPrefix (rq_authorization rq) ''Bearer ''
      else rq_cookie rq)"

definition setLocals :: "Claims \<Rightarrow> Request \<Rightarrow> Request" where
  "setLocals c rq = rq\<lparr>rq_user_id := Some (cl_UserID c), rq_handle := Some (cl_Handle c), rq_role := Some (cl_Role c)\<rparr>"

definition optionalAuth :: "auth_ops \<Rightarrow> int \<Rightarrow> Request \<Rightarrow> Request" where
  "optionalAuth X now rq =
     (if tokenOf rq = '''' then rq
      else case ParseWithClaims X now (tokenOf rq) of None \<Rightarrow> rq | Some c \<Rightarrow> setLocals c rq)"

definition requireAuth :: "auth_ops \<Rightarrow> int \<Rightarrow> Request \<Rightarrow> Request reply" where
  \<comment> \<open>status 200 stands for the call of the next handler\<close>
  "requireAuth X now rq =
     (if tokenOf rq = '''' then Fail 401 ''Authentication required''
      else case ParseWithClaims X now (tokenOf rq) of
        None \<Rightarrow> Fail 401 ''Invalid or expired token''
      | Some c \<Rightarrow> Reply 200 (setLocals c rq))"

definition requireAdmin :: "Request \<Rightarrow> Request reply" where
  "requireAdmin rq =
     (if rq_role rq = None \<or> rq_role rq \<noteq> Some ''admin'' then Fail 403 ''Admin privileges required'' else Reply 200 rq)"

definition adminRoute :: "auth_ops \<Rightarrow> int \<Rightarrow> Request \<Rightarrow> Request reply" where
  \<comment> \<open>the chain in front of the handlers below \<^verbatim>\<open>/api/v1/admin\<close>\<close>
  "adminRoute X now rq = (case requireAuth X now rq of Reply _ rq1 \<Rightarrow> requireAdmin rq1 | Fail s e \<Rightarrow> Fail s e)"

section \<open>Handlers\<close>

definition insertUser :: "UserRow \<Rightarrow> DB \<Rightarrow> DB option" where
  \<comment> \<open>\<open>None\<close> when a key is taken; null values do not collide\<close>
  "insertUser r d =
     (if list_ex (\<lambda>u. usr_id u = usr_id r \<or> usr_handle u = usr_handle r \<or>
           usr_email u \<noteq> None \<and> usr_email u = usr_email r \<or> usr_github_id u \<noteq> None \<and> usr_github_id u = usr_github_id r) (users d)
      then None else Some (d\<lparr>users := users d @ [r]\<rparr>))"

definition roleOf :: "string \<Rightarrow> string" where
  "roleOf handle = (if ToLower handle = ''admin'' then ''admin'' else ''contestant'')"

record RegisterBody =
  rb_Handle :: string
  rb_Email :: string
  rb_Password :: string

type_synonym 'a session_reply = "'a reply \<times> string option \<times> DB" \<comment> \<open>with the token of the cookie\<close>

definition handleRegister :: "auth_ops \<Rightarrow> bool \<Rightarrow> int \<Rightarrow> string \<Rightarrow> RegisterBody option \<Rightarrow> DB \<Rightarrow> UserInfo session_reply" where
  "handleRegister X dbOK now uuid body d =
     (case body of
        None \<Rightarrow> (Fail 400 ''Invalid request body'', None, d)
      | Some b \<Rightarrow>
          let handle = TrimSpace (rb_Handle b); email = TrimSpace (rb_Email b) in
          if handle = '''' \<or> email = '''' \<or> rb_Password b = '''' then (Fail 400 ''Handle, email, and password are required'', None, d)
          else if length (rb_Password b) < 6 then (Fail 400 ''Password must be at least 6 characters'', None, d)
          else case GenerateFromPassword X (rb_Password b) of
            None \<Rightarrow> (Fail 500 ''Password hashing failed'', None, d)
          | Some hash \<Rightarrow>
              let role = roleOf handle in
              if \<not> dbOK then (Fail 500 ''Failed to create user'', None, d)
              else case insertUser \<lparr>usr_id = uuid, usr_handle = handle, usr_email = Some email, usr_password_hash = Some hash,
                                    usr_github_id = None, usr_role = role\<rparr> d of
                None \<Rightarrow> (Fail 409 ''Handle or email already registered'', None, d)
              | Some d1 \<Rightarrow>
                  (case generateToken X now uuid handle role of
                     None \<Rightarrow> (Fail 500 ''Failed to generate token'', None, d1)
                   | Some tok \<Rightarrow>
                       (Reply 200 \<lparr>ui_user_id = uuid, ui_handle = handle, ui_email = email, ui_role = role\<rparr>, Some tok, d1)))"

definition handleLogin :: "auth_ops \<Rightarrow> bool \<Rightarrow> int \<Rightarrow> (string \<times> string) option \<Rightarrow> DB \<Rightarrow> UserInfo session_reply" where
  "handleLogin X dbOK now body d =
     (case body of
        None \<Rightarrow> (Fail 400 ''Invalid request body'', None, d)
      | Some (h, password) \<Rightarrow>
          let name = TrimSpace h in
          if \<not> dbOK then (Fail 500 ''Database error'', None, d)
          else case find (\<lambda>u. usr_handle u = name \<or> usr_email u = Some name) (users d) of
            None \<Rightarrow> (Fail 401 ''Invalid credentials'', None, d)
          | Some u \<Rightarrow>
              if usr_password_hash u = None \<or> usr_password_hash u = Some '''' then (Fail 401 ''Please sign in using GitHub'', None, d)
              else if \<not> CompareHashAndPassword X (the (usr_password_hash u)) password then (Fail 401 ''Invalid credentials'', None, d)
              else case generateToken X now (usr_id u) (usr_handle u) (usr_role u) of
                None \<Rightarrow> (Fail 500 ''Failed to generate token'', None, d)
              | Some tok \<Rightarrow>
                  (Reply 200 \<lparr>ui_user_id = usr_id u, ui_handle = usr_handle u,
                              ui_email = (case usr_email u of None \<Rightarrow> '''' | Some e \<Rightarrow> e), ui_role = usr_role u\<rparr>, Some tok, d))"

definition handleLogout :: "DB \<Rightarrow> string session_reply" where
  \<comment> \<open>the cookie is set to the empty string\<close>
  "handleLogout d = (Reply 200 ''ok'', Some '''', d)"

definition handleMe :: "Request \<Rightarrow> (string \<times> string \<times> string) reply" where
  "handleMe rq =
     (case (rq_user_id rq, rq_handle rq, rq_role rq) of
        (Some u, Some h, Some r) \<Rightarrow> Reply 200 (u, h, r)
      | _ \<Rightarrow> Fail 401 ''Not authenticated'')"

definition handleGitHubLogin :: "(string \<Rightarrow> string) \<Rightarrow> (string \<Rightarrow> string) \<Rightarrow> string reply" where
  \<comment> \<open>the address of the redirect; \<open>escape\<close> is \<^verbatim>\<open>url.QueryEscape\<close>\<close>
  "handleGitHubLogin escape getenv =
     (let clientID = getenv ''GITHUB_CLIENT_ID''; r = getenv ''GITHUB_REDIRECT_URI'' in
      if clientID = '''' then Fail 503 ''GitHub OAuth is not configured on the server. Please register manually.''
      else Reply 307 (''https://github.com/login/oauth/authorize?client_id='' @ escape clientID @ ''&redirect_uri='' @
             escape (if r = '''' then ''http://localhost:3000/api/v1/auth/github/callback'' else r) @ ''&scope=user:email''))"

record GitHubUser =
  gh_ID :: int
  gh_Login :: string
  gh_Email :: string

datatype githubReply = \<comment> \<open>what the two requests to GitHub return\<close>
    GitHubFailed string \<comment> \<open>the code of the error page\<close>
  | GitHubOK GitHubUser

definition githubUpsert :: "string \<Rightarrow> int \<Rightarrow> GitHubUser \<Rightarrow> DB \<Rightarrow> (string \<times> string \<times> string \<times> DB) option" where
  \<comment> \<open>user, handle, role and database; \<open>None\<close> when the insert fails\<close>
  "githubUpsert uuid unix g d =
     (case find (\<lambda>u. usr_github_id u = Some (Itoa (gh_ID g))) (users d) of
        Some u \<Rightarrow> Some (usr_id u, usr_handle u, usr_role u, d)
      | None \<Rightarrow>
          let role = roleOf (gh_Login g);
              handle = (if list_ex (\<lambda>u. usr_handle u = gh_Login g) (users d) then gh_Login g @ ''-'' @ Itoa (unix mod 1000) else gh_Login g) in
          map_option (\<lambda>d1. (uuid, handle, role, d1))
            (insertUser \<lparr>usr_id = uuid, usr_handle = handle, usr_email = Some (gh_Email g), usr_password_hash = None,
                         usr_github_id = Some (Itoa (gh_ID g)), usr_role = role\<rparr> d))"

definition handleGitHubCallback :: "auth_ops \<Rightarrow> (string \<Rightarrow> string) \<Rightarrow> bool \<Rightarrow> int \<Rightarrow> string \<Rightarrow> string \<Rightarrow> githubReply \<Rightarrow> DB \<Rightarrow> string session_reply" where
  \<comment> \<open>the reply is the address of the redirect\<close>
  "handleGitHubCallback X getenv dbOK now uuid code gh d =
     (let err = (\<lambda>e. (Reply 307 (''/#/login?error='' @ e), None, d)) in
      if code = '''' then err ''no_code''
      else if getenv ''GITHUB_CLIENT_ID'' = '''' \<or> getenv ''GITHUB_CLIENT_SECRET'' = '''' then err ''oauth_unconfigured''
      else case gh of
        GitHubFailed e \<Rightarrow> err e
      | GitHubOK g \<Rightarrow>
          if gh_Login g = '''' then err ''missing_github_handle''
          else if \<not> dbOK then err ''db_fetch_failed''
          else case githubUpsert uuid (now div 1000000000) g d of
            None \<Rightarrow> err ''db_insert_failed''
          | Some (userID, handle, role, d1) \<Rightarrow>
              (case generateToken X now userID handle role of
                 None \<Rightarrow> (Reply 307 ''/#/login?error=token_generation_failed'', None, d1)
               | Some tok \<Rightarrow> (Reply 307 ''/#/arena'', Some tok, d1)))"


lemma find_snoc: "find P (xs @ [x]) = (case find P xs of Some y \<Rightarrow> Some y | None \<Rightarrow> if P x then Some x else None)"
  by (induction xs) auto

section \<open>What is used of the libraries\<close>

locale auth_services =
  fixes X :: auth_ops
  assumes parse_signed: "SignedString X c = Some tok \<Longrightarrow> ParseWithClaims X now tok = (if now < cl_ExpiresAt c then Some c else None)"
    and compare_hash: "GenerateFromPassword X p = Some h \<Longrightarrow> h \<noteq> [] \<and> CompareHashAndPassword X h p"
begin

text \<open>A session started by a handler is accepted for a day, with the identity of the user.\<close>

lemma session_valid:
  assumes "generateToken X now u h r = Some tok" "tok \<noteq> []" "now' < now + day" "rq_cookie rq = tok"
  shows "requireAuth X now' rq = Reply 200 (rq\<lparr>rq_user_id := Some u, rq_handle := Some h, rq_role := Some r\<rparr>)"
  using assms parse_signed by (auto simp: generateToken_def requireAuth_def tokenOf_def setLocals_def)

end

section \<open>Reachable accounts\<close>

record AuthState =
  as_db :: DB
  as_issued :: "(string \<times> Claims) list" \<comment> \<open>the tokens the server has signed\<close>

definition issue :: "string option \<Rightarrow> Claims \<Rightarrow> (string \<times> Claims) list \<Rightarrow> (string \<times> Claims) list" where
  "issue tok c is = (case tok of None \<Rightarrow> is | Some t \<Rightarrow> is @ [(t, c)])"

inductive auth_step :: "auth_ops \<Rightarrow> AuthState \<Rightarrow> AuthState \<Rightarrow> bool" for X where
  register: "handleRegister X dbOK now uuid body (as_db s) = (Reply n ui, Some tok, d) \<Longrightarrow>
    auth_step X s \<lparr>as_db = d, as_issued = as_issued s @
      [(tok, \<lparr>cl_UserID = ui_user_id ui, cl_Handle = ui_handle ui, cl_Role = ui_role ui, cl_ExpiresAt = now + day, cl_IssuedAt = now\<rparr>)]\<rparr>"
| register_failed: "handleRegister X dbOK now uuid body (as_db s) = (Fail n e, None, d) \<Longrightarrow> auth_step X s (s\<lparr>as_db := d\<rparr>)"
| login: "handleLogin X dbOK now body (as_db s) = (Reply n ui, Some tok, d) \<Longrightarrow>
    auth_step X s \<lparr>as_db = d, as_issued = as_issued s @
      [(tok, \<lparr>cl_UserID = ui_user_id ui, cl_Handle = ui_handle ui, cl_Role = ui_role ui, cl_ExpiresAt = now + day, cl_IssuedAt = now\<rparr>)]\<rparr>"
| github: "githubUpsert uuid (now div 1000000000) g (as_db s) = Some (u, h, r, d) \<Longrightarrow>
    handleGitHubCallback X getenv dbOK now uuid code (GitHubOK g) (as_db s) = (Reply n url, Some tok, d) \<Longrightarrow>
    auth_step X s \<lparr>as_db = d, as_issued = as_issued s @
      [(tok, \<lparr>cl_UserID = u, cl_Handle = h, cl_Role = r, cl_ExpiresAt = now + day, cl_IssuedAt = now\<rparr>)]\<rparr>"
| github_failed: "handleGitHubCallback X getenv dbOK now uuid code gh (as_db s) = (Reply n url, None, d) \<Longrightarrow> auth_step X s (s\<lparr>as_db := d\<rparr>)"

inductive_cases auth_stepE: "auth_step X s s'"

definition adminHandle :: "string \<Rightarrow> bool" where
  \<comment> \<open>\<^verbatim>\<open>admin\<close> in any case, or with the suffix that a taken handle gets\<close>
  "adminHandle h \<longleftrightarrow> (\<exists>b c. h = b @ c \<and> ToLower b = ''admin'' \<and> (c = [] \<or> hd c = CHR ''-''))"

definition accounts_ok :: "AuthState \<Rightarrow> bool" where
  "accounts_ok s \<longleftrightarrow>
     (\<forall>u \<in> set (users (as_db s)). usr_role u = ''admin'' \<longrightarrow> adminHandle (usr_handle u)) \<and>
     (\<forall>(tok, c) \<in> set (as_issued s). \<exists>u \<in> set (users (as_db s)). usr_id u = cl_UserID c \<and> usr_handle u = cl_Handle c \<and> usr_role u = cl_Role c)"

lemma roleOf_admin: "roleOf h = ''admin'' \<longleftrightarrow> ToLower h = ''admin''"
  by (simp add: roleOf_def)

lemma adminHandle_plain: "ToLower h = ''admin'' \<Longrightarrow> adminHandle h"
  unfolding adminHandle_def by (intro exI [of _ h] exI [of _ "[]"]) simp

lemma adminHandle_suffix: "ToLower h = ''admin'' \<Longrightarrow> adminHandle (h @ ''-'' @ s)"
  unfolding adminHandle_def by (intro exI [of _ h] exI [of _ "''-'' @ s"]) simp

lemma insertUser_users: "insertUser r d = Some d' \<Longrightarrow> users d' = users d @ [r]"
  by (auto simp: insertUser_def split: if_splits)

lemma register_users:
  assumes "handleRegister X dbOK now uuid body d = (r, t, d')"
  shows "users d' = users d \<and> t = None \<or> (\<exists>u. users d' = users d @ [u] \<and> usr_role u = roleOf (usr_handle u) \<and>
    (\<forall>n ui. r = Reply n ui \<longrightarrow> usr_id u = ui_user_id ui \<and> usr_handle u = ui_handle ui \<and> usr_role u = ui_role ui))"
  using assms by (auto simp: handleRegister_def Let_def dest!: insertUser_users split: option.splits if_splits)

lemma login_user:
  assumes "handleLogin X dbOK now body d = (Reply n ui, t, d')"
  shows "d' = d \<and> (\<exists>u \<in> set (users d). usr_id u = ui_user_id ui \<and> usr_handle u = ui_handle ui \<and> usr_role u = ui_role ui)"
  using assms by (auto simp: handleLogin_def Let_def find_Some_iff split: option.splits if_splits) (metis nth_mem)+

lemma upsert_user:
  assumes "githubUpsert uuid unix g d = Some (u, h, r, d')"
  shows "(d' = d \<and> (\<exists>x \<in> set (users d). usr_id x = u \<and> usr_handle x = h \<and> usr_role x = r)) \<or>
         (\<exists>x. users d' = users d @ [x] \<and> usr_id x = u \<and> usr_handle x = h \<and> usr_role x = r \<and> (r = ''admin'' \<longrightarrow> adminHandle h))"
proof (cases "find (\<lambda>u. usr_github_id u = Some (Itoa (gh_ID g))) (users d)")
  case (Some x)
  then have "x \<in> set (users d)" by (auto simp: find_Some_iff)
  then show ?thesis using assms Some by (auto simp: githubUpsert_def)
next
  case None
  then show ?thesis using assms
    by (auto simp: githubUpsert_def Let_def roleOf_admin adminHandle_plain adminHandle_suffix [of _ "Itoa _", simplified]
        dest!: insertUser_users)
qed

lemma github_db:
  assumes "handleGitHubCallback X getenv dbOK now uuid code gh d = (r, None, d')"
  shows "d' = d \<or> (\<exists>g u h ro. githubUpsert uuid (now div 1000000000) g d = Some (u, h, ro, d'))"
  using assms by (auto simp: handleGitHubCallback_def Let_def split: githubReply.splits option.splits if_splits prod.splits)

lemma accounts_ok_step:
  assumes "auth_step X s s'" "accounts_ok s"
  shows "accounts_ok s'"
  using assms
proof (cases rule: auth_step.cases)
  case (register dbOK now uuid body n ui tok d)
  then show ?thesis using assms(2) register_users [OF register(2)]
    by (auto simp: accounts_ok_def roleOf_admin adminHandle_plain)
next
  case (register_failed dbOK now uuid body n e d)
  then show ?thesis using assms(2) register_users [OF register_failed(2)]
    by (fastforce simp: accounts_ok_def roleOf_admin adminHandle_plain)
next
  case (login dbOK now body n ui tok d)
  then show ?thesis using assms(2) login_user [OF login(2)] by (auto simp: accounts_ok_def)
next
  case (github uuid now g u h r d)
  then show ?thesis using assms(2) upsert_user [OF github(2)] by (fastforce simp: accounts_ok_def)
next
  case (github_failed getenv dbOK now uuid code gh n url d)
  then show ?thesis using assms(2) github_db [OF github_failed(2)] upsert_user by (fastforce simp: accounts_ok_def)
qed


lemma accounts_ok_reachable:
  assumes "(auth_step X)\<^sup>*\<^sup>* \<lparr>as_db = d, as_issued = []\<rparr> s" "users d = []"
  shows "accounts_ok s"
  using assms(1)
proof (induction rule: rtranclp_induct)
  case base
  then show ?case by (simp add: accounts_ok_def assms(2))
next
  case (step s s')
  then show ?case using accounts_ok_step by blast
qed

lemma adminRoute_passes:
  assumes "adminRoute X now rq = Reply n rq'"
  shows "\<exists>c. ParseWithClaims X now (tokenOf rq) = Some c \<and> rq' = setLocals c rq \<and> cl_Role c = ''admin''"
  using assms by (auto simp: adminRoute_def requireAuth_def requireAdmin_def setLocals_def split: if_splits option.splits reply.splits)

text \<open>C31: Whatever registrations and logins happened since the tables were empty, a request that passes the middleware of the
  administration routes carries the session of a stored user with the role \<^verbatim>\<open>admin\<close> whose handle is the word
  admin in some case, possibly with the suffix given to a taken GitHub name, provided that only tokens
  signed by the server parse.\<close>

theorem admin_requires_admin_handle:
  assumes "(auth_step X)\<^sup>*\<^sup>* \<lparr>as_db = d, as_issued = []\<rparr> s" "users d = []"
    and unforgeable: "\<And>tok c. ParseWithClaims X now tok = Some c \<Longrightarrow> (tok, c) \<in> set (as_issued s)"
    and "adminRoute X now rq = Reply n rq'"
  shows "\<exists>u \<in> set (users (as_db s)). rq_user_id rq' = Some (usr_id u) \<and> usr_role u = ''admin'' \<and> adminHandle (usr_handle u)"
proof -
  obtain c where c: "ParseWithClaims X now (tokenOf rq) = Some c" "rq' = setLocals c rq" "cl_Role c = ''admin''"
    using adminRoute_passes [OF assms(4)] by blast
  have ok: "accounts_ok s" by (rule accounts_ok_reachable [OF assms(1,2)])
  obtain u where "u \<in> set (users (as_db s))" "usr_id u = cl_UserID c" "usr_role u = cl_Role c"
    using ok unforgeable [OF c(1)] by (auto simp: accounts_ok_def)
  moreover from this have "adminHandle (usr_handle u)" using ok c(3) by (simp add: accounts_ok_def)
  ultimately show ?thesis using c(2,3) by (intro bexI [of _ u]) (simp_all add: setLocals_def)
qed


text \<open>Only one account can be created through GitHub for users who keep their email address private: it is stored as the
  empty string, which the unique column accepts once, and every further such user is sent back to the
  login page.\<close>

lemma github_private_emails_collide:
  assumes "u \<in> set (users d)" "usr_email u = Some []"
    and "gh_Email g = []" "gh_Login g \<noteq> []" "\<forall>x \<in> set (users d). usr_github_id x \<noteq> Some (Itoa (gh_ID g))"
    and "code \<noteq> []" "getenv ''GITHUB_CLIENT_ID'' \<noteq> []" "getenv ''GITHUB_CLIENT_SECRET'' \<noteq> []"
  shows "handleGitHubCallback X getenv True now uuid code (GitHubOK g) d = (Reply 307 ''/#/login?error=db_insert_failed'', None, d)"
proof -
  have "find (\<lambda>u. usr_github_id u = Some (Itoa (gh_ID g))) (users d) = None" using assms(5) by (simp add: find_None_iff)
  then have "githubUpsert uuid (now div 1000000000) g d = None"
    using assms(1-3) by (auto simp: githubUpsert_def insertUser_def list_ex_iff Let_def)
  then show ?thesis using assms(4,6-8) by (simp add: handleGitHubCallback_def Let_def)
qed

section \<open>A token library\<close>

text \<open>Fields are terminated by a semicolon, with every character marked.\<close>

fun encField :: "string \<Rightarrow> string" where
  "encField [] = '';''"
| "encField (c # cs) = CHR ''x'' # c # encField cs"

fun decField :: "string \<Rightarrow> string \<times> string" where
  "decField (CHR ''x'' # c # cs) = map_prod (Cons c) id (decField cs)"
| "decField (c # cs) = ([], cs)"
| "decField [] = ([], [])"

lemma decField_encField [simp]: "decField (encField s @ r) = (s, r)"
  by (induction s) auto

definition auth0 :: auth_ops where
  "auth0 =
     \<lparr>SignedString = (\<lambda>c. Some (encField (cl_UserID c) @ encField (cl_Handle c) @ encField (cl_Role c) @
        (if cl_ExpiresAt c < 0 then ''-'' else ''+'') @ encField (utoa (nat \<bar>cl_ExpiresAt c\<bar>)) @
        (if cl_IssuedAt c < 0 then ''-'' else ''+'') @ encField (utoa (nat \<bar>cl_IssuedAt c\<bar>)))),
      ParseWithClaims = (\<lambda>now t.
        let (u, t1) = decField t; (h, t2) = decField t1; (r, t3) = decField t2;
            num = (\<lambda>s. case s of [] \<Rightarrow> (0, []) | c # cs \<Rightarrow> (case decField cs of (ds, r) \<Rightarrow> ((if c = CHR ''-'' then - 1 else 1) * int (atou ds), r)));
            (e, t4) = num t3; (i, t5) = num t4 in
        if now < e then Some \<lparr>cl_UserID = u, cl_Handle = h, cl_Role = r, cl_ExpiresAt = e, cl_IssuedAt = i\<rparr> else None),
      GenerateFromPassword = (\<lambda>p. Some (encField p)),
      CompareHashAndPassword = (\<lambda>h p. h = encField p)\<rparr>"

lemma encField_nonempty [simp]: "encField s \<noteq> []"
  by (cases s) auto

interpretation auth0: auth_services auth0
proof
  fix c :: Claims and tok now
  assume a: "SignedString auth0 c = Some tok"
  have d: "decField (encField s) = (s, [])" for s using decField_encField [of s "[]"] by simp
  show "ParseWithClaims auth0 now tok = (if now < cl_ExpiresAt c then Some c else None)"
    using a by (cases c) (auto simp: auth0_def d Let_def)
qed (auto simp: auth0_def)

definition body0 :: RegisterBody where
  "body0 = \<lparr>rb_Handle = '' Admin'', rb_Email = ''a@b'', rb_Password = ''secret1''\<rparr>"

definition users0 :: DB where
  "users0 = \<lparr>submissions = [], submission_sources = [], users = [], arenas = [], arena_registrations = []\<rparr>"

definition ui0 :: UserInfo where
  "ui0 = \<lparr>ui_user_id = ''u1'', ui_handle = ''Admin'', ui_email = ''a@b'', ui_role = ''admin''\<rparr>"

definition usr0 :: UserRow where
  "usr0 = \<lparr>usr_id = ''u1'', usr_handle = ''Admin'', usr_email = Some ''a@b'', usr_password_hash = Some (encField ''secret1''),
     usr_github_id = None, usr_role = ''admin''\<rparr>"

lemma body0_simps: "TrimSpace (rb_Handle body0) = ''Admin''" "TrimSpace (rb_Email body0) = ''a@b''" "roleOf ''Admin'' = ''admin''"
    "rb_Password body0 = ''secret1''"
  by code_simp+

lemma generateToken_auth0: "\<exists>t. generateToken auth0 now u h r = Some t \<and> t \<noteq> []"
  by (simp add: generateToken_def auth0_def)

lemma register0:
  assumes "generateToken Y 5 ''u1'' ''Admin'' ''admin'' = Some tok" "GenerateFromPassword Y = GenerateFromPassword auth0"
  shows "handleRegister Y True 5 ''u1'' (Some body0) users0 = (Reply 200 ui0, Some tok, users0\<lparr>users := [usr0]\<rparr>)"
  using assms by (simp add: handleRegister_def body0_simps Let_def auth0_def insertUser_def users0_def ui0_def usr0_def)


definition token0 :: string where
  "token0 = the (generateToken auth0 5 ''u1'' ''Admin'' ''admin'')"

definition claims0 :: Claims where
  "claims0 = \<lparr>cl_UserID = ''u1'', cl_Handle = ''Admin'', cl_Role = ''admin'', cl_ExpiresAt = 5 + day, cl_IssuedAt = 5\<rparr>"

definition closed0 :: auth_ops where
  \<comment> \<open>the library after one registration: it accepts the token it signed\<close>
  "closed0 = auth0\<lparr>ParseWithClaims := (\<lambda>now t. if t = token0 then Some claims0 else None)\<rparr>"

theorem admin_requires_admin_handle_witness:
  "adminRoute closed0 6 \<lparr>rq_cookie = token0, rq_authorization = [], rq_user_id = None, rq_handle = None, rq_role = None\<rparr> =
     Reply 200 \<lparr>rq_cookie = token0, rq_authorization = [], rq_user_id = Some ''u1'', rq_handle = Some ''Admin'', rq_role = Some ''admin''\<rparr> \<and>
   (\<exists>u \<in> set [usr0]. usr_id u = ''u1'' \<and> adminHandle (usr_handle u))"
proof
  let ?rq = "\<lparr>rq_cookie = token0, rq_authorization = [], rq_user_id = None, rq_handle = None, rq_role = None\<rparr>"
  let ?s = "\<lparr>as_db = users0\<lparr>users := [usr0]\<rparr>, as_issued = [(token0, claims0)]\<rparr>"
  have g: "generateToken auth0 5 ''u1'' ''Admin'' ''admin'' = Some token0 \<and> token0 \<noteq> []"
    using generateToken_auth0 [of 5 "''u1''" "''Admin''" "''admin''"] by (auto simp: token0_def)
  then have t: "token0 \<noteq> []" by blast
  show r: "adminRoute closed0 6 ?rq = Reply 200 \<lparr>rq_cookie = token0, rq_authorization = [], rq_user_id = Some ''u1'', rq_handle = Some ''Admin'', rq_role = Some ''admin''\<rparr>"
    by (simp add: adminRoute_def requireAuth_def requireAdmin_def tokenOf_def setLocals_def closed0_def claims0_def t)
  have reg: "handleRegister closed0 True 5 ''u1'' (Some body0) users0 = (Reply 200 ui0, Some token0, users0\<lparr>users := [usr0]\<rparr>)"
    using g by (intro register0) (simp_all add: closed0_def generateToken_def)
  have "auth_step closed0 \<lparr>as_db = users0, as_issued = []\<rparr> ?s"
    using auth_step.register [of closed0 True 5 "''u1''" "Some body0" "\<lparr>as_db = users0, as_issued = []\<rparr>" 200 ui0 token0 "users0\<lparr>users := [usr0]\<rparr>"] reg
    by (simp add: ui0_def claims0_def)
  then have st: "(auth_step closed0)\<^sup>*\<^sup>* \<lparr>as_db = users0, as_issued = []\<rparr> ?s" by blast
  have unf: "(tok, c) \<in> set (as_issued ?s)" if "ParseWithClaims closed0 6 tok = Some c" for tok c
    using that by (simp add: closed0_def split: if_splits)
  show "\<exists>u \<in> set [usr0]. usr_id u = ''u1'' \<and> adminHandle (usr_handle u)"
    using admin_requires_admin_handle [OF st _ unf r] by (auto simp: users0_def)
qed

lemma github_private_emails_collide_witness:
  "handleGitHubCallback auth0 (\<lambda>k. ''x'') True 7 ''u9'' ''c'' (GitHubOK \<lparr>gh_ID = 5, gh_Login = ''eve'', gh_Email = []\<rparr>)
      (users0\<lparr>users := [usr0\<lparr>usr_email := Some []\<rparr>]\<rparr>) =
   (Reply 307 ''/#/login?error=db_insert_failed'', None, users0\<lparr>users := [usr0\<lparr>usr_email := Some []\<rparr>]\<rparr>)"
  by (rule github_private_emails_collide [where u = "usr0\<lparr>usr_email := Some []\<rparr>"]) (simp_all add: usr0_def)

end
