(* ===== verification/Leaderboard.thy ===== *)
theory Leaderboard
  imports Platform "HOL-Library.Product_Lexorder" "HOL-Library.Multiset" "HOL-Library.Sublist"
begin

text \<open>
  The leaderboard of \<^verbatim>\<open>services/gateway/main.go\<close> (\<open>generateLeaderboardData\<close> and the hub that sends it to its
  subscribers) and the profile of \<^verbatim>\<open>services/gateway/arena.go\<close>. The window functions of the queries are
  sorts of the rows of a partition. The order in which Go visits a map is an argument.

  \<open>leaderboard_ranks_best\<close> is the specification of the leaderboard; \<open>badge_rank_differs\<close> shows that
  the rank behind a badge is computed differently.
\<close>

section \<open>Ranking\<close>

definition identity :: "SubmissionRow \<Rightarrow> string" where
  \<comment> \<open>\<^verbatim>\<open>COALESCE(user_id, contestant_id)\<close>\<close>
  "identity r = (case sub_user_id r of Some u \<Rightarrow> u | None \<Rightarrow> sub_contestant_id r)"

type_synonym rankKey = "nat \<times> rat \<times> int"

definition rankKey :: "SubmissionRow \<Rightarrow> rankKey" where
  \<comment> \<open>accepted first, then the higher score, then the earlier update\<close>
  "rankKey r = (if sub_verdict r = ''Accepted'' then 0 else 1, - sub_composite_score r, sub_updated_at r)"

definition arenaRows :: "string \<Rightarrow> DB \<Rightarrow> SubmissionRow list" where
  "arenaRows arenaID d = filter (\<lambda>r. sub_arena_id r = Some arenaID) (submissions d)"

definition userRows :: "string \<Rightarrow> DB \<Rightarrow> string \<Rightarrow> SubmissionRow list" where
  \<comment> \<open>the rows of one user with \<^verbatim>\<open>rank_score <= 2\<close>\<close>
  "userRows arenaID d u = take 2 (sort_key rankKey (filter (\<lambda>r. identity r = u) (arenaRows arenaID d)))"

record LeaderboardEntry =
  le_Rank :: nat
  le_ContestantID :: string
  le_SubmissionID :: string
  le_Verdict :: string
  le_CompositeScore :: rat
  le_CorrectnessScore :: rat
  le_P50Us :: int
  le_P90Us :: int
  le_P99Us :: int
  le_ActualTps :: rat
  le_LatencyScore :: rat
  le_ThroughputScore :: rat
  le_EngineArchetype :: string
  le_Status :: string
  le_UpdatedAt :: int
  le_DeltaScore :: rat
  le_DeltaP99 :: int
  le_Reason :: string

definition archetypeName :: "archetype \<Rightarrow> string" where
  "archetypeName a =
     (case a of Latency_Optimized \<Rightarrow> ''Latency-Optimized'' | Accuracy_Optimized \<Rightarrow> ''Accuracy-Optimized''
      | Low_Throughput \<Rightarrow> ''Low-Throughput'' | Balanced \<Rightarrow> ''Balanced'' | Unclassified \<Rightarrow> ''Unclassified'')"

definition diagScores :: "diag \<Rightarrow> rat \<times> rat" where
  "diagScores d = (case d of DiagRun x _ _ _ _ \<Rightarrow> (d_latency_score x, d_throughput_score x) | _ \<Rightarrow> (0, 0))"

definition diagArchetype :: "diag \<Rightarrow> string" where
  "diagArchetype d = (case d of DiagRun x _ _ _ _ \<Rightarrow> archetypeName (d_archetype x) | _ \<Rightarrow> ''Unclassified'')"

definition diagReason :: "(reason \<Rightarrow> string) \<Rightarrow> diag \<Rightarrow> string" where
  \<comment> \<open>the text of a reason is an argument\<close>
  "diagReason say d =
     (let t = (case d of DiagRun x _ _ _ _ \<Rightarrow> say (d_reason x) | _ \<Rightarrow> '''') in
      if t = '''' then ''Optimal Execution (Passes all SLAs)'' else t)"

definition entryOf :: "(reason \<Rightarrow> string) \<Rightarrow> int \<Rightarrow> SubmissionRow list \<Rightarrow> LeaderboardEntry" where
  "entryOf say now subs =
     (let best = subs ! 0; dg = sub_diagnostics best;
          recent = (now - sub_updated_at best \<le> 600 * 1000000000 \<and> length subs > 1) in
      \<lparr>le_Rank = 0, le_ContestantID = sub_contestant_id best, le_SubmissionID = sub_id best, le_Verdict = sub_verdict best,
       le_CompositeScore = sub_composite_score best, le_CorrectnessScore = sub_correctness_score best,
       le_P50Us = sub_p50_us best, le_P90Us = sub_p90_us best, le_P99Us = sub_p99_us best, le_ActualTps = sub_actual_tps best,
       le_LatencyScore = fst (diagScores dg), le_ThroughputScore = snd (diagScores dg), le_EngineArchetype = diagArchetype dg,
       le_Status = sub_status best, le_UpdatedAt = sub_updated_at best,
       le_DeltaScore = (if recent then fsub (sub_composite_score best) (sub_composite_score (subs ! 1)) else 0),
       le_DeltaP99 = (if recent then wrap64 (sub_p99_us best - sub_p99_us (subs ! 1)) else 0),
       le_Reason = diagReason say dg\<rparr>)"

definition entryKey :: "LeaderboardEntry \<Rightarrow> rankKey" where
  "entryKey e = (if le_Verdict e = ''Accepted'' then 0 else 1, - le_CompositeScore e, le_UpdatedAt e)"

definition numberRanks :: "LeaderboardEntry list \<Rightarrow> LeaderboardEntry list" where
  "numberRanks es = map (\<lambda>i. (es ! i)\<lparr>le_Rank := i + 1\<rparr>) [0..<length es]"

definition generateLeaderboardData :: "(string list \<Rightarrow> string list) \<Rightarrow> (reason \<Rightarrow> string) \<Rightarrow> int \<Rightarrow> string \<Rightarrow> DB \<Rightarrow> LeaderboardEntry list" where
  "generateLeaderboardData iter say now arenaID d =
     (let keys = iter (remdups (map identity (arenaRows arenaID d)));
          entries = map (\<lambda>u. entryOf say now (userRows arenaID d u)) keys in
      numberRanks (sort_key entryKey entries))"

section \<open>The hub\<close>

record ArenaSSEHub =
  subscribers :: "(string \<times> nat list) list" \<comment> \<open>the channels of an arena, by address\<close>
  channels :: "nat \<Rightarrow> string list" \<comment> \<open>what a channel holds\<close>
  nextChan :: nat

definition hubSubscribe :: "string \<Rightarrow> ArenaSSEHub \<Rightarrow> nat \<times> ArenaSSEHub" where
  "hubSubscribe arenaID h =
     (let ch = nextChan h in
      (ch, h\<lparr>subscribers := AList.update arenaID (get_or [] (subscribers h) arenaID @ [ch]) (subscribers h),
             channels := (channels h)(ch := []), nextChan := Suc ch\<rparr>))"

definition hubUnsubscribe :: "string \<Rightarrow> nat \<Rightarrow> ArenaSSEHub \<Rightarrow> ArenaSSEHub" where
  "hubUnsubscribe arenaID ch h =
     (let subs = get_or [] (subscribers h) arenaID in
      if ch \<in> set subs then h\<lparr>subscribers := AList.update arenaID (remove1 ch subs) (subscribers h)\<rparr> else h)"

definition offer :: "string \<Rightarrow> nat \<Rightarrow> (nat \<Rightarrow> string list) \<Rightarrow> nat \<Rightarrow> string list" where
  \<comment> \<open>a send that is dropped when the channel, of capacity 4, is full\<close>
  "offer payload ch cs = (if length (cs ch) < 4 then cs(ch := cs ch @ [payload]) else cs)"

definition hubBroadcast :: "string \<Rightarrow> string \<Rightarrow> ArenaSSEHub \<Rightarrow> ArenaSSEHub" where
  "hubBroadcast arenaID payload h = h\<lparr>channels := fold (offer payload) (get_or [] (subscribers h) arenaID) (channels h)\<rparr>"

definition hubReceive :: "nat \<Rightarrow> ArenaSSEHub \<Rightarrow> string option \<times> ArenaSSEHub" where
  \<comment> \<open>the receive of the stream handler; nothing to receive is \<open>None\<close>\<close>
  "hubReceive ch h = (case channels h ch of [] \<Rightarrow> (None, h) | p # ps \<Rightarrow> (Some p, h\<lparr>channels := (channels h)(ch := ps)\<rparr>))"

definition broadcastActiveLeaderboards :: "(LeaderboardEntry list \<Rightarrow> string) \<Rightarrow> (string list \<Rightarrow> string list) \<Rightarrow> (reason \<Rightarrow> string) \<Rightarrow>
    int \<Rightarrow> DB \<Rightarrow> ArenaSSEHub \<times> string option \<Rightarrow> ArenaSSEHub \<times> string option" where
  \<comment> \<open>beside the hub, the contents of the file that mirrors the default arena\<close>
  "broadcastActiveLeaderboards marshal iter say now d =
     fold (\<lambda>a (h, file). let data = marshal (generateLeaderboardData iter say now (ar_id a) d) in
             (hubBroadcast (ar_id a) data h, if ar_id a = ''default'' then Some data else file))
       (filter (\<lambda>a. ar_status a = ''active'' \<or> ar_status a = ''system_test'') (arenas d))"

section \<open>The profile\<close>

record Badge =
  bd_ArenaID :: string
  bd_Title :: string
  bd_Type :: string
  bd_Rank :: nat

record ProfileStats =
  ps_Handle :: string
  ps_HighestScore :: rat
  ps_LowestP99 :: int
  ps_Trophies :: "Badge list"
  ps_ContestsPlayed :: nat

definition standingKey :: "SubmissionRow list \<Rightarrow> rankKey" where
  "standingKey rs =
     (if list_ex (\<lambda>r. sub_verdict r = ''Accepted'') rs then 0 else 1,
      - Max (sub_composite_score ` set rs), Min (sub_updated_at ` set rs))"

definition standings :: "string \<Rightarrow> DB \<Rightarrow> string option list" where
  \<comment> \<open>the users of the completed rows of an arena, best first; rows without a user form one group\<close>
  "standings arenaID d =
     (let rs = filter (\<lambda>r. sub_status r = ''completed'') (arenaRows arenaID d) in
      sort_key (\<lambda>u. standingKey (filter (\<lambda>r. sub_user_id r = u) rs)) (remdups (map sub_user_id rs)))"

fun indexOf :: "'a \<Rightarrow> 'a list \<Rightarrow> nat option" where
  "indexOf x [] = None"
| "indexOf x (y # ys) = (if x = y then Some 0 else map_option Suc (indexOf x ys))"

definition standingRank :: "string \<Rightarrow> DB \<Rightarrow> string \<Rightarrow> nat option" where
  "standingRank arenaID d u = map_option Suc (indexOf (Some u) (standings arenaID d))"

definition badgeType :: "nat \<Rightarrow> string" where
  "badgeType rank = (if rank = 1 then ''gold'' else if rank = 2 then ''silver'' else if rank = 3 then ''bronze'' else '''')"

definition badgeOf :: "DB \<Rightarrow> string \<Rightarrow> ArenaRow \<Rightarrow> Badge option" where
  "badgeOf d u a =
     (case standingRank (ar_id a) d u of
        None \<Rightarrow> None
      | Some rank \<Rightarrow> if badgeType rank = '''' then None
          else Some \<lparr>bd_ArenaID = ar_id a, bd_Title = ar_title a, bd_Type = badgeType rank, bd_Rank = rank\<rparr>)"

definition playedArenas :: "DB \<Rightarrow> string \<Rightarrow> ArenaRow list" where
  "playedArenas d u =
     filter (\<lambda>a. (ar_status a = ''ended'' \<or> ar_status a = ''system_test'') \<and>
               list_ex (\<lambda>r. sub_user_id r = Some u \<and> sub_arena_id r = Some (ar_id a)) (submissions d)) (arenas d)"

definition handleGetProfile :: "string \<Rightarrow> DB \<Rightarrow> ProfileStats option" where
  \<comment> \<open>\<open>None\<close> is the answer 404\<close>
  "handleGetProfile profileID d =
     (case find (\<lambda>u. usr_id u = profileID \<or> usr_handle u = profileID) (users d) of
        None \<Rightarrow> None
      | Some x \<Rightarrow>
          let u = (case find (\<lambda>y. usr_handle y = usr_handle x) (users d) of Some y \<Rightarrow> usr_id y | None \<Rightarrow> '''');
              done = filter (\<lambda>r. sub_user_id r = Some u \<and> sub_status r = ''completed'') (submissions d);
              p99s = filter (\<lambda>p. p > 0) (map sub_p99_us done) in
          Some \<lparr>ps_Handle = usr_handle x,
                ps_HighestScore = (if done = [] then 0 else Max (sub_composite_score ` set done)),
                ps_LowestP99 = (if p99s = [] then 0 else Min (set p99s)),
                ps_Trophies = List.map_filter (badgeOf d u) (playedArenas d u),
                ps_ContestsPlayed = length (playedArenas d u)\<rparr>)"


section \<open>Properties of the ranking\<close>

definition bestRow :: "string \<Rightarrow> DB \<Rightarrow> string \<Rightarrow> SubmissionRow" where
  "bestRow arenaID d u = userRows arenaID d u ! 0"

lemma bestRow_best:
  assumes "r \<in> set (arenaRows arenaID d)" "identity r = u"
  shows "bestRow arenaID d u \<in> set (arenaRows arenaID d)" "identity (bestRow arenaID d u) = u"
    and "rankKey (bestRow arenaID d u) \<le> rankKey r"
proof -
  let ?s = "sort_key rankKey (filter (\<lambda>r. identity r = u) (arenaRows arenaID d))"
  have r: "r \<in> set ?s" using assms by simp
  then have ne: "?s \<noteq> []" by (metis empty_iff list.set(1))
  then have b: "bestRow arenaID d u = hd ?s" by (simp add: bestRow_def userRows_def hd_conv_nth)
  have "hd ?s \<in> set ?s" using ne by (rule hd_in_set)
  then show "bestRow arenaID d u \<in> set (arenaRows arenaID d)" "identity (bestRow arenaID d u) = u" by (auto simp: b)
  have "sorted (map rankKey ?s)" by simp
  then show "rankKey (bestRow arenaID d u) \<le> rankKey r" using r ne by (cases ?s) (auto simp: b)
qed

lemma entryOf_key: "entryKey (entryOf say now (userRows a d u)) = rankKey (bestRow a d u)"
    "le_SubmissionID (entryOf say now (userRows a d u)) = sub_id (bestRow a d u)"
  by (simp_all add: entryOf_def entryKey_def rankKey_def bestRow_def Let_def)

lemma numberRanks_props:
  "map le_Rank (numberRanks es) = [1..<Suc (length es)]" "map entryKey (numberRanks es) = map entryKey es"
  "map le_SubmissionID (numberRanks es) = map le_SubmissionID es" "length (numberRanks es) = length es"
proof -
  show "map le_Rank (numberRanks es) = [1..<Suc (length es)]"
    by (rule nth_equalityI) (simp_all add: numberRanks_def nth_append del: upt_Suc)
  show "map entryKey (numberRanks es) = map entryKey es" "map le_SubmissionID (numberRanks es) = map le_SubmissionID es"
    by (rule nth_equalityI; simp add: numberRanks_def entryKey_def)+
qed (simp add: numberRanks_def)

lemma entries_mset:
  assumes "\<And>xs. mset (iter xs) = mset xs"
  shows "mset (map le_SubmissionID (generateLeaderboardData iter say now a d)) =
         image_mset (\<lambda>u. sub_id (bestRow a d u)) (mset_set (identity ` set (arenaRows a d)))"
proof -
  let ?ids = "remdups (map identity (arenaRows a d))"
  have "mset (map le_SubmissionID (generateLeaderboardData iter say now a d)) =
      image_mset le_SubmissionID (image_mset (\<lambda>u. entryOf say now (userRows a d u)) (mset (iter ?ids)))"
    by (simp add: generateLeaderboardData_def Let_def numberRanks_props)
  also have "\<dots> = image_mset (\<lambda>u. sub_id (bestRow a d u)) (mset (iter ?ids))"
    by (simp add: image_mset.compositionality comp_def entryOf_key)
  also have "mset (iter ?ids) = mset_set (identity ` set (arenaRows a d))" using mset_set_set [of ?ids] by (simp add: assms)
  finally show ?thesis .
qed

text \<open>C34: The leaderboard of an arena numbers its entries from 1, lists them by acceptance, then score, then time, and holds for
  every contestant exactly one entry, the submission that no other submission of the contestant beats in this order.\<close>

theorem leaderboard_ranks_best:
  assumes iter: "\<And>xs. mset (iter xs) = mset xs" and "L = generateLeaderboardData iter say now a d"
  shows "map le_Rank L = [1..<Suc (length L)] \<and> sorted (map entryKey L) \<and>
         mset (map le_SubmissionID L) = image_mset (\<lambda>u. sub_id (bestRow a d u)) (mset_set (identity ` set (arenaRows a d))) \<and>
         (\<forall>r \<in> set (arenaRows a d). bestRow a d (identity r) \<in> set (arenaRows a d) \<and>
            identity (bestRow a d (identity r)) = identity r \<and> rankKey (bestRow a d (identity r)) \<le> rankKey r)"
proof (intro conjI ballI)
  show "map le_Rank L = [1..<Suc (length L)]" "sorted (map entryKey L)"
    by (simp_all add: assms(2) generateLeaderboardData_def Let_def numberRanks_props)
  show "mset (map le_SubmissionID L) = image_mset (\<lambda>u. sub_id (bestRow a d u)) (mset_set (identity ` set (arenaRows a d)))"
    unfolding assms(2) by (rule entries_mset [OF iter])
qed (auto intro: bestRow_best)

definition row :: "string \<Rightarrow> string option \<Rightarrow> string \<Rightarrow> string \<Rightarrow> rat \<Rightarrow> int \<Rightarrow> SubmissionRow" where
  "row i u c v score t = (newSubmission t i c [])\<lparr>sub_status := ''completed'', sub_verdict := v, sub_composite_score := score,
     sub_user_id := u, sub_arena_id := Some ''default''\<rparr>"

definition board0 :: DB where
  "board0 = \<lparr>submissions = [row ''s1'' (Some ''A'') ''ann'' ''Accepted'' 60 1, row ''s2'' (Some ''A'') ''ann'' ''Build Error'' 95 2,
       row ''s3'' (Some ''B'') ''bob'' ''Accepted'' 80 3], submission_sources = [], users = [], arenas = [], arena_registrations = []\<rparr>"

theorem leaderboard_ranks_best_witness:
  "map le_SubmissionID (generateLeaderboardData (\<lambda>xs. xs) (\<lambda>r. []) 0 ''default'' board0) = [''s3'', ''s1''] \<and>
   sorted (map entryKey (generateLeaderboardData (\<lambda>xs. xs) (\<lambda>r. []) 0 ''default'' board0))"
proof
  show "map le_SubmissionID (generateLeaderboardData (\<lambda>xs. xs) (\<lambda>r. []) 0 ''default'' board0) = [''s3'', ''s1'']" by code_simp
  show "sorted (map entryKey (generateLeaderboardData (\<lambda>xs. xs) (\<lambda>r. []) 0 ''default'' board0))"
    using leaderboard_ranks_best [where iter = "\<lambda>xs. xs" and say = "\<lambda>r. []" and now = 0 and a = "''default''" and d = board0, OF refl refl] by blast
qed

text \<open>The rank behind a badge of a profile is not the rank of the leaderboard: it takes the best score of a contestant over all
  submissions, the rejected ones included, once any of them was accepted. Here a contestant with an accepted submission of 60 points and a
  rejected one of 95 gets the gold badge before the leader, who has 80.\<close>

lemma badge_rank_differs:
  "map le_ContestantID (generateLeaderboardData (\<lambda>xs. xs) say now ''default'' board0) = [''bob'', ''ann''] \<and>
   standingRank ''default'' board0 ''A'' = Some 1 \<and> badgeType 1 = ''gold''"
  by code_simp


section \<open>The stream of a leaderboard\<close>

datatype sseEvent = Data string | Ping

datatype sseStep = \<comment> \<open>what happens next to the handler of one stream\<close>
    Payload bool \<comment> \<open>it takes from its channel and writes; whether the write succeeds\<close>
  | KeepAlive bool
  | ContextDone
  | Broadcast string string \<comment> \<open>meanwhile an arena is broadcast\<close>

fun streamLoop :: "string \<Rightarrow> nat \<Rightarrow> sseStep list \<Rightarrow> ArenaSSEHub \<Rightarrow> sseEvent list \<times> ArenaSSEHub" where
  "streamLoop arenaID ch [] h = ([], h)"
| "streamLoop arenaID ch (Payload sent # ss) h =
     (case hubReceive ch h of
        (None, h1) \<Rightarrow> streamLoop arenaID ch ss h1
      | (Some p, h1) \<Rightarrow>
          if \<not> sent then ([], hubUnsubscribe arenaID ch h1)
          else (case streamLoop arenaID ch ss h1 of (es, h2) \<Rightarrow> (Data p # es, h2)))"
| "streamLoop arenaID ch (KeepAlive sent # ss) h =
     (if \<not> sent then ([], hubUnsubscribe arenaID ch h)
      else (case streamLoop arenaID ch ss h of (es, h2) \<Rightarrow> (Ping # es, h2)))"
| "streamLoop arenaID ch (ContextDone # ss) h = ([], hubUnsubscribe arenaID ch h)"
| "streamLoop arenaID ch (Broadcast a p # ss) h = streamLoop arenaID ch ss (hubBroadcast a p h)"

definition handleGetLeaderboardStream :: "string option \<Rightarrow> string \<Rightarrow> sseStep list \<Rightarrow> ArenaSSEHub \<Rightarrow> sseEvent list \<times> ArenaSSEHub" where
  \<comment> \<open>with the leaderboard at the start, None when it cannot be generated\<close>
  "handleGetLeaderboardStream now arenaID steps h =
     (case hubSubscribe arenaID h of (ch, h1) \<Rightarrow>
       (case streamLoop arenaID ch steps h1 of (es, h2) \<Rightarrow>
         ((case now of None \<Rightarrow> [] | Some d \<Rightarrow> [Data d]) @ es, h2)))"

definition payloads :: "sseEvent list \<Rightarrow> string list" where
  "payloads es = List.map_filter (\<lambda>e. case e of Data p \<Rightarrow> Some p | Ping \<Rightarrow> None) es"

definition sentTo :: "string \<Rightarrow> sseStep list \<Rightarrow> string list" where
  "sentTo arenaID ss = List.map_filter (\<lambda>s. case s of Broadcast a p \<Rightarrow> (if a = arenaID then Some p else None) | _ \<Rightarrow> None) ss"

definition tuned :: "string \<Rightarrow> nat \<Rightarrow> ArenaSSEHub \<Rightarrow> bool" where
  \<comment> \<open>the channel is registered for this arena only, and once\<close>
  "tuned arenaID ch h \<longleftrightarrow>
     (\<forall>a. distinct (get_or [] (subscribers h) a) \<and> (ch \<in> set (get_or [] (subscribers h) a) \<longleftrightarrow> a = arenaID))"

lemma fold_offer_other: "ch \<notin> set cs \<Longrightarrow> fold (offer p) cs f ch = f ch"
  by (induction cs arbitrary: f) (auto simp: offer_def)

lemma fold_offer_own: "distinct cs \<Longrightarrow> ch \<in> set cs \<Longrightarrow> fold (offer p) cs f ch = (if length (f ch) < 4 then f ch @ [p] else f ch)"
  by (induction cs arbitrary: f) (auto simp: fold_offer_other offer_def)


lemma broadcast_channel:
  assumes "tuned arenaID ch h"
  shows "channels (hubBroadcast a p h) ch = (if a = arenaID \<and> length (channels h ch) < 4 then channels h ch @ [p] else channels h ch)"
proof (cases "a = arenaID")
  case True
  then have "distinct (get_or [] (subscribers h) a)" "ch \<in> set (get_or [] (subscribers h) a)" using assms by (auto simp: tuned_def)
  then show ?thesis using True by (simp add: hubBroadcast_def fold_offer_own)
next
  case False
  then have "ch \<notin> set (get_or [] (subscribers h) a)" using assms by (auto simp: tuned_def)
  then show ?thesis using False by (simp add: hubBroadcast_def fold_offer_other)
qed

lemma tuned_frame: "tuned a ch (hubBroadcast b p h) = tuned a ch h" "tuned a ch (h\<lparr>channels := c\<rparr>) = tuned a ch h"
  by (simp_all add: tuned_def hubBroadcast_def)

lemma payloads_simps [simp]: "payloads [] = []" "payloads (Data p # es) = p # payloads es" "payloads (Ping # es) = payloads es"
  by (simp_all add: payloads_def List.map_filter_simps)

lemma sentTo_simps [simp]: "sentTo a [] = []" "sentTo a (Payload b # ss) = sentTo a ss" "sentTo a (KeepAlive b # ss) = sentTo a ss"
    "sentTo a (ContextDone # ss) = sentTo a ss" "sentTo a (Broadcast c p # ss) = (if c = a then p # sentTo a ss else sentTo a ss)"
  by (simp_all add: sentTo_def List.map_filter_simps)

text \<open>A client gets what is broadcast for its arena in that order; when the channel is full, payloads are dropped, never reordered or repeated.\<close>

lemma stream_in_order:
  assumes "tuned arenaID ch h"
  shows "subseq (payloads (fst (streamLoop arenaID ch ss h))) (channels h ch @ sentTo arenaID ss)"
  using assms
proof (induction arenaID ch ss h rule: streamLoop.induct)
  case (2 arenaID ch sent ss h)
  show ?case
  proof (cases "channels h ch")
    case Nil
    then show ?thesis using 2 by (simp add: hubReceive_def)
  next
    case (Cons p ps)
    then show ?thesis using 2
      by (cases sent) (simp_all add: hubReceive_def tuned_frame split_beta)
  qed
next
  case (5 arenaID ch a p ss h)
  have "subseq (payloads (fst (streamLoop arenaID ch ss (hubBroadcast a p h)))) (channels (hubBroadcast a p h) ch @ sentTo arenaID ss)"
    using 5 by (simp add: tuned_frame)
  moreover have "subseq (channels (hubBroadcast a p h) ch @ sentTo arenaID ss) (channels h ch @ sentTo arenaID (Broadcast a p # ss))"
    using broadcast_channel [OF 5(2)] by (auto simp: subseq_append_iff intro: list_emb_append_mono)
  ultimately show ?case using subseq_order.order_trans by fastforce
qed (auto simp: split_beta)

end
