(* ===== verification/Gateway.thy ===== *)
theory Gateway
  imports Zip_Normalize Gateway_Auth Leaderboard
begin

text \<open>
  The submission and contest interface of \<^verbatim>\<open>services/gateway/main.go\<close> and \<^verbatim>\<open>arena.go\<close>. A handler gets the request as
  the middleware leaves it, whether each statement of the database succeeds (\<open>ok\<close>), the time and the identifier
  it draws, and returns its reply and the new state. The object store is the list of stored objects.
\<close>

section \<open>Submissions\<close>

record SubmitForm =
  sf_contestant_id :: string
  sf_arena_id :: string
  sf_github_url :: string
  sf_file :: "(string \<times> (string + string)) option" \<comment> \<open>name and content; Inl is the error of opening or reading it\<close>

record zip_ops =
  z_unzip :: "string \<Rightarrow> ZipFile list option"
  z_header :: "TarEntry \<Rightarrow> bool"
  z_targz :: "TarEntry list \<Rightarrow> string option"

datatype gcall = Put_Object | Insert_Submission | Insert_Source | Update_QueueFailure | Select_Row | Select_Arena | Select_Source |
  Insert_Row | Update_Row

fun extFrom :: "string \<Rightarrow> string \<Rightarrow> string" where
  \<comment> \<open>on the reversed path\<close>
  "extFrom [] acc = ''''"
| "extFrom (c # cs) acc = (if c = CHR ''/'' then '''' else if c = CHR ''.'' then c # acc else extFrom cs (c # acc))"

definition pathExt :: "string \<Rightarrow> string" where
  \<comment> \<open>\<^verbatim>\<open>filepath.Ext\<close>\<close>
  "pathExt path = extFrom (rev path) []"

definition submitIdentity :: "Request \<Rightarrow> SubmitForm \<Rightarrow> string \<times> string option" where
  \<comment> \<open>contestant and user\<close>
  "submitIdentity rq form =
     (let c0 = (if sf_contestant_id form = '''' then ''anonymous'' else sf_contestant_id form) in
      case rq_user_id rq of
        None \<Rightarrow> (c0, None)
      | Some u \<Rightarrow> (case rq_handle rq of Some h \<Rightarrow> h | None \<Rightarrow> c0, Some u))"

definition rateLimitName :: "Request \<Rightarrow> SubmitForm \<Rightarrow> string" where
  "rateLimitName rq form = (case submitIdentity rq form of (c, None) \<Rightarrow> c | (c, Some u) \<Rightarrow> u)"

definition s3PathOf :: "string \<Rightarrow> string" where
  "s3PathOf buildID = ''submissions/'' @ buildID @ ''/submission.tar.gz''"

definition storeUpload :: "zip_ops \<Rightarrow> (gcall \<Rightarrow> bool) \<Rightarrow> string \<Rightarrow> SubmitForm \<Rightarrow> (string \<times> string) list \<Rightarrow>
    (nat \<times> string) + string \<times> string \<times> (string \<times> string) list" where
  \<comment> \<open>an error, or the path of the object, the source text and the objects\<close>
  "storeUpload Z ok buildID form objs =
     (if sf_github_url form \<noteq> '''' then Inr ('''', ''[GitHub URL: '' @ sf_github_url form @ '']'', objs)
      else case sf_file form of
        None \<Rightarrow> Inl (400, ''missing source_code ZIP file or github_url'')
      | Some (name, content) \<Rightarrow>
          if pathExt name \<noteq> ''.zip'' then Inl (400, ''Only .zip files accepted for multi-file submissions'')
          else case content of
            Inl e \<Rightarrow> Inl (500, e)
          | Inr bytes \<Rightarrow>
              (case normalizeZipToTarGz (z_unzip Z) (z_header Z) (z_targz Z) bytes of
                 Inl e \<Rightarrow> Inl (400, ''invalid zip archive: '' @ e)
               | Inr tar \<Rightarrow>
                   if \<not> ok Put_Object then Inl (500, ''failed to store submission'')
                   else Inr (s3PathOf buildID, ''[ZIP Submission]'', AList.update (s3PathOf buildID) tar objs)))"

definition compileMessage :: "string \<Rightarrow> string \<Rightarrow> string \<Rightarrow> string \<Rightarrow> valmap" where
  "compileMessage buildID contestantID githubURL s3Path =
     [(''submission_id'', buildID), (''contestant_id'', contestantID),
      (if githubURL \<noteq> '''' then (''github_url'', githubURL) else (''s3_path'', s3Path))]"

definition queueFailure :: "SubmissionRow \<Rightarrow> SubmissionRow" where
  "queueFailure = setFailed ''Queue Failure'' (DiagError ''failed to queue job'' None)"

definition enqueueBuild :: "'q redis_ops \<Rightarrow> (gcall \<Rightarrow> bool) \<Rightarrow> int \<Rightarrow> string \<Rightarrow> valmap \<Rightarrow> 'q \<Rightarrow> DB \<Rightarrow> string reply \<times> 'q World" where
  "enqueueBuild R ok now buildID vs q d =
     (case XAdd R CompilationQueue vs q of
        (False, q1) \<Rightarrow>
          (Fail 500 ''failed to queue submission'',
           \<lparr>redis = q1, db = (if ok Update_QueueFailure then updateSubmission now buildID queueFailure d else d)\<rparr>)
      | (True, q1) \<Rightarrow> (Reply 202 buildID, \<lparr>redis = q1, db = d\<rparr>))"

definition handleSubmission :: "'q redis_ops \<Rightarrow> zip_ops \<Rightarrow> (gcall \<Rightarrow> bool) \<Rightarrow> int \<Rightarrow> string \<Rightarrow> Request \<Rightarrow> SubmitForm \<Rightarrow>
    'q World \<times> (string \<times> string) list \<Rightarrow> string reply \<times> 'q World \<times> (string \<times> string) list" where
  "handleSubmission R Z ok now buildID rq form = (\<lambda>(w, objs).
     case submitIdentity rq form of (contestantID, userID) \<Rightarrow>
       (case CheckRateLimit R now (rateLimitName rq form) (redis w) of
          (None, q1) \<Rightarrow> (Fail 500 ''Internal server error checking rate limit'', w\<lparr>redis := q1\<rparr>, objs)
        | (Some (False, retryAfter), q1) \<Rightarrow>
            (Fail 429 (''Too many requests. Please retry in '' @ Itoa retryAfter @ '' seconds''), w\<lparr>redis := q1\<rparr>, objs)
        | (Some (True, _), q1) \<Rightarrow>
            (case storeUpload Z ok buildID form objs of
               Inl (status, e) \<Rightarrow> (Fail status e, w\<lparr>redis := q1\<rparr>, objs)
             | Inr (s3Path, source, objs1) \<Rightarrow>
                 let r = (newSubmission now buildID contestantID s3Path)\<lparr>sub_github_url := Some (sf_github_url form), sub_user_id := userID,
                            sub_arena_id := Some (if sf_arena_id form = '''' then ''default'' else sf_arena_id form)\<rparr> in
                 (case (if ok Insert_Submission then insertSubmission r (db w) else None) of
                    None \<Rightarrow> (Fail 500 ''failed to save submission status'', w\<lparr>redis := q1\<rparr>, objs1)
                  | Some d1 \<Rightarrow>
                      let d2 = (case (if ok Insert_Source then insertSource buildID source d1 else None) of None \<Rightarrow> d1 | Some d2 \<Rightarrow> d2) in
                      (case enqueueBuild R ok now buildID (compileMessage buildID contestantID (sf_github_url form) s3Path) q1 d2 of
                         (rep, w1) \<Rightarrow> (rep, w1, objs1))))))"

section \<open>Reading submissions\<close>

record BuildInfo =
  bi_build_id :: string
  bi_contestant_id :: string
  bi_status :: string
  bi_verdict :: string
  bi_diagnostics :: diag
  bi_composite_score :: rat
  bi_submitted_at :: int
  bi_github_url :: string
  bi_arena_id :: string

definition buildInfo :: "SubmissionRow \<Rightarrow> BuildInfo" where
  "buildInfo r =
     \<lparr>bi_build_id = sub_id r, bi_contestant_id = sub_contestant_id r, bi_status = sub_status r, bi_verdict = sub_verdict r,
      bi_diagnostics = sub_diagnostics r, bi_composite_score = sub_composite_score r, bi_submitted_at = sub_created_at r,
      bi_github_url = (case sub_github_url r of Some g \<Rightarrow> g | None \<Rightarrow> ''''),
      bi_arena_id = (case sub_arena_id r of Some a \<Rightarrow> a | None \<Rightarrow> ''default'')\<rparr>"

definition handleBuildStatus :: "(gcall \<Rightarrow> bool) \<Rightarrow> string \<Rightarrow> DB \<Rightarrow> BuildInfo reply" where
  "handleBuildStatus ok i d =
     (if \<not> ok Select_Row then Fail 500 ''internal database error''
      else case findSubmission i d of None \<Rightarrow> Fail 404 ''build not found'' | Some r \<Rightarrow> Reply 200 (buildInfo r))"

definition handleListBuilds :: "(gcall \<Rightarrow> bool) \<Rightarrow> string \<Rightarrow> DB \<Rightarrow> BuildInfo list reply" where
  "handleListBuilds ok arenaID d =
     (if \<not> ok Select_Row then Fail 500 ''internal database error''
      else let rs = (if arenaID \<noteq> '''' then arenaRows arenaID d else submissions d) in
        Reply 200 (map buildInfo (take 50 (sort_key (\<lambda>r. - sub_created_at r) rs))))"

definition findArena :: "string \<Rightarrow> DB \<Rightarrow> ArenaRow option" where
  "findArena i d = find (\<lambda>a. ar_id a = i) (arenas d)"

definition handleGetSource :: "(gcall \<Rightarrow> bool) \<Rightarrow> Request \<Rightarrow> string \<Rightarrow> DB \<Rightarrow> string reply" where
  "handleGetSource ok rq i d =
     (if \<not> ok Select_Row then Fail 500 ''internal database error''
      else case findSubmission i d of
        None \<Rightarrow> Fail 404 ''submission not found''
      | Some r \<Rightarrow>
          let currentUserID = (case rq_user_id rq of Some u \<Rightarrow> u | None \<Rightarrow> '''');
              currentUserRole = (case rq_role rq of Some x \<Rightarrow> x | None \<Rightarrow> '''');
              isOwnerOrAdmin = (currentUserRole = ''admin'' \<or> sub_user_id r = Some currentUserID);
              arenaStatus = (case sub_arena_id r of None \<Rightarrow> ''''
                 | Some a \<Rightarrow> (if \<not> ok Select_Arena then '''' else case findArena a d of Some x \<Rightarrow> ar_status x | None \<Rightarrow> '''')) in
          if \<not> isOwnerOrAdmin \<and> arenaStatus \<noteq> ''ended'' then Fail 403 ''Source code is private until the contest ends''
          else if \<not> ok Select_Source then Fail 500 ''internal database error''
          else case map_of (submission_sources d) i of
            None \<Rightarrow> Fail 404 ''source not found''
          | Some src \<Rightarrow> Reply 200 src)"

definition handleGetLeaderboard :: "(gcall \<Rightarrow> bool) \<Rightarrow> (string list \<Rightarrow> string list) \<Rightarrow> (reason \<Rightarrow> string) \<Rightarrow> int \<Rightarrow> string \<Rightarrow> DB \<Rightarrow>
    LeaderboardEntry list reply" where
  "handleGetLeaderboard ok iter say now arenaID d =
     (if \<not> ok Select_Row then Fail 500 ''Failed to generate leaderboard'' else Reply 200 (generateLeaderboardData iter say now arenaID d))"

section \<open>Who may read a source\<close>

text \<open>C33: A source is sent to a request only when the contest of the submission has ended or the request carries a valid token of the
  author or of an administrator.\<close>

theorem source_private_until_end:
  assumes "handleGetSource ok (optionalAuth X now rq) i d = Reply n src" "findSubmission i d = Some r"
    and "rq_user_id rq = None" "rq_role rq = None" "sub_user_id r \<noteq> Some []"
  shows "(\<exists>a x. sub_arena_id r = Some a \<and> findArena a d = Some x \<and> ar_status x = ''ended'') \<or>
         (\<exists>c. ParseWithClaims X now (tokenOf rq) = Some c \<and> (cl_Role c = ''admin'' \<or> sub_user_id r = Some (cl_UserID c)))"
proof (cases "ParseWithClaims X now (tokenOf rq) = None \<or> tokenOf rq = []")
  case True
  then have "optionalAuth X now rq = rq" by (auto simp: optionalAuth_def)
  then show ?thesis using assms by (auto simp: handleGetSource_def Let_def split: if_splits option.splits)
next
  case False
  then obtain c where c: "ParseWithClaims X now (tokenOf rq) = Some c" "optionalAuth X now rq = setLocals c rq"
    by (auto simp: optionalAuth_def)
  then show ?thesis using assms(1,2) by (auto simp: handleGetSource_def Let_def setLocals_def split: if_splits option.splits)
qed

definition ended0 :: DB where
  "ended0 = \<lparr>submissions = [row ''s1'' (Some ''A'') ''ann'' ''Accepted'' 60 1], submission_sources = [(''s1'', ''code'')], users = [],
     arenas = [\<lparr>ar_id = ''default'', ar_title = [], ar_description = [], ar_status = ''ended'', ar_start_time = 0, ar_end_time = 9\<rparr>],
     arena_registrations = []\<rparr>"

definition rq0 :: Request where
  "rq0 = \<lparr>rq_cookie = [], rq_authorization = [], rq_user_id = None, rq_handle = None, rq_role = None\<rparr>"

theorem source_private_until_end_witness:
  "handleGetSource (\<lambda>c. True) (optionalAuth auth0 5 rq0) ''s1'' ended0 = Reply 200 ''code'' \<and>
   (\<exists>a x. sub_arena_id (row ''s1'' (Some ''A'') ''ann'' ''Accepted'' 60 1) = Some a \<and> findArena a ended0 = Some x \<and> ar_status x = ''ended'')"
proof
  have o: "optionalAuth auth0 5 rq0 = rq0" by (simp add: optionalAuth_def tokenOf_def rq0_def)
  have g: "handleGetSource (\<lambda>c. True) rq0 ''s1'' ended0 = Reply 200 ''code''" by code_simp
  then show "handleGetSource (\<lambda>c. True) (optionalAuth auth0 5 rq0) ''s1'' ended0 = Reply 200 ''code''" by (simp add: o)
  have p: "handleGetSource (\<lambda>c. True) (optionalAuth (auth0\<lparr>ParseWithClaims := \<lambda>n t. None\<rparr>) 5 rq0) ''s1'' ended0 = Reply 200 ''code''"
    using g by (simp add: optionalAuth_def tokenOf_def rq0_def)
  have f: "findSubmission ''s1'' ended0 = Some (row ''s1'' (Some ''A'') ''ann'' ''Accepted'' 60 1)" by code_simp
  show "\<exists>a x. sub_arena_id (row ''s1'' (Some ''A'') ''ann'' ''Accepted'' 60 1) = Some a \<and> findArena a ended0 = Some x \<and> ar_status x = ''ended''"
    using source_private_until_end [OF p f] by (simp add: rq0_def row_def)
qed

section \<open>Names chosen by the client\<close>

lemma anonymous_name: "rq_user_id rq = None \<Longrightarrow> sf_contestant_id form = u \<Longrightarrow> u \<noteq> [] \<Longrightarrow> submitIdentity rq form = (u, None) \<and> rateLimitName rq form = u"
  by (simp add: submitIdentity_def rateLimitName_def)

lemma enqueueBuild_redis: "redis (snd (enqueueBuild R ok now i vs q d)) = snd (XAdd R CompilationQueue vs q)"
  by (simp add: enqueueBuild_def split: prod.splits bool.splits)

lemma handleSubmission_redis:
  assumes "CheckRateLimit R now (rateLimitName rq form) (redis w) = (r, q1)"
  shows "redis (fst (snd (handleSubmission R Z ok now i rq form (w, objs)))) = q1 \<or>
         (\<exists>vs. redis (fst (snd (handleSubmission R Z ok now i rq form (w, objs)))) = snd (XAdd R CompilationQueue vs q1))"
proof -
  obtain c u where id: "submitIdentity rq form = (c, u)" by (cases "submitIdentity rq form")
  note d = handleSubmission_def id assms
  consider (stop) "\<nexists>n. r = Some (True, n)" | (go) n where "r = Some (True, n)" by blast
  then show ?thesis
  proof cases
    case stop
    then show ?thesis by (auto simp: d split: option.splits bool.splits)
  next
    case go
    show ?thesis
    proof (cases "storeUpload Z ok i form objs")
      case (Inl x)
      then show ?thesis by (cases x) (simp add: d go)
    next
      case (Inr x)
      obtain s3 src o1 where x: "x = (s3, src, o1)" by (cases x)
      show ?thesis
        using enqueueBuild_redis [of R ok now i "compileMessage i c (sf_github_url form) s3" q1]
        by (auto simp: d go Inr x Let_def split: option.splits prod.splits) (metis snd_conv)+
    qed
  qed
qed

lemma handleSubmission_limited:
  assumes "CheckRateLimit R now (rateLimitName rq form) (redis w) = (r, q1)" "\<not> allowed r"
  shows "\<exists>status e. fst (handleSubmission R Z ok now i rq form (w, objs)) = Fail status e \<and> (status = 429 \<or> status = 500)"
proof -
  obtain c u where id: "submitIdentity rq form = (c, u)" by (cases "submitIdentity rq form")
  show ?thesis using assms by (auto simp: handleSubmission_def id allowed_def split: option.splits bool.splits)
qed

context redis_keys
begin

lemma submission_keeps_limit:
  assumes "fst (CheckRateLimit R now (rateLimitName rq form) (redis w)) = Some (True, n)"
    and "handleSubmission R Z ok now i rq form (w, objs) = (rep, w1, objs1)"
  shows "expiry (redis w1) (rateKey (rateLimitName rq form)) = Some (now + 60000000000)"
proof -
  obtain q1 where c: "CheckRateLimit R now (rateLimitName rq form) (redis w) = (Some (True, n), q1)"
    using assms(1) by (cases "CheckRateLimit R now (rateLimitName rq form) (redis w)") auto
  have "expiry (redis w1) = expiry q1"
    using handleSubmission_redis [OF c, of Z ok i objs] add_keys by (auto simp: assms(2))
  then show ?thesis using rate_limit_effect [OF c] by simp
qed

lemma limited_afterwards:
  assumes "expiry (redis w1) (rateKey (rateLimitName rq form)) = Some e" "now < e"
  shows "\<exists>status m. fst (handleSubmission R Z ok now i rq form (w1, objs)) = Fail status m \<and> (status = 429 \<or> status = 500)"
proof -
  obtain r q1 where c: "CheckRateLimit R now (rateLimitName rq form) (redis w1) = (r, q1)"
    by (cases "CheckRateLimit R now (rateLimitName rq form) (redis w1)")
  have "\<not> allowed r" using rate_limit_step(2) [OF c assms(1)] assms(2) by blast
  then show ?thesis by (rule handleSubmission_limited [OF c])
qed

end

text \<open>A client without an account can keep a user from submitting: the limit of 60 seconds is kept under the name that an anonymous
  request gives in its form, and for users under their identifier, so a request that names the identifier of a
  user uses up the limit of that user.\<close>

lemma anonymous_request_blocks_user:
  assumes keys: "redis_keys R expiry"
    and anon: "rq_user_id rq = None" "sf_contestant_id form = u" "u \<noteq> []"
    and allowed: "fst (CheckRateLimit R now u (redis w)) = Some (True, n)"
    and later: "now' < now + 60000000000" and user: "rq_user_id rq' = Some u"
    and state: "handleSubmission R Z ok now i rq form (w, objs) = (rep, w1, objs1)"
  shows "\<exists>status e. fst (handleSubmission R Z' ok' now' i' rq' form' (w1, objs1)) = Fail status e \<and> (status = 429 \<or> status = 500)"
proof -
  have "rateLimitName rq' form' = u" using user by (simp add: rateLimitName_def submitIdentity_def split: option.splits)
  moreover have "rateLimitName rq form = u" using anonymous_name [OF anon] by simp
  ultimately show ?thesis
    using redis_keys.submission_keeps_limit [OF keys _ state] redis_keys.limited_afterwards [OF keys, of w1 rq' form' _ now'] allowed later
    by simp
qed

definition form0 :: "string \<Rightarrow> SubmitForm" where
  "form0 c = \<lparr>sf_contestant_id = c, sf_arena_id = [], sf_github_url = ''https://x'', sf_file = None\<rparr>"

definition zip_ops0 :: zip_ops where
  "zip_ops0 = \<lparr>z_unzip = (\<lambda>d. Some zip0), z_header = (\<lambda>e. True), z_targz = targz0\<rparr>"

definition arena0 :: DB where
  "arena0 = \<lparr>submissions = [], submission_sources = [], users = [],
     arenas = [\<lparr>ar_id = ''default'', ar_title = [], ar_description = [], ar_status = ''active'', ar_start_time = 0, ar_end_time = 9\<rparr>],
     arena_registrations = []\<rparr>"

definition gateway0 :: "server World" where
  "gateway0 = \<lparr>redis = server0, db = arena0\<rparr>"

lemma anonymous_request_blocks_user_witness:
  "\<exists>status e. fst (handleSubmission redis0 zip_ops0 (\<lambda>c. True) 1000000000 ''b2'' (rq0\<lparr>rq_user_id := Some ''u1'', rq_handle := Some ''ann''\<rparr>) (form0 [])
      (snd (handleSubmission redis0 zip_ops0 (\<lambda>c. True) 0 ''b1'' rq0 (form0 ''u1'') (gateway0, [])))) = Fail status e \<and> (status = 429 \<or> status = 500)"
proof -
  obtain rep w1 objs1 where h: "handleSubmission redis0 zip_ops0 (\<lambda>c. True) 0 ''b1'' rq0 (form0 ''u1'') (gateway0, []) = (rep, w1, objs1)"
    by (metis prod_cases3)
  have a: "fst (CheckRateLimit redis0 0 ''u1'' (redis gateway0)) = Some (True, 0)"
    by (simp add: CheckRateLimit_def redis0_def gateway0_def server0_def)
  show ?thesis
    unfolding h snd_conv
    by (rule anonymous_request_blocks_user [OF srvk.redis_keys_axioms _ _ _ a _ _ h]) (simp_all add: rq0_def form0_def)
qed

lemma enqueueBuild_reply: "fst (enqueueBuild R ok now i vs q d) = Reply n b \<Longrightarrow> db (snd (enqueueBuild R ok now i vs q d)) = d"
  by (auto simp: enqueueBuild_def split: prod.splits bool.splits)

lemma insertSource_submissions: "insertSource i s d = Some d' \<Longrightarrow> submissions d' = submissions d"
  by (auto simp: insertSource_def split: if_splits)

lemma handleSubmission_accepted:
  assumes "handleSubmission R Z ok now i rq form (w, objs) = (Reply n b, w1, objs1)" "submitIdentity rq form = (c, u)"
  shows "\<exists>s3. submissions (db w1) = submissions (db w) @ [(newSubmission now i c s3)\<lparr>sub_github_url := Some (sf_github_url form), sub_user_id := u,
           sub_arena_id := Some (if sf_arena_id form = [] then ''default'' else sf_arena_id form)\<rparr>]"
proof -
  let ?r = "\<lambda>s3. (newSubmission now i c s3)\<lparr>sub_github_url := Some (sf_github_url form), sub_user_id := u,
           sub_arena_id := Some (if sf_arena_id form = [] then ''default'' else sf_arena_id form)\<rparr>"
  let ?d2 = "\<lambda>src d1. case (if ok Insert_Source then insertSource i src d1 else None) of None \<Rightarrow> d1 | Some d2 \<Rightarrow> d2"
  note d = handleSubmission_def assms(2)
  obtain m q1 where c: "CheckRateLimit R now (rateLimitName rq form) (redis w) = (Some (True, m), q1)"
    using assms(1) by (auto simp: d split: prod.splits option.splits bool.splits)
  obtain s3 src o1 where s: "storeUpload Z ok i form objs = Inr (s3, src, o1)"
    using assms(1) by (cases "storeUpload Z ok i form objs") (auto simp: d c)
  obtain d1 where ins: "ok Insert_Submission" "insertSubmission (?r s3) (db w) = Some d1"
    using assms(1) by (cases "insertSubmission (?r s3) (db w)") (auto simp: d c s Let_def split: if_splits)
  have e: "enqueueBuild R ok now i (compileMessage i c (sf_github_url form) s3) q1 (?d2 src d1) = (Reply n b, w1)"
    using assms(1) ins by (auto simp: d c s Let_def split: prod.splits)
  have "db w1 = (case (if ok Insert_Source then insertSource i src d1 else None) of None \<Rightarrow> d1 | Some d2 \<Rightarrow> d2)"
    using enqueueBuild_reply [of R ok now i "compileMessage i c (sf_github_url form) s3" q1
        "case (if ok Insert_Source then insertSource i src d1 else None) of None \<Rightarrow> d1 | Some d2 \<Rightarrow> d2" n b] e by simp
  then have "submissions (db w1) = submissions d1" by (auto split: option.splits if_splits dest: insertSource_submissions)
  then show ?thesis using ins(2) by (auto simp: insertSubmission_def split: if_splits)
qed



end
