(* ===== verification/Arena.thy ===== *)
theory Arena
  imports Gateway
begin

text \<open>
  The contests of \<^verbatim>\<open>services/gateway/arena.go\<close> and the dashboard of \<^verbatim>\<open>dashboard_handlers.go\<close>: the life of an arena, the
  queueing of its system tests, registrations, the counters of the dashboard and its actions.
\<close>

section \<open>Arenas\<close>

definition handleListArenas :: "(gcall \<Rightarrow> bool) \<Rightarrow> DB \<Rightarrow> ArenaRow list reply" where
  "handleListArenas ok d =
     (if \<not> ok Select_Row then Fail 500 ''Failed to fetch arenas'' else Reply 200 (sort_key ar_start_time (arenas d)))"

definition handleGetArena :: "(gcall \<Rightarrow> bool) \<Rightarrow> string \<Rightarrow> DB \<Rightarrow> ArenaRow reply" where
  "handleGetArena ok i d =
     (if \<not> ok Select_Row then Fail 500 ''Failed to fetch arena details''
      else case findArena i d of None \<Rightarrow> Fail 404 ''Arena not found'' | Some a \<Rightarrow> Reply 200 a)"

definition handleRegisterArena :: "(gcall \<Rightarrow> bool) \<Rightarrow> string \<Rightarrow> string \<Rightarrow> DB \<Rightarrow> string reply \<times> DB" where
  \<comment> \<open>the insert does nothing on a conflict and fails for a user that does not exist\<close>
  "handleRegisterArena ok arenaID userID d =
     (if \<not> ok Select_Row \<or> findArena arenaID d = None then (Fail 404 ''Arena not found'', d)
      else if \<not> ok Insert_Row \<or> userID \<notin> usr_id ` set (users d) then (Fail 500 ''Failed to register for contest'', d)
      else (Reply 200 ''registered'',
            if (arenaID, userID) \<in> set (arena_registrations d) then d
            else d\<lparr>arena_registrations := arena_registrations d @ [(arenaID, userID)]\<rparr>))"

definition handleGetRegistrations :: "(gcall \<Rightarrow> bool) \<Rightarrow> string \<Rightarrow> DB \<Rightarrow> string list reply" where
  "handleGetRegistrations ok arenaID d =
     (if \<not> ok Select_Row then Fail 500 ''Failed to fetch registrations''
      else Reply 200 (List.map_filter (\<lambda>(_, u). map_option usr_handle (find (\<lambda>x. usr_id x = u) (users d)))
             (filter (\<lambda>(a, _). a = arenaID) (arena_registrations d))))"

record ArenaBody =
  ab_Title :: string
  ab_Description :: string
  ab_StartTime :: "int option" \<comment> \<open>None is the zero time\<close>
  ab_EndTime :: "int option"
  ab_Status :: string

definition zeroTime :: int where
  \<comment> \<open>0001-01-01T00:00:00Z in nanoseconds of the epoch\<close>
  "zeroTime = - 62135596800 * 1000000000"

definition timeOf :: "int option \<Rightarrow> int" where
  "timeOf t = (case t of Some x \<Rightarrow> x | None \<Rightarrow> zeroTime)"

definition handleCreateArena :: "(gcall \<Rightarrow> bool) \<Rightarrow> string \<Rightarrow> ArenaBody option \<Rightarrow> DB \<Rightarrow> ArenaRow reply \<times> DB" where
  "handleCreateArena ok uuid body d =
     (case body of
        None \<Rightarrow> (Fail 400 ''Invalid request body'', d)
      | Some b \<Rightarrow>
          if ab_Title b = '''' then (Fail 400 ''Arena title is required'', d)
          else let a = \<lparr>ar_id = uuid, ar_title = ab_Title b, ar_description = ab_Description b, ar_status = ''upcoming'',
                        ar_start_time = timeOf (ab_StartTime b), ar_end_time = timeOf (ab_EndTime b)\<rparr> in
            if \<not> ok Insert_Row \<or> uuid \<in> ar_id ` set (arenas d) then (Fail 500 ''Failed to create arena'', d)
            else (Reply 201 a, d\<lparr>arenas := arenas d @ [a]\<rparr>))"

definition updateArenaRow :: "ArenaBody \<Rightarrow> ArenaRow \<Rightarrow> ArenaRow" where
  \<comment> \<open>empty strings and zero times keep the column\<close>
  "updateArenaRow b a =
     a\<lparr>ar_title := (if ab_Title b = '''' then ar_title a else ab_Title b),
       ar_description := (if ab_Description b = '''' then ar_description a else ab_Description b),
       ar_start_time := (if timeOf (ab_StartTime b) = zeroTime then ar_start_time a else timeOf (ab_StartTime b)),
       ar_end_time := (if timeOf (ab_EndTime b) = zeroTime then ar_end_time a else timeOf (ab_EndTime b)),
       ar_status := (if ab_Status b = '''' then ar_status a else ab_Status b)\<rparr>"

section \<open>System tests\<close>

definition systestKey :: "SubmissionRow \<Rightarrow> rankKey" where
  "systestKey r = (if sub_verdict r = ''Accepted'' then 0 else 1, - sub_composite_score r, - sub_created_at r)"

definition systestSelection :: "string \<Rightarrow> DB \<Rightarrow> SubmissionRow list" where
  \<comment> \<open>the best completed submission of each contestant\<close>
  "systestSelection arenaID d =
     (let rs = filter (\<lambda>r. sub_status r = ''completed'') (arenaRows arenaID d) in
      map (\<lambda>u. hd (sort_key systestKey (filter (\<lambda>r. identity r = u) rs))) (remdups (map identity rs)))"

definition resetRow :: "SubmissionRow \<Rightarrow> SubmissionRow" where
  "resetRow r = r\<lparr>sub_status := ''queued'', sub_verdict := ''Pending'', sub_composite_score := 0, sub_correctness_score := 0,
     sub_p50_us := 0, sub_p90_us := 0, sub_p99_us := 0, sub_actual_tps := 0, sub_diagnostics := DiagEmpty\<rparr>"

definition systestMessage :: "SubmissionRow \<Rightarrow> valmap" where
  "systestMessage r = [(''submission_id'', sub_id r), (''image_tag'', ''contestant-'' @ sub_id r), (''contestant_id'', sub_contestant_id r)]"

definition queueSystest :: "'q redis_ops \<Rightarrow> (string \<Rightarrow> bool) \<Rightarrow> int \<Rightarrow> SubmissionRow \<Rightarrow> 'q World \<Rightarrow> 'q World" where
  "queueSystest R resetOK now r w =
     (if \<not> resetOK (sub_id r) then w
      else \<lparr>redis = snd (XAdd R SystestQueue (systestMessage r) (redis w)), db = updateSubmission now (sub_id r) resetRow (db w)\<rparr>)"

definition triggerSystemTestsForArena :: "'q redis_ops \<Rightarrow> (gcall \<Rightarrow> bool) \<Rightarrow> (string \<Rightarrow> bool) \<Rightarrow> int \<Rightarrow> string \<Rightarrow> 'q World \<Rightarrow> 'q World" where
  "triggerSystemTestsForArena R ok resetOK now arenaID w =
     (if \<not> ok Select_Row then w else fold (queueSystest R resetOK now) (systestSelection arenaID (db w)) w)"

definition handleUpdateArena :: "'q redis_ops \<Rightarrow> (gcall \<Rightarrow> bool) \<Rightarrow> (string \<Rightarrow> bool) \<Rightarrow> int \<Rightarrow> string \<Rightarrow> ArenaBody option \<Rightarrow> 'q World \<Rightarrow>
    string reply \<times> 'q World" where
  \<comment> \<open>with the system tests that it starts in the background\<close>
  "handleUpdateArena R ok resetOK now arenaID body w =
     (case body of
        None \<Rightarrow> (Fail 400 ''Invalid request body'', w)
      | Some b \<Rightarrow>
          if \<not> ok Select_Row then (Fail 500 ''Database error'', w)
          else case findArena arenaID (db w) of
            None \<Rightarrow> (Fail 404 ''Arena not found'', w)
          | Some a \<Rightarrow>
              if \<not> ok Update_Row then (Fail 500 ''Failed to update arena'', w)
              else
                let d1 = (db w)\<lparr>arenas := map (\<lambda>x. if ar_id x = arenaID then updateArenaRow b x else x) (arenas (db w))\<rparr>;
                    w1 = w\<lparr>db := d1\<rparr> in
                (Reply 200 ''ok'',
                 if ab_Status b = ''system_test'' \<and> ar_status a \<noteq> ''system_test''
                 then triggerSystemTestsForArena R ok resetOK now arenaID w1 else w1))"

definition handleRejudgeArena :: "'q redis_ops \<Rightarrow> (gcall \<Rightarrow> bool) \<Rightarrow> (string \<Rightarrow> bool) \<Rightarrow> int \<Rightarrow> string \<Rightarrow> 'q World \<Rightarrow> string reply \<times> 'q World" where
  "handleRejudgeArena R ok resetOK now arenaID w =
     (Reply 200 ''rejudge_triggered'', triggerSystemTestsForArena R ok resetOK now arenaID w)"

definition handleGetWorkersTelemetry :: "'q redis_ops \<Rightarrow> 'q \<Rightarrow> int \<times> int \<times> int" where
  "handleGetWorkersTelemetry R q = (XLen R CompilationQueue q, XLen R PretestQueue q, XLen R SystestQueue q)"

fun bootstrapLoop :: "(bool \<times> bool) list \<Rightarrow> int \<Rightarrow> DB \<Rightarrow> DB" where
  \<comment> \<open>per attempt, whether the query and the insert succeed\<close>
  "bootstrapLoop [] now d = d"
| "bootstrapLoop ((queryOK, insertOK) # as) now d =
     (if \<not> queryOK then bootstrapLoop as now d
      else if ''default'' \<in> ar_id ` set (arenas d) \<or> \<not> insertOK then d
      else d\<lparr>arenas := arenas d @ [\<lparr>ar_id = ''default'', ar_title = ''Default Arena'',
               ar_description = ''Default competitive programming sandbox arena.'', ar_status = ''active'',
               ar_start_time = now, ar_end_time = now + 30 * day\<rparr>]\<rparr>)"

definition bootstrapDefaultArena :: "(bool \<times> bool) list \<Rightarrow> int \<Rightarrow> DB \<Rightarrow> DB" where
  "bootstrapDefaultArena as now d = bootstrapLoop (take 5 as) now d"

section \<open>The dashboard\<close>

record K8sPodStatus =
  kp_GatewayPods :: nat
  kp_CompilerPods :: nat
  kp_TestingPods :: nat
  kp_PostgresPods :: nat
  kp_RedisPods :: nat
  kp_TotalPods :: nat
  kp_IsClusterMode :: bool

definition getK8sPods :: "bool \<Rightarrow> (string \<times> string) list option \<Rightarrow> K8sPodStatus option" where
  \<comment> \<open>whether there is a service account, and the phase and application label of the pods, or None for an error\<close>
  "getK8sPods mounted pods =
     (if \<not> mounted then
        Some \<lparr>kp_GatewayPods = 3, kp_CompilerPods = 2, kp_TestingPods = 0, kp_PostgresPods = 1, kp_RedisPods = 1, kp_TotalPods = 7,
              kp_IsClusterMode = False\<rparr>
      else case pods of
        None \<Rightarrow> None
      | Some ps \<Rightarrow>
          let apps = map snd (filter (\<lambda>(phase, _). phase = ''Running'') ps); n = (\<lambda>a. length (filter (\<lambda>x. x = a) apps)) in
          Some \<lparr>kp_GatewayPods = n ''submission-gateway'', kp_CompilerPods = n ''compilation-worker'', kp_TestingPods = n ''testing-worker'',
                kp_PostgresPods = n ''postgres'', kp_RedisPods = n ''redis'', kp_TotalPods = length apps, kp_IsClusterMode = True\<rparr>)"

record RecentSubmission =
  rs_build_id :: string
  rs_contestant_id :: string
  rs_status :: string
  rs_verdict :: string
  rs_diagnostics :: diag
  rs_composite_score :: rat
  rs_submitted_at :: int

definition recentOf :: "SubmissionRow \<Rightarrow> RecentSubmission" where
  "recentOf r =
     \<lparr>rs_build_id = sub_id r, rs_contestant_id = sub_contestant_id r, rs_status = sub_status r, rs_verdict = sub_verdict r,
      rs_diagnostics = sub_diagnostics r, rs_composite_score = sub_composite_score r, rs_submitted_at = sub_created_at r\<rparr>"

record DashboardMetrics =
  dm_db_healthy :: bool
  dm_redis_healthy :: bool
  dm_total_submissions :: nat
  dm_active_submissions :: nat
  dm_compilation_queue_depth :: int
  dm_pretest_queue_depth :: int
  dm_max_composite_score :: rat
  dm_recent_submissions :: "RecentSubmission list"
  dm_k8s_status :: K8sPodStatus

datatype dquery = Count_All | Count_Active | Max_Score | Select_Recent

definition handleDashboardMetrics :: "'q redis_ops \<Rightarrow> bool \<Rightarrow> bool \<Rightarrow> (dquery \<Rightarrow> bool) \<Rightarrow> K8sPodStatus option \<Rightarrow> 'q World \<Rightarrow>
    DashboardMetrics" where
  \<comment> \<open>whether the database and Redis answer, whether each query succeeds, and the pods or None for an error\<close>
  "handleDashboardMetrics R dbHealthy redisHealthy ok pods w =
     (let rows = (\<lambda>q. if dbHealthy \<and> ok q then submissions (db w) else []) in
      \<lparr>dm_db_healthy = dbHealthy,
       dm_redis_healthy = redisHealthy,
       dm_total_submissions = length (rows Count_All),
       dm_active_submissions = length (filter (\<lambda>r. sub_status r \<in> {''queued'', ''compiling'', ''running''}) (rows Count_Active)),
       dm_compilation_queue_depth = (if redisHealthy then XLen R CompilationQueue (redis w) else 0),
       dm_pretest_queue_depth = (if redisHealthy then XLen R PretestQueue (redis w) else 0),
       dm_max_composite_score = (if rows Max_Score = [] then 0 else Max (sub_composite_score ` set (rows Max_Score))),
       dm_recent_submissions = map recentOf (take 30 (sort_key (\<lambda>r. - sub_created_at r) (rows Select_Recent))),
       dm_k8s_status = (case pods of Some p \<Rightarrow> p
         | None \<Rightarrow> \<lparr>kp_GatewayPods = 0, kp_CompilerPods = 0, kp_TestingPods = 0, kp_PostgresPods = 0, kp_RedisPods = 0, kp_TotalPods = 0,
                     kp_IsClusterMode = False\<rparr>)\<rparr>)"

definition allowedEngines :: "string list" where
  "allowedEngines = [''go_optimized'', ''python_slow'', ''rust_crash'', ''node_scammer'', ''cpp_basic'', ''go_ws'', ''go_rest'', ''go_fix'']"

definition mockMessage :: "string \<Rightarrow> string \<Rightarrow> string \<Rightarrow> valmap" where
  "mockMessage buildID contestantID isSystest =
     [(''submission_id'', buildID), (''s3_path'', s3PathOf buildID), (''contestant_id'', contestantID), (''is_systest'', isSystest)]"

definition handleMockSubmission :: "'q redis_ops \<Rightarrow> zip_ops \<Rightarrow> (gcall \<Rightarrow> bool) \<Rightarrow> (string \<Rightarrow> (string option) option) \<Rightarrow> int \<Rightarrow> string \<Rightarrow> int \<Rightarrow>
    string \<Rightarrow> string \<Rightarrow> 'q World \<times> (string \<times> string) list \<Rightarrow> string reply \<times> 'q World \<times> (string \<times> string) list" where
  \<comment> \<open>\<open>dirs\<close>: None when the directory of an engine is missing, and its zipped contents otherwise\<close>
  "handleMockSubmission R Z ok dirs now buildID n engine0 isSystest0 = (\<lambda>(w, objs).
     let engine = (if engine0 = '''' then ''go_optimized'' else engine0);
         contestantID = ''mock-contestant-'' @ Itoa n in
     if engine \<notin> set allowedEngines then (Fail 400 ''Invalid engine name'', w, objs)
     else case dirs engine of
       None \<Rightarrow> (Fail 400 ''Engine directory not found'', w, objs)
     | Some None \<Rightarrow> (Fail 500 ''failed to package mock engine'', w, objs)
     | Some (Some zipBytes) \<Rightarrow>
         (case normalizeZipToTarGz (z_unzip Z) (z_header Z) (z_targz Z) zipBytes of
            Inl _ \<Rightarrow> (Fail 500 ''failed to package mock engine as tar.gz'', w, objs)
          | Inr tar \<Rightarrow>
              if \<not> ok Put_Object then (Fail 500 ''failed to store mock submission ZIP'', w, objs)
              else let objs1 = AList.update (s3PathOf buildID) tar objs in
              (case (if ok Insert_Submission then insertSubmission (newSubmission now buildID contestantID (s3PathOf buildID)) (db w) else None) of
                 None \<Rightarrow> (Fail 500 ''failed to save mock submission status'', w, objs1)
               | Some d1 \<Rightarrow>
                   let d2 = (case (if ok Insert_Source then insertSource buildID (''[ZIP Mock Submission: '' @ engine @ '']'') d1 else None) of
                               None \<Rightarrow> d1 | Some d2 \<Rightarrow> d2) in
                   (case enqueueBuild R ok now buildID
                           (mockMessage buildID contestantID (if isSystest0 = '''' then ''true'' else isSystest0)) (redis w) d2 of
                      (Reply _ b, w1) \<Rightarrow> (Reply 200 b, w1, objs1)
                    | (Fail s _, w1) \<Rightarrow> (Fail s ''failed to queue mock submission'', w1, objs1)))))"

definition handleCleanDB :: "'q redis_ops \<Rightarrow> (gcall \<Rightarrow> bool) \<Rightarrow> 'q World \<Rightarrow> string reply \<times> 'q World" where
  "handleCleanDB R ok w =
     (if \<not> ok Update_Row then (Fail 500 ''Failed to truncate database submissions'', w)
      else
        let q1 = snd (Del R [CompilationQueue, PretestQueue, SystestQueue] (redis w)); q2 = snd (InitRedisQueues R q1) in
        (Reply 200 ''ok'', \<lparr>redis = q2, db = (db w)\<lparr>submissions := [], submission_sources := []\<rparr>\<rparr>))"

end
