(* ===== verification/Pipeline.thy ===== *)
theory Pipeline
  imports Arena
begin

text \<open>
  The life of a submission across the gateway, the compiler and the test workers. One step of \<open>pipe_step\<close> is one
  delivery of a message to a worker, with any outcome of the build or the runs; Redis and the database answer.
  \<open>pipe_ok\<close> says that every submission without a final status has a message that drives it. It is kept by
  submissions, system tests and deliveries, and the deliveries end: \<open>every_submission_is_judged\<close>.
\<close>

section \<open>Retry counters\<close>

lemma atoiValue_Itoa: "in64 i \<Longrightarrow> atoiValue (Itoa i) = i"
proof -
  assume i: "in64 i"
  obtain c cs where u: "utoa (nat \<bar>i\<bar>) = c # cs" "list_all is_digit (c # cs)"
    using utoa_digits [of "nat \<bar>i\<bar>"] by (cases "utoa (nat \<bar>i\<bar>)") auto
  have s: "c \<noteq> CHR ''-''" "c \<noteq> CHR ''+''" using u digit_not_sign [of c] by auto
  have a: "int (atou (c # cs)) = \<bar>i\<bar>" using atou_utoa [of "nat \<bar>i\<bar>"] by (simp add: u)
  show ?thesis using i u s a by (auto simp: atoiValue_def Itoa_def in64_def Let_def)
qed

definition msgWeight :: "valmap \<Rightarrow> nat" where
  \<comment> \<open>how often a message can still be delivered\<close>
  "msgWeight vs = max 1 (nat (4 - retryCountOf vs))"

definition retried :: "valmap \<Rightarrow> valmap" where
  "retried vs = AList.update ''retry_count'' (Itoa (retryCountOf vs + 1)) vs"

lemma retryCount_range: "- (2 ^ 63) \<le> retryCountOf vs"
  by (auto simp: retryCountOf_def atoiValue_def Let_def split: list.splits prod.splits)

lemma retried_weight: "retryCountOf vs < 3 \<Longrightarrow> msgWeight (retried vs) < msgWeight vs"
proof -
  assume r: "retryCountOf vs < 3"
  have "retryCountOf (retried vs) = retryCountOf vs + 1"
    unfolding retried_def retryCountOf_def [of "AList.update _ _ _"] get_or_update
    using r retryCount_range [of vs] by (simp add: atoiValue_Itoa in64_def)
  then show ?thesis using r by (simp add: msgWeight_def nat_less_iff)
qed

lemma msgWeight_fresh: "map_of vs ''retry_count'' = None \<Longrightarrow> msgWeight vs = 4"
  by (simp add: msgWeight_def retryCountOf_def get_or_def atoiValue_def)

section \<open>The invariant\<close>

definition terminal :: "string \<Rightarrow> bool" where
  "terminal st \<longleftrightarrow> st = ''completed'' \<or> st = ''failed''"

definition queues :: "string list" where
  "queues = [CompilationQueue, PretestQueue, SystestQueue]"

definition drives :: "string \<Rightarrow> XMessage \<Rightarrow> string \<Rightarrow> bool" where
  \<comment> \<open>the message makes its worker work on the submission\<close>
  "drives s m i \<longleftrightarrow> map_of (msg_Values m) ''submission_id'' = Some i \<and>
     (if s = CompilationQueue then get_or [] (msg_Values m) ''s3_path'' \<noteq> [] \<or> get_or [] (msg_Values m) ''github_url'' \<noteq> []
      else map_of (msg_Values m) ''image_tag'' \<noteq> None)"

definition named :: "XMessage \<Rightarrow> bool" where
  \<comment> \<open>its identifier can be abbreviated\<close>
  "named m \<longleftrightarrow> (case map_of (msg_Values m) ''submission_id'' of None \<Rightarrow> True | Some i \<Rightarrow> 8 \<le> length i)"

definition pipe_ok :: "('q \<Rightarrow> string \<Rightarrow> XMessage list) \<Rightarrow> ('q \<Rightarrow> string \<Rightarrow> XMessage list) \<Rightarrow> 'q World \<Rightarrow> bool" where
  "pipe_ok fresh pel w \<longleftrightarrow>
     (\<forall>s \<in> set queues. pel (redis w) s = [] \<and> unique_ids [] (fresh (redis w) s) \<and> list_all named (fresh (redis w) s)) \<and>
     (\<forall>r \<in> set (submissions (db w)). \<not> terminal (sub_status r) \<longrightarrow>
        (\<exists>s \<in> set queues. \<exists>m \<in> set (fresh (redis w) s). drives s m (sub_id r)))"

definition stageWeight :: "string \<Rightarrow> nat" where
  "stageWeight s = (if s = CompilationQueue then 4 else 0)"

definition pipeWeight :: "(string \<Rightarrow> XMessage list) \<Rightarrow> nat" where
  \<comment> \<open>an upper bound of the deliveries to come\<close>
  "pipeWeight f = (\<Sum>s \<leftarrow> queues. \<Sum>m \<leftarrow> f s. msgWeight (msg_Values m) + stageWeight s)"

lemma queue_distinct [simp]:
  "CompilationQueue \<noteq> PretestQueue" "CompilationQueue \<noteq> SystestQueue" "PretestQueue \<noteq> SystestQueue"
  "PretestQueue \<noteq> CompilationQueue" "SystestQueue \<noteq> CompilationQueue" "SystestQueue \<noteq> PretestQueue"
  "DeadLetterQueue \<noteq> CompilationQueue" "DeadLetterQueue \<noteq> PretestQueue" "DeadLetterQueue \<noteq> SystestQueue"
  "CompilationQueue \<noteq> DeadLetterQueue" "PretestQueue \<noteq> DeadLetterQueue" "SystestQueue \<noteq> DeadLetterQueue"
  by (simp_all add: queue_names)

lemma groups [simp]: "groupOf CompilationQueue = CompilationGroup" "groupOf PretestQueue = PretestGroup" "groupOf SystestQueue = SystestGroup"
  by (simp_all add: groupOf_def)

lemma queueOf_in [simp]: "queueOf b \<in> set queues" "queueOf b \<noteq> CompilationQueue" "CompilationQueue \<noteq> queueOf b" "DeadLetterQueue \<noteq> queueOf b"
  by (simp_all add: queueOf_def queues_def)

section \<open>Effect of one delivery\<close>

datatype effect = Settled | Requeued string valmap \<comment> \<open>the queue and the values of the message that is added\<close>

definition applied :: "effect \<Rightarrow> string \<Rightarrow> (string \<Rightarrow> XMessage list) \<Rightarrow> (string \<Rightarrow> XMessage list) \<Rightarrow> bool" where
  \<comment> \<open>how the undelivered messages of the queues change, apart from the dead letters\<close>
  "applied e s f f' \<longleftrightarrow>
     (case e of
        Settled \<Rightarrow> (\<forall>t \<in> set queues. f' t = f t)
      | Requeued t vs \<Rightarrow> \<exists>j. j \<notin> msg_ID ` set (f t) \<and> (\<forall>u \<in> set queues. f' u = (if u = t then f t @ [\<lparr>msg_ID = j, msg_Values = vs\<rparr>] else f u)))"

definition touched :: "string \<Rightarrow> (string \<Rightarrow> bool) \<Rightarrow> DB \<Rightarrow> DB \<Rightarrow> bool" where
  \<comment> \<open>only rows of one submission change, and their status then satisfies the predicate\<close>
  "touched i P d d' \<longleftrightarrow>
     list_all2 (\<lambda>r r'. sub_id r' = sub_id r \<and> (if sub_id r = i then P (sub_status r') else r' = r)) (submissions d) (submissions d')"

lemma touched_update: "(\<And>r. sub_id (f r) = sub_id r \<and> P (sub_status (f r))) \<Longrightarrow> touched i P d (updateSubmission now i f d)"
  by (simp add: touched_def updateSubmission_def list_all2_conv_all_nth)

lemma touched_trans: "touched i P d d1 \<Longrightarrow> touched i Q d1 d2 \<Longrightarrow> touched i Q d d2"
  unfolding touched_def by (rule list_all2_trans) (auto split: if_splits)

definition judged :: "effect \<Rightarrow> string \<Rightarrow> XMessage \<Rightarrow> DB \<Rightarrow> DB \<Rightarrow> bool" where
  \<comment> \<open>the message is done with and its submission has a final status, or another message drives it\<close>
  "judged e s m d d' \<longleftrightarrow>
     (case e of
        Settled \<Rightarrow> (\<forall>i. drives s m i \<longrightarrow> touched i terminal d d') \<and> ((\<nexists>i. drives s m i) \<longrightarrow> submissions d' = submissions d)
      | Requeued t vs \<Rightarrow> \<exists>i. drives s m i \<and> touched i (\<lambda>_. True) d d' \<and> t \<in> set queues \<and>
          (\<forall>j. drives t \<lparr>msg_ID = j, msg_Values = vs\<rparr> i) \<and> msgWeight vs + stageWeight t < msgWeight (msg_Values m) + stageWeight s)"

lemma drives_unique: "drives s m i \<Longrightarrow> drives s m j \<Longrightarrow> i = j"
  by (simp add: drives_def)

lemma drives_retried: "drives s m i \<Longrightarrow> drives s \<lparr>msg_ID = j, msg_Values = retried (msg_Values m)\<rparr> i"
  by (auto simp: drives_def retried_def gomap_simps)

lemma judged_retried:
  assumes "drives s m i" "touched i (\<lambda>_. True) d d'" "s \<in> set queues" "retryCountOf (msg_Values m) < 3"
  shows "judged (Requeued s (retried (msg_Values m))) s m d d'"
  using assms retried_weight [OF assms(4)] drives_retried by (auto simp: judged_def)

lemma judged_settled: "drives s m i \<Longrightarrow> touched i terminal d d' \<Longrightarrow> judged Settled s m d d'"
  by (auto simp: judged_def dest: drives_unique)

lemma weight_read:
  assumes "s \<in> set queues" "f s = m # g s" "\<forall>t. t \<noteq> s \<longrightarrow> g t = f t"
  shows "pipeWeight f = pipeWeight g + msgWeight (msg_Values m) + stageWeight s"
  using assms by (auto simp: pipeWeight_def queues_def)

lemma weight_applied:
  assumes "applied e s f f'" "case e of Requeued t _ \<Rightarrow> t \<in> set queues | _ \<Rightarrow> True"
  shows "pipeWeight f' = pipeWeight f + (case e of Settled \<Rightarrow> 0 | Requeued t vs \<Rightarrow> msgWeight vs + stageWeight t)"
  using assms by (cases e) (auto simp: applied_def pipeWeight_def queues_def)

lemma applied_keeps: "applied e s f f' \<Longrightarrow> t \<in> set queues \<Longrightarrow> set (f t) \<subseteq> set (f' t)"
  by (cases e) (auto simp: applied_def)

lemma applied_unique: "applied e s f f' \<Longrightarrow> t \<in> set queues \<Longrightarrow> unique_ids [] (f t) \<Longrightarrow> unique_ids [] (f' t)"
  by (cases e) (auto simp: applied_def unique_ids_snoc split: if_splits)

lemma applied_named:
  assumes "applied e s f f'" "t \<in> set queues" "list_all named (f t)" "named m" "judged e s m d d'"
  shows "list_all named (f' t)"
proof (cases e)
  case (Requeued u vs)
  then have "named \<lparr>msg_ID = j, msg_Values = vs\<rparr>" for j
    using assms(4,5) by (auto simp: judged_def drives_def named_def)
  then show ?thesis using assms(1-3) by (auto simp: applied_def Requeued split: if_splits)
qed (use assms in \<open>simp add: applied_def\<close>)

definition covered :: "(string \<Rightarrow> XMessage list) \<Rightarrow> string \<Rightarrow> bool" where
  "covered f i \<longleftrightarrow> (\<exists>s \<in> set queues. \<exists>m \<in> set (f s). drives s m i)"

lemma covered_read: "f s = m # g s \<Longrightarrow> \<forall>t. t \<noteq> s \<longrightarrow> g t = f t \<Longrightarrow> covered f i \<Longrightarrow> covered g i \<or> drives s m i"
  unfolding covered_def by (metis set_ConsD)

lemma covered_applied: "applied e s f f' \<Longrightarrow> covered f i \<Longrightarrow> covered f' i"
  unfolding covered_def using applied_keeps by blast

lemma covered_after:
  assumes ap: "applied e s g f'" and oc: "judged e s m d d'" and read: "f s = m # g s" "\<forall>t. t \<noteq> s \<longrightarrow> g t = f t"
    and before: "\<forall>r \<in> set (submissions d). \<not> terminal (sub_status r) \<longrightarrow> covered f (sub_id r)"
    and r': "r' \<in> set (submissions d')" "\<not> terminal (sub_status r')"
  shows "covered f' (sub_id r')"
proof -
  have other: ?thesis if "r' \<in> set (submissions d)" "\<not> drives s m (sub_id r')"
    using covered_read [OF read] covered_applied [OF ap] before that r'(2) by blast
  have old: "r' \<in> set (submissions d) \<and> sub_id r' \<noteq> i \<or> sub_id r' = i \<and> P (sub_status r')" if "touched i P d d'" for i P
  proof -
    obtain n where n: "n < length (submissions d')" "r' = submissions d' ! n" using r'(1) by (metis in_set_conv_nth)
    then have l: "n < length (submissions d)" using that by (auto simp: touched_def dest: list_all2_lengthD)
    then show ?thesis using list_all2_nthD [OF that [unfolded touched_def] l] n nth_mem [OF l] by (auto split: if_splits)
  qed
  show ?thesis
  proof (cases e)
    case Settled
    then show ?thesis
      using oc other old r' by (cases "\<exists>i. drives s m i") (auto simp: judged_def dest: drives_unique)
  next
    case (Requeued t vs)
    then obtain i where i: "drives s m i" "touched i (\<lambda>_. True) d d'" "t \<in> set queues" "\<And>j. drives t \<lparr>msg_ID = j, msg_Values = vs\<rparr> i"
      using oc by (auto simp: judged_def)
    have "covered f' i" using ap i(3,4) by (auto simp: applied_def covered_def Requeued)
    then show ?thesis using old [OF i(2)] other i(1) drives_unique by blast
  qed
qed

context redis_answers
begin

definition busy :: "string \<Rightarrow> XMessage \<Rightarrow> 'a \<Rightarrow> bool" where
  \<comment> \<open>one message of the queue is with its worker\<close>
  "busy s m q \<longleftrightarrow> s \<in> set queues \<and> pel q s = [m] \<and> (\<forall>t \<in> set queues. t \<noteq> s \<longrightarrow> pel q t = []) \<and> unique_ids [m] (fresh q s)"

definition idle :: "'a \<Rightarrow> bool" where
  "idle q \<longleftrightarrow> (\<forall>t \<in> set queues. pel q t = [])"

lemma settle:
  assumes "busy s m q"
  shows "idle (snd (AckAndDel R s (groupOf s) (msg_ID m) q)) \<and> fresh (snd (AckAndDel R s (groupOf s) (msg_ID m) q)) = fresh q"
proof -
  obtain b q' where e: "AckAndDel R s (groupOf s) (msg_ID m) q = (b, q')" by (cases "AckAndDel R s (groupOf s) (msg_ID m) q")
  show ?thesis using assms ack_del_effect [OF e] filter_unique_last [of "[]" m "fresh q s"] by (auto simp: e busy_def idle_def)
qed

lemma busy_add:
  assumes "busy s m q"
  obtains j q' where "XAdd R t v q = (True, q')" "busy s m q'" "fresh q' = (fresh q)(t := fresh q t @ [\<lparr>msg_ID = j, msg_Values = v\<rparr>])"
    "j \<notin> msg_ID ` set (fresh q t)"
proof -
  obtain j q' where a: "XAdd R t v q = (True, q')" "j \<notin> msg_ID ` set (pel q t @ fresh q t)"
      "fresh q' = (fresh q)(t := fresh q t @ [\<lparr>msg_ID = j, msg_Values = v\<rparr>])" "pel q' = pel q"
    by (rule add_cases)
  have "unique_ids (pel q' s) (fresh q' s)" using unique_ids_add [OF a(1)] assms by (simp add: busy_def)
  then have "busy s m q'" using assms a(4) by (simp add: busy_def)
  then show ?thesis using that a by auto
qed

lemma settle_add:
  assumes "busy s m q"
  shows "\<exists>j q'. XAdd R t v q = (True, q') \<and> j \<notin> msg_ID ` set (fresh q t) \<and>
     idle (snd (AckAndDel R s (groupOf s) (msg_ID m) q')) \<and>
     fresh (snd (AckAndDel R s (groupOf s) (msg_ID m) q')) = (fresh q)(t := fresh q t @ [\<lparr>msg_ID = j, msg_Values = v\<rparr>])"
proof -
  obtain j q' where a: "XAdd R t v q = (True, q')" "busy s m q'" "fresh q' = (fresh q)(t := fresh q t @ [\<lparr>msg_ID = j, msg_Values = v\<rparr>])"
    "j \<notin> msg_ID ` set (fresh q t)" by (rule busy_add [OF assms])
  show ?thesis using a settle [OF a(2)] by auto
qed

lemma retry_effect:
  assumes "busy s m q" "ShouldRetry R s (groupOf s) (msg_ID m) (msg_Values m) err q = (b, q')"
  shows "idle q' \<and> applied (if b then Requeued s (retried (msg_Values m)) else Settled) s (fresh q) (fresh q') \<and>
         (b \<longleftrightarrow> retryCountOf (msg_Values m) < 3)"
proof (cases "retryCountOf (msg_Values m) < 3")
  case True
  obtain j q1 where x: "XAdd R s (retried (msg_Values m)) q = (True, q1)" "j \<notin> msg_ID ` set (fresh q s)"
      "idle (snd (AckAndDel R s (groupOf s) (msg_ID m) q1))"
      "fresh (snd (AckAndDel R s (groupOf s) (msg_ID m) q1)) = (fresh q)(s := fresh q s @ [\<lparr>msg_ID = j, msg_Values = retried (msg_Values m)\<rparr>])"
    using settle_add [OF assms(1)] by blast
  have "b" "q' = snd (AckAndDel R s (groupOf s) (msg_ID m) q1)"
    using assms(2) True x(1) by (auto simp: ShouldRetry_def MaxRetries_def retried_def Let_def)
  then show ?thesis using True x(2-4) by (auto simp: applied_def)
next
  case False
  define v where "v = AList.update ''failure_reason'' err (AList.update ''original_stream'' s (msg_Values m))"
  obtain j q1 where x: "XAdd R DeadLetterQueue v q = (True, q1)"
      "idle (snd (AckAndDel R s (groupOf s) (msg_ID m) q1))"
      "fresh (snd (AckAndDel R s (groupOf s) (msg_ID m) q1)) = (fresh q)(DeadLetterQueue := fresh q DeadLetterQueue @ [\<lparr>msg_ID = j, msg_Values = v\<rparr>])"
    using settle_add [OF assms(1)] by blast
  have "\<not> b" "q' = snd (AckAndDel R s (groupOf s) (msg_ID m) q1)"
    using assms(2) False x(1) by (auto simp: ShouldRetry_def MaxRetries_def v_def Let_def)
  then show ?thesis using False x(2,3) by (auto simp: applied_def queues_def)
qed

lemma build_outcome:
  assumes "busy CompilationQueue m (redis w)" "processMessage R A m w = Some w'" "\<And>c. ba_ok A c"
  shows "\<exists>e. idle (redis w') \<and> applied e CompilationQueue (fresh (redis w)) (fresh (redis w')) \<and> judged e CompilationQueue m (db w) (db w')"
proof (cases "\<exists>i. drives CompilationQueue m i")
  case False
  then have "w' = w\<lparr>redis := snd (AckAndDel R CompilationQueue CompilationGroup (msg_ID m) (redis w))\<rparr>"
    using assms(2) by (auto simp: processMessage_def drives_def Let_def split: option.splits if_splits)
  then show ?thesis using settle [OF assms(1)] False by (intro exI [of _ Settled]) (simp add: applied_def judged_def)
next
  case True
  then obtain i where dr: "drives CompilationQueue m i" by blast
  let ?vs = "msg_Values m"
  let ?d1 = "updateSubmission (ba_now A) i (setStatus ''building'') (db w)"
  have i: "map_of ?vs ''submission_id'' = Some i" "\<not> (get_or [] ?vs ''s3_path'' = [] \<and> get_or [] ?vs ''github_url'' = [])"
    using dr by (auto simp: drives_def)
  have t1: "touched i (\<lambda>_. True) (db w) ?d1" by (rule touched_update) (simp add: setStatus_def)
  have tf: "touched i terminal (db w) (failSubmission (ba_ok A) (ba_now A) i v s ?d1)" for v s
    unfolding failSubmission_def using assms(3)
    by (simp, intro touched_trans [OF t1] touched_update) (simp add: setFailed_def terminal_def)
  have len: "\<not> length i < 8" using assms(2) i by (auto simp: processMessage_def Let_def split: if_splits)
  note body = processMessage_def Let_def i(1) option.case if_not_P [OF i(2)] if_not_P [OF len]
  obtain b where b: "BuildImage (ba_bucket A) (ba_env A) (get_or [] ?vs ''s3_path'') (get_or [] ?vs ''github_url'') i = Some b"
    using assms(2) unfolding body by (auto split: option.splits)
  show ?thesis
  proof (cases b)
    case (Inl err)
    obtain a q1 where r: "ShouldRetry R CompilationQueue CompilationGroup (msg_ID m) ?vs err (redis w) = (a, q1)"
      by (cases "ShouldRetry R CompilationQueue CompilationGroup (msg_ID m) ?vs err (redis w)")
    note re = retry_effect [OF assms(1), of err a q1, simplified, OF r]
    show ?thesis
    proof (cases a)
      case True
      then have "w' = \<lparr>redis = q1, db = ?d1\<rparr>" using assms(2) unfolding body by (simp add: b Inl r assms(3))
      then show ?thesis using re True judged_retried [OF dr t1] by (intro exI [of _ "Requeued CompilationQueue (retried ?vs)"]) (simp add: queues_def)
    next
      case False
      then have "w' = \<lparr>redis = q1, db = failSubmission (ba_ok A) (ba_now A) i ''System Failure'' (''Internal build agent error: '' @ err) ?d1\<rparr>"
        using assms(2) unfolding body by (simp add: b Inl r assms(3))
      then show ?thesis using re False judged_settled [OF dr tf] by (intro exI [of _ Settled]) simp
    qed
  next
    case (Inr x)
    obtain ok tag stderr where x: "x = (ok, tag, stderr)" by (cases x)
    show ?thesis
    proof (cases ok)
      case False
      then have "redis w' = snd (AckAndDel R CompilationQueue CompilationGroup (msg_ID m) (redis w))"
          "\<exists>v. db w' = failSubmission (ba_ok A) (ba_now A) i v stderr ?d1"
        using assms(2) unfolding body by (auto simp: b Inr x assms(3))
      then show ?thesis using settle [OF assms(1)] judged_settled [OF dr tf] by (intro exI [of _ Settled]) (auto simp: applied_def)
    next
      case True
      then have w': "w' = queueTest R A m i tag (redis w) ?d1" using assms(2) unfolding body by (simp add: b Inr x assms(3))
      define t where "t = queueOf (get_or [] ?vs ''is_systest'' = ''true'')"
      define v where "v = testMessage i tag (get_or [] ?vs ''contestant_id'')
         (DetectProtocol (objectBytes (ba_env A)) (be_unzip (ba_env A)) (get_or [] ?vs ''s3_path''))"
      let ?d2 = "updateSubmission (ba_now A) i (setStatus ''built'') ?d1"
      obtain j q' where q': "XAdd R t v (redis w) = (True, q')" "j \<notin> msg_ID ` set (fresh (redis w) t)"
        "idle (snd (AckAndDel R CompilationQueue CompilationGroup (msg_ID m) q'))"
        "fresh (snd (AckAndDel R CompilationQueue CompilationGroup (msg_ID m) q')) = (fresh (redis w))(t := fresh (redis w) t @ [\<lparr>msg_ID = j, msg_Values = v\<rparr>])"
        using settle_add [OF assms(1), of t v] by auto
      have "touched i (\<lambda>_. True) (db w) ?d2" by (intro touched_trans [OF t1] touched_update) (simp add: setStatus_def)
      moreover have "msgWeight v + stageWeight t < msgWeight ?vs + stageWeight CompilationQueue"
        using msgWeight_fresh [of v] by (simp add: v_def testMessage_def t_def stageWeight_def msgWeight_def [of ?vs])
      moreover have "drives t \<lparr>msg_ID = k, msg_Values = v\<rparr> i" for k by (simp add: drives_def v_def testMessage_def t_def)
      ultimately have "judged (Requeued t v) CompilationQueue m (db w) ?d2" using dr by (auto simp: judged_def t_def)
      moreover have "w' = \<lparr>redis = snd (AckAndDel R CompilationQueue CompilationGroup (msg_ID m) q'), db = ?d2\<rparr>"
        using w' q'(1) assms(3) by (simp add: queueTest_def t_def v_def Let_def)
      ultimately show ?thesis using q'(2-4) by (intro exI [of _ "Requeued t v"]) (auto simp: applied_def)
    qed
  qed
qed

lemma test_outcome:
  assumes "busy (queueOf sys) m (redis w)" "processPretestMessage R A sys m w = Some w'" "\<And>c. ta_ok A c"
  shows "\<exists>e. idle (redis w') \<and> applied e (queueOf sys) (fresh (redis w)) (fresh (redis w')) \<and> judged e (queueOf sys) m (db w) (db w')"
proof (cases "\<exists>i. drives (queueOf sys) m i")
  case False
  then have "w' = w\<lparr>redis := snd (AckAndDel R (queueOf sys) (groupOf (queueOf sys)) (msg_ID m) (redis w))\<rparr>"
    using assms(2) by (auto simp: processPretestMessage_def drives_def Let_def split: option.splits if_splits)
  then show ?thesis using settle [OF assms(1)] False by (intro exI [of _ Settled]) (simp add: applied_def judged_def)
next
  case True
  then obtain i where dr: "drives (queueOf sys) m i" by blast
  let ?vs = "msg_Values m" let ?s = "queueOf sys" let ?now = "ta_now A"
  let ?d1 = "updateSubmission ?now i (setStatus ''running'') (db w)"
  obtain tag where i: "map_of ?vs ''submission_id'' = Some i" "map_of ?vs ''image_tag'' = Some tag"
    using dr by (auto simp: drives_def)
  have t1: "touched i (\<lambda>_. True) (db w) ?d1" by (rule touched_update) (simp add: setStatus_def)
  have len: "\<not> length i < 8" using assms(2) i by (auto simp: processPretestMessage_def Let_def split: if_splits)
  define k where "k = envPositive (ta_getenv A) ''K_RUNS'' 1"
  define outs where "outs = map (runOnce (ta_Log A) (ta_env A) ?d1 (testSize (ta_getenv A) sys) i tag (get_or [] ?vs ''protocol'') sys) [0..<nat k]"
  have okT: "ta_ok A c = True" for c using assms(3) by simp
  note body = processPretestMessage_def Let_def i option.case prod.case if_not_P [OF len] okT if_True k_def [symmetric] outs_def [symmetric]
  show ?thesis
  proof (cases "firstError (ta_finish A) outs")
    case None
    obtain v score agg dg where j: "judgeRuns (ta_Log A) (ta_Sqrt A) ?d1 (goodRuns outs) k = (v, score, agg, dg)"
      by (metis prod_cases4)
    have w': "w' = \<lparr>redis = snd (AckAndDel R ?s (groupOf ?s) (msg_ID m) (redis w)), db = updateSubmission ?now i (completeRow v score agg dg) ?d1\<rparr>"
      using assms(2) unfolding body by (simp add: None j)
    have "touched i terminal (db w) (updateSubmission ?now i (completeRow v score agg dg) ?d1)"
      by (intro touched_trans [OF t1] touched_update) (simp add: completeRow_def terminal_def)
    then show ?thesis using settle [OF assms(1)] judged_settled [OF dr] by (intro exI [of _ Settled]) (simp add: w' applied_def)
  next
    case (Some err)
    obtain a q1 where r: "ShouldRetry R ?s (groupOf ?s) (msg_ID m) ?vs err (redis w) = (a, q1)"
      by (cases "ShouldRetry R ?s (groupOf ?s) (msg_ID m) ?vs err (redis w)")
    note re = retry_effect [OF assms(1) r]
    show ?thesis
    proof (cases a)
      case True
      then have "w' = \<lparr>redis = q1, db = ?d1\<rparr>" using assms(2) unfolding body by (simp add: Some r)
      then show ?thesis using re True judged_retried [OF dr t1] by (intro exI [of _ "Requeued ?s (retried ?vs)"]) simp
    next
      case False
      let ?d2 = "failPretest (ta_ok A) ?now i ''Runtime Failure'' (''Parallel K-run failed: '' @ err) (concat (map rr_logs (goodRuns outs))) ?d1"
      have w': "w' = \<lparr>redis = snd (AckAndDel R ?s (groupOf ?s) (msg_ID m) q1), db = ?d2\<rparr>"
        using assms(2) False unfolding body by (simp add: Some r)
      have "touched i terminal (db w) ?d2" unfolding failPretest_def okT if_True
        by (intro touched_trans [OF t1] touched_update) (simp add: setFailed_def terminal_def)
      then have "judged Settled ?s m (db w) ?d2" by (rule judged_settled [OF dr])
      moreover have "idle (redis w') \<and> fresh (redis w') ?s = filter (\<lambda>x. msg_ID x \<noteq> msg_ID m) (fresh q1 ?s) \<and> (\<forall>t. t \<noteq> ?s \<longrightarrow> fresh (redis w') t = fresh q1 t)"
        using re ack_del_effect [of ?s "msg_ID m" q1] by (cases "AckAndDel R ?s (groupOf ?s) (msg_ID m) q1") (auto simp: w' idle_def)
      moreover have "filter (\<lambda>x. msg_ID x \<noteq> msg_ID m) (fresh (redis w) ?s) = fresh (redis w) ?s"
        using filter_unique_last [of "[]" m "fresh (redis w) ?s"] assms(1) by (simp add: busy_def)
      moreover have "fresh q1 t = fresh (redis w) t" if "t \<in> set queues" for t using re False that by (auto simp: applied_def)
      ultimately have "applied Settled ?s (fresh (redis w)) (fresh (redis w')) \<and> idle (redis w') \<and> judged Settled ?s m (db w) ?d2"
        unfolding applied_def effect.case by (metis queueOf_in(1))
      then show ?thesis by (intro exI [of _ Settled]) (simp add: w')
    qed
  qed
qed

lemma busy_read:
  assumes "pipe_ok fresh pel w" "s \<in> set queues" "XReadGroup R s (groupOf s) c (redis w) = (Some m, q)"
  shows "busy s m q" "fresh (redis w) s = m # fresh q s" "\<forall>t. t \<noteq> s \<longrightarrow> fresh q t = fresh (redis w) t"
  using assms read_effect [OF assms(3)] by (auto simp: pipe_ok_def busy_def unique_ids_def)

text \<open>What a delivery keeps and uses up, from its effect on the queues and the rows.\<close>

lemma delivery_keeps:
  assumes ok: "pipe_ok fresh pel w" and s: "s \<in> set queues" and read: "fresh (redis w) s = m # fresh q s" "\<forall>t. t \<noteq> s \<longrightarrow> fresh q t = fresh (redis w) t"
    and e: "idle (redis w')" "applied e s (fresh q) (fresh (redis w'))" "judged e s m (db w) (db w')"
  shows "pipe_ok fresh pel w' \<and> pipeWeight (fresh (redis w')) < pipeWeight (fresh (redis w))"
proof
  have u: "unique_ids [] (fresh q t) \<and> list_all named (fresh q t)" if "t \<in> set queues" for t
    using ok that read by (cases "t = s") (auto simp: pipe_ok_def unique_ids_def)
  have nm: "named m" using ok s read(1) by (auto simp: pipe_ok_def)
  have "\<forall>r \<in> set (submissions (db w')). \<not> terminal (sub_status r) \<longrightarrow> covered (fresh (redis w')) (sub_id r)"
    using covered_after [OF e(2,3) read] ok by (auto simp: pipe_ok_def covered_def)
  then show "pipe_ok fresh pel w'"
    using u e(1) applied_unique [OF e(2)] applied_named [OF e(2) _ _ nm e(3)] by (auto simp: pipe_ok_def covered_def idle_def)
  show "pipeWeight (fresh (redis w')) < pipeWeight (fresh (redis w))"
    using weight_read [of s "fresh (redis w)" m "fresh q", OF s read] weight_applied [OF e(2)] e(3)
    by (cases e) (auto simp: judged_def msgWeight_def)
qed

end

section \<open>Deliveries\<close>

datatype worker = Builder buildArgs | Tester bool testArgs

fun queueOfWorker :: "worker \<Rightarrow> string" where
  "queueOfWorker (Builder A) = CompilationQueue"
| "queueOfWorker (Tester sys A) = queueOf sys"

fun workerHandler :: "'q redis_ops \<Rightarrow> worker \<Rightarrow> XMessage \<Rightarrow> 'q World \<Rightarrow> 'q World option" where
  "workerHandler R (Builder A) = processMessage R A"
| "workerHandler R (Tester sys A) = processPretestMessage R A sys"

fun databaseOK :: "worker \<Rightarrow> bool" where
  "databaseOK (Builder A) = (\<forall>c \<in> {Update_Building, Update_Built, Update_BuildFailed}. ba_ok A c)"
| "databaseOK (Tester sys A) = (\<forall>c \<in> {Update_Running, Update_Result, Update_Failed}. ta_ok A c)"

definition poll :: "'q redis_ops \<Rightarrow> string \<Rightarrow> worker \<Rightarrow> 'q World \<Rightarrow> 'q World option" where
  \<comment> \<open>one round of a queue loop\<close>
  "poll R c x w = startWorkerLoop R (workerHandler R) (queueOfWorker x) (groupOf (queueOfWorker x)) c [(x, False)] w"

inductive pipe_step :: "'q redis_ops \<Rightarrow> ('q \<Rightarrow> string \<Rightarrow> XMessage list) \<Rightarrow> 'q World \<Rightarrow> 'q World \<Rightarrow> bool" for R fresh where
  "fresh (redis w) (queueOfWorker x) \<noteq> [] \<Longrightarrow> databaseOK x \<Longrightarrow> poll R c x w = Some w' \<Longrightarrow> pipe_step R fresh w w'"

inductive_cases pipe_stepE: "pipe_step R fresh w w'"

lemma queueOfWorker_in [simp]: "queueOfWorker x \<in> set queues"
  by (cases x) (auto simp: queues_def queueOf_def)

context redis_answers
begin

lemma poll_read:
  assumes "fresh (redis w) (queueOfWorker x) \<noteq> []"
  obtains m q where "XReadGroup R (queueOfWorker x) (groupOf (queueOfWorker x)) c (redis w) = (Some m, q)"
    "poll R c x w = workerHandler R x m (w\<lparr>redis := q\<rparr>)"
proof -
  obtain m q where r: "XReadGroup R (queueOfWorker x) (groupOf (queueOfWorker x)) c (redis w) = (Some m, q)"
    using read_up [OF assms, of c] by (cases "XReadGroup R (queueOfWorker x) (groupOf (queueOfWorker x)) c (redis w)") auto
  show ?thesis by (rule that [OF r]) (simp add: poll_def r split: option.splits)
qed

lemma step_keeps:
  assumes "pipe_ok fresh pel w" "pipe_step R fresh w w'"
  shows "pipe_ok fresh pel w' \<and> pipeWeight (fresh (redis w')) < pipeWeight (fresh (redis w))"
  using assms(2)
proof (cases rule: pipe_step.cases)
  case (1 x c)
  obtain m q where r: "XReadGroup R (queueOfWorker x) (groupOf (queueOfWorker x)) c (redis w) = (Some m, q)"
      and h: "workerHandler R x m (w\<lparr>redis := q\<rparr>) = Some w'"
    using poll_read [OF 1(1), of c] 1(3) by metis
  note b = busy_read [OF assms(1) queueOfWorker_in r]
  have "\<exists>e. idle (redis w') \<and> applied e (queueOfWorker x) (fresh q) (fresh (redis w')) \<and> judged e (queueOfWorker x) m (db w) (db w')"
  proof (cases x)
    case (Builder A)
    have "ba_ok A y" for y using 1(2) Builder by (cases y) auto
    then show ?thesis using build_outcome [of m "w\<lparr>redis := q\<rparr>" A w'] b h Builder by simp
  next
    case (Tester sys A)
    have "ta_ok A y" for y using 1(2) Tester by (cases y) auto
    then show ?thesis using test_outcome [of sys m "w\<lparr>redis := q\<rparr>" A w'] b h Tester by simp
  qed
  then show ?thesis using delivery_keeps [OF assms(1) queueOfWorker_in b(2,3)] by blast
qed

lemma steps_keep:
  assumes "pipe_ok fresh pel w" "(pipe_step R fresh ^^ n) w w'"
  shows "pipe_ok fresh pel w' \<and> n + pipeWeight (fresh (redis w')) \<le> pipeWeight (fresh (redis w))"
  using assms(2)
proof (induction n arbitrary: w')
  case (Suc n)
  then obtain w1 where "(pipe_step R fresh ^^ n) w w1" "pipe_step R fresh w1 w'" by auto
  then show ?case using Suc.IH step_keeps by fastforce
qed (use assms(1) in simp)

lemma quiet_terminal:
  "pipe_ok fresh pel w \<Longrightarrow> \<forall>s \<in> set queues. fresh (redis w) s = [] \<Longrightarrow> r \<in> set (submissions (db w)) \<Longrightarrow> terminal (sub_status r)"
  by (force simp: pipe_ok_def)

lemma covered_add: "fresh q' = (fresh q)(s := fresh q s @ [x]) \<Longrightarrow> covered (fresh q) i \<Longrightarrow> covered (fresh q') i"
  unfolding covered_def by (metis UnCI fun_upd_apply set_append)

text \<open>A message that is added for a submission lets the submission leave its final status.\<close>

lemma pipe_ok_add:
  assumes ok: "pipe_ok fresh pel w" and s: "s \<in> set queues" and add: "XAdd R s vs (redis w) = (True, q')"
    and dr: "\<And>j. drives s \<lparr>msg_ID = j, msg_Values = vs\<rparr> i" "8 \<le> length i"
    and rows: "\<And>r. r \<in> set (submissions d) \<Longrightarrow> sub_id r = i \<or> r \<in> set (submissions (db w))"
  shows "pipe_ok fresh pel \<lparr>redis = q', db = d\<rparr>"
proof -
  obtain j where j: "j \<notin> msg_ID ` set (pel (redis w) s @ fresh (redis w) s)"
      and f: "fresh q' = (fresh (redis w))(s := fresh (redis w) s @ [\<lparr>msg_ID = j, msg_Values = vs\<rparr>])" and p: "pel q' = pel (redis w)"
    using add_effect [OF add] by blast
  have "named \<lparr>msg_ID = j, msg_Values = vs\<rparr>" using dr(1) [of j] dr(2) by (auto simp: drives_def named_def)
  then have q: "pel q' t = [] \<and> unique_ids [] (fresh q' t) \<and> list_all named (fresh q' t)" if "t \<in> set queues" for t
    using ok that j f p by (auto simp: pipe_ok_def unique_ids_snoc)
  have "covered (fresh q') i" using s dr(1) by (auto simp: covered_def f)
  moreover have "covered (fresh q') (sub_id r)" if "r \<in> set (submissions (db w))" "\<not> terminal (sub_status r)" for r
    using covered_add [OF f] ok that by (auto simp: pipe_ok_def covered_def)
  ultimately have "covered (fresh q') (sub_id r)" if "r \<in> set (submissions d)" "\<not> terminal (sub_status r)" for r
    using rows [OF that(1)] that(2) by blast
  then show ?thesis using q by (simp add: pipe_ok_def covered_def)
qed

lemma pipe_ok_redis:
  "pipe_ok fresh pel w \<Longrightarrow> fresh q = fresh (redis w) \<Longrightarrow> pel q = pel (redis w) \<Longrightarrow> pipe_ok fresh pel (w\<lparr>redis := q\<rparr>)"
  by (simp add: pipe_ok_def)

lemma submission_tracked:
  assumes ok: "pipe_ok fresh pel w" and i: "8 \<le> length i"
    and h: "handleSubmission R Z okf now i rq form (w, objs) = (rep, w', objs')"
  shows "pipe_ok fresh pel w'"
proof -
  obtain c u where id: "submitIdentity rq form = (c, u)" by (cases "submitIdentity rq form")
  obtain r q1 where cr: "CheckRateLimit R now (rateLimitName rq form) (redis w) = (r, q1)"
    by (cases "CheckRateLimit R now (rateLimitName rq form) (redis w)")
  have ok1: "pipe_ok fresh pel (w\<lparr>redis := q1\<rparr>)" using rate_limit_streams [OF cr] by (intro pipe_ok_redis [OF ok]) auto
  let ?row = "\<lambda>s3. (newSubmission now i c s3)\<lparr>sub_github_url := Some (sf_github_url form), sub_user_id := u,
           sub_arena_id := Some (if sf_arena_id form = [] then ''default'' else sf_arena_id form)\<rparr>"
  let ?d2 = "\<lambda>src d1. case (if okf Insert_Source then insertSource i src d1 else None) of None \<Rightarrow> d1 | Some d2 \<Rightarrow> d2"
  note d = handleSubmission_def id cr
  consider (early) "w' = w\<lparr>redis := q1\<rparr>"
    | (queued) s3 src o1 d1 where "storeUpload Z okf i form objs = Inr (s3, src, o1)" "insertSubmission (?row s3) (db w) = Some d1"
        "w' = snd (enqueueBuild R okf now i (compileMessage i c (sf_github_url form) s3) q1 (?d2 src d1))"
  proof (cases "\<exists>n. r = Some (True, n)")
    case False
    then show ?thesis using h early by (auto simp: d split: option.splits bool.splits)
  next
    case True
    then obtain n where n: "r = Some (True, n)" by blast
    show ?thesis
    proof (cases "storeUpload Z okf i form objs")
      case (Inl x)
      then show ?thesis using h early by (cases x) (auto simp: d n)
    next
      case (Inr x)
      obtain s3 src o1 where x: "x = (s3, src, o1)" by (cases x)
      show ?thesis
        using h early queued [of s3 src o1] by (auto simp: d n Inr x Let_def split: option.splits prod.splits if_splits)
    qed
  qed
  then show ?thesis
  proof cases
    case early
    then show ?thesis using ok1 by simp
  next
    case (queued s3 src o1 d1)
    have s3: "sf_github_url form = [] \<longrightarrow> s3 \<noteq> []"
      using queued(1) by (auto simp: storeUpload_def s3PathOf_def split: if_splits option.splits sum.splits)
    obtain q2 where a: "XAdd R CompilationQueue (compileMessage i c (sf_github_url form) s3) q1 = (True, q2)" by (rule add_cases)
    have w': "w' = \<lparr>redis = q2, db = ?d2 src d1\<rparr>" using queued(3) a by (simp add: enqueueBuild_def)
    have sub: "submissions (?d2 src d1) = submissions (db w) @ [?row s3]"
      using queued(2) by (auto simp: insertSubmission_def insertSource_def split: option.splits if_splits)
    have "sub_id (?row s3) = i" by (simp add: newSubmission_def)
    then have rows: "sub_id x = i \<or> x \<in> set (submissions (db (w\<lparr>redis := q1\<rparr>)))" if "x \<in> set (submissions (?d2 src d1))" for x
      using that unfolding sub by auto
    have "drives CompilationQueue \<lparr>msg_ID = j, msg_Values = compileMessage i c (sf_github_url form) s3\<rparr> i" for j
      using s3 by (auto simp: drives_def compileMessage_def get_or_def)
    then show ?thesis unfolding w' using a
      by (intro pipe_ok_add [OF ok1 _ _ _ i rows, of CompilationQueue "compileMessage i c (sf_github_url form) s3" q2]) (simp_all add: queues_def)
  qed
qed

lemma systest_tracked:
  assumes "pipe_ok fresh pel w" "8 \<le> length (sub_id r)"
  shows "pipe_ok fresh pel (queueSystest R resetOK now r w)"
proof (cases "resetOK (sub_id r)")
  case True
  obtain q2 where a: "XAdd R SystestQueue (systestMessage r) (redis w) = (True, q2)" by (rule add_cases)
  have "drives SystestQueue \<lparr>msg_ID = j, msg_Values = systestMessage r\<rparr> (sub_id r)" for j by (simp add: drives_def systestMessage_def)
  moreover have "sub_id x = sub_id r \<or> x \<in> set (submissions (db w))"
    if "x \<in> set (submissions (updateSubmission now (sub_id r) resetRow (db w)))" for x
    using that by (auto simp: updateSubmission_def resetRow_def)
  ultimately have "pipe_ok fresh pel \<lparr>redis = q2, db = updateSubmission now (sub_id r) resetRow (db w)\<rparr>"
    by (intro pipe_ok_add [OF assms(1) _ a _ assms(2)]) (simp_all add: queues_def)
  then show ?thesis using True a by (simp add: queueSystest_def)
qed (use assms in \<open>simp add: queueSystest_def\<close>)

lemma systests_tracked:
  "pipe_ok fresh pel w \<Longrightarrow> \<forall>r \<in> set rs. 8 \<le> length (sub_id r) \<Longrightarrow> pipe_ok fresh pel (fold (queueSystest R resetOK now) rs w)"
  by (induction rs arbitrary: w) (auto intro: systest_tracked)

end

section \<open>Progress\<close>

fun buildEnds :: "worker \<Rightarrow> bool" where
  \<comment> \<open>the build of the delivery returns\<close>
  "buildEnds (Builder A) = (\<forall>s3 g i. BuildImage (ba_bucket A) (ba_env A) s3 g i \<noteq> None)"
| "buildEnds (Tester sys A) = True"

lemma handler_returns:
  assumes "named m" "buildEnds x"
  shows "\<exists>w'. workerHandler R x m w = Some w'"
proof (cases x)
  case (Builder A)
  then have "BuildImage (ba_bucket A) (ba_env A) s3 g i \<noteq> None" for s3 g i using assms(2) by simp
  then show ?thesis using assms(1) Builder
    by (auto simp: processMessage_def named_def Let_def simp del: not_None_eq split: option.splits sum.splits prod.splits bool.splits)
next
  case (Tester sys A)
  then show ?thesis using assms(1)
    by (auto simp: processPretestMessage_def named_def Let_def split: option.splits prod.splits bool.splits)
qed

context redis_answers
begin

lemma poll_returns:
  assumes "pipe_ok fresh pel w" "fresh (redis w) (queueOfWorker x) \<noteq> []" "databaseOK x" "buildEnds x"
  shows "\<exists>w'. poll R c x w = Some w' \<and> pipe_step R fresh w w'"
proof -
  obtain m q where r: "XReadGroup R (queueOfWorker x) (groupOf (queueOfWorker x)) c (redis w) = (Some m, q)"
      and p: "poll R c x w = workerHandler R x m (w\<lparr>redis := q\<rparr>)"
    using poll_read [OF assms(2)] .
  have "m \<in> set (fresh (redis w) (queueOfWorker x))" using busy_read(2) [OF assms(1) queueOfWorker_in r] by simp
  then have "named m" using assms(1) queueOfWorker_in [of x] unfolding pipe_ok_def by (meson list.pred_set)
  then obtain w' where "poll R c x w = Some w'" using handler_returns [OF _ assms(4)] p by metis
  then show ?thesis using assms(2,3) pipe_step.intros by blast
qed

end

section \<open>Properties\<close>

text \<open>C11: Every submission gets a final status. From a state in which each open submission has its message, deliveries to any workers in any
  order, with any results of builds and test runs, end after a number of steps that the retry counters bound (at most
  eight for a new submission); a delivery is possible while a queue holds a message; and when the queues are
  empty every submission is completed or failed.\<close>

theorem every_submission_is_judged:
  assumes "redis_answers R fresh pel" "pipe_ok fresh pel w" "(pipe_step R fresh ^^ n) w w'"
  shows "n \<le> pipeWeight (fresh (redis w)) \<and>
    (\<forall>x c. fresh (redis w') (queueOfWorker x) \<noteq> [] \<and> databaseOK x \<and> buildEnds x \<longrightarrow>
       (\<exists>w''. poll R c x w' = Some w'' \<and> pipe_step R fresh w' w'')) \<and>
    ((\<forall>s \<in> set queues. fresh (redis w') s = []) \<longrightarrow> (\<forall>r \<in> set (submissions (db w')). terminal (sub_status r)))"
proof -
  note k = redis_answers.steps_keep [OF assms]
  show ?thesis
  proof (intro conjI allI impI ballI)
    show "n \<le> pipeWeight (fresh (redis w))" using k by simp
    show "\<exists>w''. poll R c x w' = Some w'' \<and> pipe_step R fresh w' w''"
      if "fresh (redis w') (queueOfWorker x) \<noteq> [] \<and> databaseOK x \<and> buildEnds x" for x c
      using redis_answers.poll_returns [OF assms(1)] k that by blast
    show "terminal (sub_status r)" if "\<forall>s \<in> set queues. fresh (redis w') s = []" "r \<in> set (submissions (db w'))" for r
      using redis_answers.quiet_terminal [OF assms(1)] k that by blast
  qed
qed

lemma systestSelection_rows: "r \<in> set (systestSelection a d) \<Longrightarrow> r \<in> set (submissions d)"
proof -
  let ?rs = "filter (\<lambda>r. sub_status r = ''completed'') (arenaRows a d)"
  assume "r \<in> set (systestSelection a d)"
  then obtain y where y: "y \<in> set ?rs" "r = hd (sort_key systestKey (filter (\<lambda>r. identity r = identity y) ?rs))"
    by (auto simp: systestSelection_def Let_def)
  then have "sort_key systestKey (filter (\<lambda>r. identity r = identity y) ?rs) \<noteq> []"
    by (metis (mono_tags, lifting) filter_empty_conv length_0_conv length_sort)
  then show ?thesis using y(2) hd_in_set by (fastforce simp: arenaRows_def)
qed

text \<open>C30: New work is tracked: a submission to the gateway and the start of the system tests of an arena leave no submission open without
  a message that drives it.\<close>

theorem new_work_is_tracked:
  assumes "redis_answers R fresh pel" "pipe_ok fresh pel w"
  shows "(8 \<le> length i \<longrightarrow> pipe_ok fresh pel (fst (snd (handleSubmission R Z ok now i rq form (w, objs))))) \<and>
         ((\<forall>r \<in> set (submissions (db w)). 8 \<le> length (sub_id r)) \<longrightarrow>
            pipe_ok fresh pel (triggerSystemTestsForArena R ok resetOK now arenaID w))"
proof (intro conjI impI)
  assume i: "8 \<le> length i"
  obtain rep w' o' where h: "handleSubmission R Z ok now i rq form (w, objs) = (rep, w', o')" by (metis prod_cases3)
  show "pipe_ok fresh pel (fst (snd (handleSubmission R Z ok now i rq form (w, objs))))"
    using redis_answers.submission_tracked [OF assms i h] by (simp add: h)
next
  assume "\<forall>r \<in> set (submissions (db w)). 8 \<le> length (sub_id r)"
  then have "\<forall>r \<in> set (systestSelection arenaID (db w)). 8 \<le> length (sub_id r)" using systestSelection_rows by blast
  then show "pipe_ok fresh pel (triggerSystemTestsForArena R ok resetOK now arenaID w)"
    using redis_answers.systests_tracked [OF assms] assms(2) by (simp add: triggerSystemTestsForArena_def)
qed

lemma pipe_ok0: "pipe_ok srv_fresh srv_pel gateway0"
  by (simp add: pipe_ok_def gateway0_def server0_def arena0_def unique_ids_def)

definition world1 :: "server World" where
  "world1 = fst (snd (handleSubmission redis0 zip_ops0 (\<lambda>c. True) 0 ''b1234567'' rq0 (form0 ''u1'') (gateway0, [])))"

theorem new_work_is_tracked_witness: "pipe_ok srv_fresh srv_pel world1"
  using new_work_is_tracked [OF srv.redis_answers_axioms pipe_ok0, of "''b1234567''" zip_ops0 "\<lambda>c. True" 0 rq0 "form0 ''u1''" "[]"]
  by (simp add: world1_def)

lemma world1_ok: "pipe_ok srv_fresh srv_pel world1"
proof -
  obtain rep w' o' where h: "handleSubmission redis0 zip_ops0 (\<lambda>c. True) 0 ''b1234567'' rq0 (form0 ''u1'') (gateway0, []) = (rep, w', o')"
    by (metis prod_cases3)
  show ?thesis using srv.submission_tracked [OF pipe_ok0 _ h] by (simp add: world1_def h)
qed

definition build0 :: BuildEnv where
  \<comment> \<open>a worker that does not get its directory\<close>
  "build0 = \<lparr>be_getenv = (\<lambda>k. []), be_cwd = Inl ''no directory'', be_mkBuildDir = None, be_clone = None, be_getObject = (\<lambda>p. Inl []), be_unzip = (\<lambda>b. None),
     be_fs = \<lparr>fs_MkdirAll = (\<lambda>p. True), fs_OpenFile = (\<lambda>p. True)\<rparr>, be_dockerBuild = (\<lambda>t ops. CmdOK), be_dockerTag = None, be_dockerPush = None,
     be_cluster = None, be_createJob = (\<lambda>u t. None), be_ticks = [], be_jobLogs = []\<rparr>"

definition builder0 :: worker where
  "builder0 = Builder \<lparr>ba_bucket = [], ba_env = build0, ba_ok = (\<lambda>c. True), ba_now = 1\<rparr>"

lemma world1_queue: "srv_fresh (redis world1) CompilationQueue = [\<lparr>msg_ID = ''0'', msg_Values = compileMessage ''b1234567'' ''u1'' ''https://x'' []\<rparr>]"
    "srv_fresh (redis world1) PretestQueue = []" "srv_fresh (redis world1) SystestQueue = []"
  by (simp_all add: world1_def handleSubmission_def submitIdentity_def rateLimitName_def rq0_def form0_def CheckRateLimit_def redis0_def gateway0_def
      server0_def storeUpload_def insertSubmission_def references_ok_def newSubmission_def arena0_def insertSource_def enqueueBuild_def freshID_def Let_def
      split: option.splits)

theorem every_submission_is_judged_witness:
  "pipeWeight (srv_fresh (redis world1)) = 8 \<and>
   (\<exists>w2. poll redis0 ''w'' builder0 world1 = Some w2 \<and> 1 \<le> pipeWeight (srv_fresh (redis world1)))"
proof
  show p: "pipeWeight (srv_fresh (redis world1)) = 8"
    by (simp add: pipeWeight_def queues_def world1_queue stageWeight_def msgWeight_fresh compileMessage_def)
  have b: "databaseOK builder0" "buildEnds builder0" "queueOfWorker builder0 = CompilationQueue"
    by (simp_all add: builder0_def build0_def BuildImage_def inCluster_def)
  have "\<exists>w2. poll redis0 ''w'' builder0 world1 = Some w2 \<and> pipe_step redis0 srv_fresh world1 w2"
    using every_submission_is_judged [OF srv.redis_answers_axioms world1_ok, of 0 world1] b by (simp add: world1_queue)
  then obtain w2 where w2: "poll redis0 ''w'' builder0 world1 = Some w2" "(pipe_step redis0 srv_fresh ^^ 1) world1 w2" by auto
  show "\<exists>w2. poll redis0 ''w'' builder0 world1 = Some w2 \<and> 1 \<le> pipeWeight (srv_fresh (redis world1))"
    using every_submission_is_judged [OF srv.redis_answers_axioms world1_ok w2(2)] w2(1) by blast
qed

section \<open>Messages of a worker that died\<close>

datatype 'a maintenance = \<comment> \<open>what happens to a queue without new messages\<close>
    Recover string int \<comment> \<open>a tick of the recovery, for a consumer and an age\<close>
  | Poll string 'a bool

fun maintain :: "'q redis_ops \<Rightarrow> ('a \<Rightarrow> XMessage \<Rightarrow> 'q World \<Rightarrow> 'q World option) \<Rightarrow> string \<Rightarrow> 'a maintenance list \<Rightarrow> 'q World \<Rightarrow> 'q World option" where
  "maintain R handler s [] w = Some w"
| "maintain R handler s (Recover c age # as) w = maintain R handler s as (w\<lparr>redis := pelRecoveryTick R s (groupOf s) c age (redis w)\<rparr>)"
| "maintain R handler s (Poll c a cancelled # as) w =
     (case startWorkerLoop R handler s (groupOf s) c [(a, cancelled)] w of None \<Rightarrow> None | Some w1 \<Rightarrow> maintain R handler s as w1)"

context redis_streams
begin

lemma poll_nothing:
  assumes "fresh (redis w) s = []" "XReadGroup R s (groupOf s) c (redis w) = (r, q)"
  shows "r = None \<and> fresh q = fresh (redis w) \<and> pel q = pel (redis w)"
proof (cases r)
  case None
  then show ?thesis using assms read_none by blast
next
  case (Some m)
  then show ?thesis using assms read_effect [of s c "redis w" m q] by simp
qed

lemma maintain_nothing:
  "fresh (redis w) s = [] \<Longrightarrow> \<exists>w'. maintain R handler s as w = Some w' \<and> db w' = db w \<and> fresh (redis w') = fresh (redis w) \<and> pel (redis w') = pel (redis w)"
proof (induction as arbitrary: w)
  case (Cons a as)
  show ?case
  proof (cases a)
    case (Recover c age)
    then show ?thesis
      using pel_recovery_effect [OF refl, of s c age "redis w"] Cons.prems
        Cons.IH [of "w\<lparr>redis := pelRecoveryTick R s (groupOf s) c age (redis w)\<rparr>"] by auto
  next
    case (Poll c x cancelled)
    obtain r q where r: "XReadGroup R s (groupOf s) c (redis w) = (r, q)" by (cases "XReadGroup R s (groupOf s) c (redis w)")
    note n = poll_nothing [OF Cons.prems r]
    have "startWorkerLoop R handler s (groupOf s) c [(x, cancelled)] w = Some (w\<lparr>redis := q\<rparr>)" using n by (simp add: r Let_def)
    then show ?thesis using Poll n Cons.prems Cons.IH [of "w\<lparr>redis := q\<rparr>"] by auto
  qed
qed simp

end



section \<open>Uploaded archives\<close>

lemma storeUpload_object:
  assumes "storeUpload Z ok i form objs = Inr (s3, src, objs')" "sf_github_url form = []"
  shows "s3 = s3PathOf i \<and> (\<exists>es out. z_targz Z es = Some out \<and> map_of objs' (s3PathOf i) = Some out)"
proof -
  obtain name bytes tar where "normalizeZipToTarGz (z_unzip Z) (z_header Z) (z_targz Z) bytes = Inr tar"
      "s3 = s3PathOf i" "objs' = AList.update (s3PathOf i) tar objs"
    using assms by (auto simp: storeUpload_def split: option.splits if_splits sum.splits)
  moreover from this have "\<exists>es. z_targz Z es = Some tar" by (auto simp: normalizeZipToTarGz_def Let_def split: option.splits if_splits)
  ultimately show ?thesis by (auto simp: map_of_update)
qed

text \<open>C39: The compiler does not understand the archives of the gateway. The gateway stores an upload as a compressed tar archive and the
  compiler opens it as a zip file. So the protocol that the Dockerfile of an upload names is never found and every
  upload is tested as \<^verbatim>\<open>TCP_PROTOBUF\<close>, and outside a cluster every upload fails to build.\<close>

theorem uploads_are_not_zip_files:
  assumes "storeUpload Z ok i form objs = Inr (s3, src, objs')" "sf_github_url form = []"
    and store: "\<And>p c. map_of objs' p = Some c \<Longrightarrow> be_getObject B p = Inr c"
    and not_zip: "\<And>es out. z_targz Z es = Some out \<Longrightarrow> be_unzip B out = None"
    and worker: "\<not> inCluster (be_getenv B)" "be_cwd B = Inr cwd" "be_mkBuildDir B = None"
  shows "DetectProtocol (objectBytes B) (be_unzip B) s3 = ''TCP_PROTOBUF'' \<and>
         BuildImage bucket B s3 [] i = Some (Inr (False, [], ''Failed to extract submission ZIP''))"
proof -
  obtain es out where o: "s3 = s3PathOf i" "z_targz Z es = Some out" "map_of objs' s3 = Some out"
    using storeUpload_object [OF assms(1,2)] by auto
  have g: "be_getObject B s3 = Inr out" "be_unzip B out = None" using store [OF o(3)] not_zip [OF o(2)] by auto
  have ne: "s3 \<noteq> []" by (simp add: o(1) s3PathOf_def)
  have "DetectProtocol (objectBytes B) (be_unzip B) s3 = ''TCP_PROTOBUF''"
    using DetectProtocol_not_zip [of "be_unzip B" out "objectBytes B" s3] g by (simp add: objectBytes_def)
  moreover have "BuildImage bucket B s3 [] i = Some (Inr (False, [], ''Failed to extract submission ZIP''))"
    using worker by (simp add: BuildImage_def fetchSource_not_zip [OF g ne])
  ultimately show ?thesis by simp
qed

theorem uploads_are_not_zip_files_witness:
  "\<exists>objs'. storeUpload zip_ops0 (\<lambda>c. True) ''b1'' \<lparr>sf_contestant_id = [], sf_arena_id = [], sf_github_url = [], sf_file = Some (''a.zip'', Inr ''zip'')\<rparr> [] =
       Inr (s3PathOf ''b1'', ''[ZIP Submission]'', objs') \<and>
     BuildImage [] (build0\<lparr>be_cwd := Inr ''/app'', be_getObject := (\<lambda>p. Inr (the (map_of objs' p)))\<rparr>) (s3PathOf ''b1'') [] ''b1'' =
       Some (Inr (False, [], ''Failed to extract submission ZIP''))"
proof -
  let ?form = "\<lparr>sf_contestant_id = [], sf_arena_id = [], sf_github_url = [], sf_file = Some (''a.zip'', Inr ''zip'')\<rparr>"
  obtain objs' where s: "storeUpload zip_ops0 (\<lambda>c. True) ''b1'' ?form [] = Inr (s3PathOf ''b1'', ''[ZIP Submission]'', objs')"
  proof -
    have "pathExt ''a.zip'' = ''.zip''" by code_simp
    moreover have "\<exists>tar. normalizeZipToTarGz (z_unzip zip_ops0) (z_header zip_ops0) (z_targz zip_ops0) ''zip'' = Inr tar"
    proof -
      have "normalizeZipToTarGz (z_unzip zip_ops0) (z_header zip_ops0) (z_targz zip_ops0) ''zip'' = Inr ''Dockerfilesrc/main.go''" by code_simp
      then show ?thesis by blast
    qed
    ultimately show ?thesis using that by (auto simp: storeUpload_def)
  qed
  let ?B = "build0\<lparr>be_cwd := Inr ''/app'', be_getObject := (\<lambda>p. Inr (the (map_of objs' p)))\<rparr>"
  have "BuildImage [] ?B (s3PathOf ''b1'') [] ''b1'' = Some (Inr (False, [], ''Failed to extract submission ZIP''))"
    using uploads_are_not_zip_files [OF s, of ?B "''/app''" "[]"] by (simp add: build0_def inCluster_def)
  then show ?thesis using s by blast
qed

end
