(* ===== verification/Schema.thy ===== *)
theory Schema
  imports Pipeline
begin

text \<open>
  The tables stay well formed under every handler of the gateway and of the workers: keys are unique and references
  lead to rows (\<open>schema_ok\<close>). \<open>platform_step\<close> lets all of them run in any order, with any failures of the
  database and of the queues.
\<close>

section \<open>Well-formed tables\<close>

definition users_ok :: "UserRow list \<Rightarrow> bool" where
  "users_ok us \<longleftrightarrow> distinct (map usr_id us) \<and> distinct (map usr_handle us) \<and> distinct (List.map_filter usr_email us) \<and>
     distinct (List.map_filter usr_github_id us)"

definition rows_ok :: "DB \<Rightarrow> bool" where
  "rows_ok d \<longleftrightarrow> distinct (map sub_id (submissions d)) \<and> (\<forall>r \<in> set (submissions d). references_ok r d)"

definition sources_ok :: "DB \<Rightarrow> bool" where
  "sources_ok d \<longleftrightarrow> distinct (map fst (submission_sources d)) \<and>
     fst ` set (submission_sources d) \<subseteq> sub_id ` set (submissions d)"

definition registrations_ok :: "DB \<Rightarrow> bool" where
  "registrations_ok d \<longleftrightarrow> distinct (arena_registrations d) \<and>
     (\<forall>(a, u) \<in> set (arena_registrations d). a \<in> ar_id ` set (arenas d) \<and> u \<in> usr_id ` set (users d))"

definition schema_ok :: "DB \<Rightarrow> bool" where
  "schema_ok d \<longleftrightarrow> rows_ok d \<and> sources_ok d \<and> users_ok (users d) \<and> distinct (map ar_id (arenas d)) \<and> registrations_ok d"

definition keysGrow :: "DB \<Rightarrow> DB \<Rightarrow> bool" where
  "keysGrow d d' \<longleftrightarrow> usr_id ` set (users d) \<subseteq> usr_id ` set (users d') \<and> ar_id ` set (arenas d) \<subseteq> ar_id ` set (arenas d')"

lemma references_ok_grow: "references_ok r d \<Longrightarrow> keysGrow d d' \<Longrightarrow> references_ok r d'"
  by (cases "sub_user_id r"; cases "sub_arena_id r") (auto simp: references_ok_def keysGrow_def)

lemma schema_grow:
  \<comment> \<open>new users and arenas leave submissions, sources and registrations in order\<close>
  assumes "schema_ok d" "keysGrow d d'" "users_ok (users d')" "distinct (map ar_id (arenas d'))"
    and "submissions d' = submissions d" "submission_sources d' = submission_sources d" "arena_registrations d' = arena_registrations d"
  shows "schema_ok d'"
proof -
  have "rows_ok d'" using assms references_ok_grow by (auto simp: schema_ok_def rows_ok_def)
  moreover have "sources_ok d'" using assms by (simp add: schema_ok_def sources_ok_def)
  moreover have "registrations_ok d'" using assms by (fastforce simp: schema_ok_def registrations_ok_def keysGrow_def)
  ultimately show ?thesis using assms(3,4) by (simp add: schema_ok_def)
qed

section \<open>Changes of rows\<close>

definition same_keys :: "SubmissionRow \<Rightarrow> SubmissionRow \<Rightarrow> bool" where
  "same_keys r r' \<longleftrightarrow> sub_id r' = sub_id r \<and> sub_user_id r' = sub_user_id r \<and> sub_arena_id r' = sub_arena_id r"

definition rows_updated :: "DB \<Rightarrow> DB \<Rightarrow> bool" where
  \<comment> \<open>only columns of submissions that are no keys change\<close>
  "rows_updated d d' \<longleftrightarrow> (\<exists>ss. d' = d\<lparr>submissions := ss\<rparr> \<and> list_all2 same_keys (submissions d) ss)"

lemma rows_updated_refl [simp]: "rows_updated d d"
  by (auto simp: rows_updated_def same_keys_def intro!: exI [of _ "submissions d"] list_all2_refl)

lemma same_keys_trans: "same_keys a b \<Longrightarrow> same_keys b c \<Longrightarrow> same_keys a c"
  by (simp add: same_keys_def)

lemma rows_updated_trans: "rows_updated d d1 \<Longrightarrow> rows_updated d1 d2 \<Longrightarrow> rows_updated d d2"
proof -
  assume "rows_updated d d1" "rows_updated d1 d2"
  then obtain ss tt where 1: "d1 = d\<lparr>submissions := ss\<rparr>" "list_all2 same_keys (submissions d) ss"
    and 2: "d2 = d1\<lparr>submissions := tt\<rparr>" "list_all2 same_keys (submissions d1) tt" unfolding rows_updated_def by blast
  have "list_all2 same_keys ss tt" using 2 by (simp add: 1)
  then have "list_all2 same_keys (submissions d) tt" using list_all2_trans [of same_keys same_keys same_keys] same_keys_trans 1(2) by blast
  then show ?thesis unfolding rows_updated_def by (intro exI [of _ tt]) (simp add: 1 2)
qed

lemma rows_updated_update: "(\<And>r. same_keys r (f r)) \<Longrightarrow> rows_updated d (updateSubmission now i f d)"
  by (auto simp: rows_updated_def updateSubmission_def same_keys_def list_all2_conv_all_nth)

lemma keys_simps [simp]: "same_keys r (setStatus s r)" "same_keys r (setFailed v dg r)" "same_keys r (completeRow vd sc agg dg r)"
    "same_keys r (resetRow r)" "same_keys r (queueFailure r)"
  by (simp_all add: same_keys_def setStatus_def setFailed_def completeRow_def resetRow_def queueFailure_def)

lemma rows_updated_then: "rows_updated d d1 \<Longrightarrow> (\<And>r. same_keys r (f r)) \<Longrightarrow> rows_updated d (updateSubmission now i f d1)"
  using rows_updated_trans rows_updated_update by blast

lemma keys_ids: "list_all2 same_keys rs ss \<Longrightarrow> map sub_id ss = map sub_id rs"
  by (induction rule: list_all2_induct) (auto simp: same_keys_def)

lemma same_keys_references: "same_keys r r' \<Longrightarrow> references_ok r d \<Longrightarrow> references_ok r' (d\<lparr>submissions := ss\<rparr>)"
  by (cases "sub_user_id r"; cases "sub_arena_id r") (simp_all add: references_ok_def same_keys_def)

lemma schema_rows:
  assumes "rows_updated d d'" "schema_ok d"
  shows "schema_ok d'"
proof -
  from assms(1) obtain ss where d': "d' = d\<lparr>submissions := ss\<rparr>" and k: "list_all2 same_keys (submissions d) ss"
    by (auto simp: rows_updated_def)
  have ids: "map sub_id ss = map sub_id (submissions d)" using k by (rule keys_ids)
  then have img: "sub_id ` set ss = sub_id ` set (submissions d)" by (metis set_map)
  have "references_ok r d'" if "r \<in> set ss" for r
  proof -
    obtain i where "i < length ss" "r = ss ! i" using \<open>r \<in> set ss\<close> by (auto simp: in_set_conv_nth)
    then have "submissions d ! i \<in> set (submissions d)" "same_keys (submissions d ! i) r"
      using k by (simp_all add: list_all2_conv_all_nth)
    then show ?thesis using assms(2) same_keys_references by (auto simp: schema_ok_def rows_ok_def d')
  qed
  then have "rows_ok d'" using assms(2) by (simp add: schema_ok_def rows_ok_def d' ids)
  moreover have "sources_ok d'" "registrations_ok d'"
    using assms(2) by (simp_all add: schema_ok_def sources_ok_def registrations_ok_def d' img)
  ultimately show ?thesis using assms(2) by (simp add: schema_ok_def d')
qed

section \<open>Statements\<close>

lemma schema_insertSubmission:
  assumes "insertSubmission r d = Some d'" "schema_ok d"
  shows "schema_ok d'"
proof -
  have d': "d' = d\<lparr>submissions := submissions d @ [r]\<rparr>" "sub_id r \<notin> sub_id ` set (submissions d)" "references_ok r d"
    using assms(1) by (simp_all add: insertSubmission_def split: if_splits)
  have "references_ok x d \<Longrightarrow> references_ok x d'" for x using references_ok_grow [of x d d'] by (simp add: keysGrow_def d')
  then have "rows_ok d'" using assms(2) d' by (simp add: schema_ok_def rows_ok_def)
  moreover have "sources_ok d'" using assms(2) by (auto simp: schema_ok_def sources_ok_def d'(1))
  ultimately show ?thesis using assms(2) by (simp add: schema_ok_def registrations_ok_def d'(1))
qed

lemma schema_insertSource:
  assumes "insertSource i s d = Some d'" "schema_ok d"
  shows "schema_ok d'"
proof -
  have d': "d' = d\<lparr>submission_sources := submission_sources d @ [(i, s)]\<rparr>" "i \<notin> fst ` set (submission_sources d)"
      "i \<in> sub_id ` set (submissions d)"
    using assms(1) by (simp_all add: insertSource_def split: if_splits)
  have "rows_ok d'" using assms(2) references_ok_grow [of _ d d'] by (simp add: schema_ok_def rows_ok_def keysGrow_def d'(1))
  moreover have "sources_ok d'" using assms(2) d' by (simp add: schema_ok_def sources_ok_def)
  ultimately show ?thesis using assms(2) by (simp add: schema_ok_def registrations_ok_def d'(1))
qed

lemma distinct_map_filter_snoc:
  "distinct (List.map_filter f (xs @ [x])) \<longleftrightarrow> distinct (List.map_filter f xs) \<and> (f x \<noteq> None \<longrightarrow> (\<forall>y \<in> set xs. f y \<noteq> f x))"
  by (cases "f x") (force simp: List.map_filter_def)+

lemma schema_insertUser:
  assumes "insertUser r d = Some d'" "schema_ok d"
  shows "schema_ok d'"
proof (rule schema_grow [OF assms(2)])
  have d': "d' = d\<lparr>users := users d @ [r]\<rparr>"
    and new: "\<And>u. u \<in> set (users d) \<Longrightarrow> usr_id u \<noteq> usr_id r \<and> usr_handle u \<noteq> usr_handle r \<and>
      (usr_email u \<noteq> None \<longrightarrow> usr_email u \<noteq> usr_email r) \<and> (usr_github_id u \<noteq> None \<longrightarrow> usr_github_id u \<noteq> usr_github_id r)"
    using assms(1) by (auto simp: insertUser_def list_ex_iff split: if_splits)
  have "users_ok (users d)" using assms(2) by (simp add: schema_ok_def)
  then show "users_ok (users d')"
    using new by (auto simp: users_ok_def d' distinct_map_filter_snoc) metis+
  show "keysGrow d d'" "submissions d' = submissions d" "submission_sources d' = submission_sources d"
      "arena_registrations d' = arena_registrations d"
    by (auto simp: keysGrow_def d')
  show "distinct (map ar_id (arenas d'))" using assms(2) by (simp add: schema_ok_def d')
qed

lemma schema_arena:
  assumes "schema_ok d" "ar_id x \<notin> ar_id ` set (arenas d)"
  shows "schema_ok (d\<lparr>arenas := arenas d @ [x]\<rparr>)"
  by (rule schema_grow [OF assms(1)]) (use assms in \<open>auto simp: keysGrow_def schema_ok_def\<close>)

lemma schema_arena_update:
  assumes "schema_ok d" "\<And>x. ar_id (f x) = ar_id x"
  shows "schema_ok (d\<lparr>arenas := map f (arenas d)\<rparr>)"
proof (rule schema_grow [OF assms(1)])
  show "keysGrow d (d\<lparr>arenas := map f (arenas d)\<rparr>)" using assms(2) by (auto simp: keysGrow_def image_image)
  show "users_ok (users (d\<lparr>arenas := map f (arenas d)\<rparr>))" using assms(1) by (simp add: schema_ok_def)
  have "map (ar_id \<circ> f) (arenas d) = map ar_id (arenas d)" using assms(2) by (intro map_cong) simp_all
  then show "distinct (map ar_id (arenas (d\<lparr>arenas := map f (arenas d)\<rparr>)))" using assms(1) by (simp add: schema_ok_def del: map_eq_conv)
qed simp_all

lemma schema_register:
  assumes "schema_ok d" "a \<in> ar_id ` set (arenas d)" "u \<in> usr_id ` set (users d)" "(a, u) \<notin> set (arena_registrations d)"
  shows "schema_ok (d\<lparr>arena_registrations := arena_registrations d @ [(a, u)]\<rparr>)"
proof -
  let ?d = "d\<lparr>arena_registrations := arena_registrations d @ [(a, u)]\<rparr>"
  have "rows_ok ?d" using assms(1) references_ok_grow [of _ d ?d] by (simp add: schema_ok_def rows_ok_def keysGrow_def)
  moreover have "registrations_ok ?d" using assms by (simp add: schema_ok_def registrations_ok_def)
  ultimately show ?thesis using assms(1) by (simp add: schema_ok_def sources_ok_def)
qed

section \<open>Handlers\<close>

lemma build_rows: "processMessage R A m w = Some w' \<Longrightarrow> rows_updated (db w) (db w')"
  by (auto simp: processMessage_def queueTest_def failSubmission_def Let_def intro!: rows_updated_then
      split: option.splits if_splits sum.splits prod.splits bool.splits)

lemma test_rows: "processPretestMessage R A sys m w = Some w' \<Longrightarrow> rows_updated (db w) (db w')"
  by (auto simp: processPretestMessage_def failPretest_def Let_def intro!: rows_updated_then
      split: option.splits if_splits prod.splits bool.splits)

lemma systest_rows: "rows_updated (db w) (db (fold (queueSystest R resetOK now) rs w))"
proof (induction rs arbitrary: w)
  case (Cons r rs)
  have "rows_updated (db w) (db (queueSystest R resetOK now r w))"
    by (simp add: queueSystest_def rows_updated_update)
  then show ?case using Cons rows_updated_trans by (metis fold_simps(2))
qed simp

lemma trigger_rows: "rows_updated (db w) (db (triggerSystemTestsForArena R ok resetOK now a w))"
  by (simp add: triggerSystemTestsForArena_def systest_rows)

lemma enqueue_rows: "rows_updated d (db (snd (enqueueBuild R ok now i vs q d)))"
  by (auto simp: enqueueBuild_def intro!: rows_updated_then split: prod.splits bool.splits)

lemma stored_schema:
  assumes "schema_ok d" "insertSubmission r d = Some d1" "d2 = (case (if b then insertSource i s d1 else None) of None \<Rightarrow> d1 | Some d2 \<Rightarrow> d2)"
  shows "schema_ok (db (snd (enqueueBuild R ok now i vs q d2)))"
proof (rule schema_rows [OF enqueue_rows])
  have "schema_ok d1" using schema_insertSubmission assms(1,2) by blast
  then show "schema_ok d2" unfolding assms(3) using schema_insertSource [of i s d1] by (cases "insertSource i s d1"; cases b) simp_all
qed

lemma submission_schema:
  assumes w: "schema_ok (db w)"
  shows "schema_ok (db (fst (snd (handleSubmission R Z ok now i rq form (w, objs)))))"
proof -
  obtain c u where id: "submitIdentity rq form = (c, u)" by (cases "submitIdentity rq form")
  obtain res q1 where rate: "CheckRateLimit R now (rateLimitName rq form) (redis w) = (res, q1)"
    by (cases "CheckRateLimit R now (rateLimitName rq form) (redis w)")
  define r where "r s3Path = (newSubmission now i c s3Path)\<lparr>sub_github_url := Some (sf_github_url form), sub_user_id := u,
      sub_arena_id := Some (if sf_arena_id form = '''' then ''default'' else sf_arena_id form)\<rparr>" for s3Path
  consider "res = None" | n where "res = Some (False, n)" | n where "res = Some (True, n)" by (metis (full_types) not_Some_eq surj_pair)
  then show ?thesis
  proof cases
    case (3 n)
    show ?thesis
    proof (cases "storeUpload Z ok i form objs")
      case (Inl e)
      then show ?thesis using w by (cases e) (simp add: handleSubmission_def id rate 3)
    next
      case (Inr x)
      obtain s3Path source objs1 where x: "x = (s3Path, source, objs1)" by (cases x)
      define ins where "ins = (if ok Insert_Submission then insertSubmission (r s3Path) (db w) else None)"
      show ?thesis
      proof (cases ins)
        case None
        then show ?thesis using w unfolding ins_def r_def
          by (cases "ok Insert_Submission"; cases "sf_arena_id form = []") (simp_all add: handleSubmission_def id rate 3 Inr x Let_def)
      next
        case (Some d1)
        then have new: "insertSubmission (r s3Path) (db w) = Some d1" by (simp add: ins_def split: if_splits)
        define d2 where "d2 = (case (if ok Insert_Source then insertSource i source d1 else None) of None \<Rightarrow> d1 | Some d2 \<Rightarrow> d2)"
        show ?thesis using Some stored_schema [OF w new d2_def, of R] unfolding ins_def r_def d2_def
          by (cases "ok Insert_Submission"; cases "sf_arena_id form = []"; cases "ok Insert_Source")
            (simp_all add: handleSubmission_def id rate 3 Inr x Let_def split_beta)
      qed
    qed
  qed (use w in \<open>simp_all add: handleSubmission_def id rate\<close>)
qed

lemma mock_schema:
  assumes w: "schema_ok (db w)"
  shows "schema_ok (db (fst (snd (handleMockSubmission R Z ok dirs now i n e sys (w, objs)))))"
proof -
  define engine where "engine = (if e = '''' then ''go_optimized'' else e)"
  define r where "r = newSubmission now i (''mock-contestant-'' @ Itoa n) (s3PathOf i)"
  define ins where "ins = (if ok Insert_Submission then insertSubmission r (db w) else None)"
  show ?thesis
  proof (cases "dirs engine")
    case (Some z)
    show ?thesis
    proof (cases z)
      case (Some bytes)
      show ?thesis
      proof (cases "ins = None \<or> (\<exists>x. normalizeZipToTarGz (z_unzip Z) (z_header Z) (z_targz Z) bytes = Inl x)")
        case True
        then show ?thesis using w \<open>dirs engine = Some z\<close> Some
          by (auto simp: handleMockSubmission_def Let_def engine_def [symmetric] ins_def r_def split: sum.splits)
      next
        case False
        then obtain d1 tar where d1: "ins = Some d1" and tar: "normalizeZipToTarGz (z_unzip Z) (z_header Z) (z_targz Z) bytes = Inr tar"
          by (cases "normalizeZipToTarGz (z_unzip Z) (z_header Z) (z_targz Z) bytes") auto
        then have new: "insertSubmission r (db w) = Some d1" by (simp add: ins_def split: if_splits)
        define d2 where "d2 = (case (if ok Insert_Source then insertSource i (''[ZIP Mock Submission: '' @ engine @ '']'') d1 else None) of
          None \<Rightarrow> d1 | Some d2 \<Rightarrow> d2)"
        define out where "out = enqueueBuild R ok now i (mockMessage i (''mock-contestant-'' @ Itoa n) (if sys = '''' then ''true'' else sys)) (redis w) d2"
        have "schema_ok (db (snd out))" unfolding out_def by (rule stored_schema [OF w new d2_def])
        moreover obtain rep w1 where out: "out = (rep, w1)" by (cases out)
        ultimately show ?thesis using w \<open>dirs engine = Some z\<close> Some d1 tar
          by (cases rep) (simp_all add: handleMockSubmission_def Let_def engine_def [symmetric] ins_def [unfolded r_def]
              d2_def [symmetric] out_def [symmetric] out del: append_Cons)
      qed
    qed (use w Some in \<open>simp add: handleMockSubmission_def Let_def engine_def [symmetric]\<close>)
  qed (use w in \<open>simp add: handleMockSubmission_def Let_def engine_def [symmetric]\<close>)
qed

lemma register_handler_schema: "handleRegister X dbOK now uuid body d = (r, t, d') \<Longrightarrow> schema_ok d \<Longrightarrow> schema_ok d'"
  by (auto simp: handleRegister_def Let_def dest: schema_insertUser split: option.splits if_splits)

lemma upsert_schema: "githubUpsert uuid unix g d = Some (u, h, r, d') \<Longrightarrow> schema_ok d \<Longrightarrow> schema_ok d'"
  by (auto simp: githubUpsert_def Let_def dest: schema_insertUser split: option.splits)

lemma github_handler_schema: "handleGitHubCallback X getenv dbOK now uuid code gh d = (r, t, d') \<Longrightarrow> schema_ok d \<Longrightarrow> schema_ok d'"
  by (auto simp: handleGitHubCallback_def Let_def dest: upsert_schema split: githubReply.splits option.splits if_splits prod.splits)

lemma findArena_id: "findArena a d = Some x \<Longrightarrow> a \<in> ar_id ` set (arenas d)"
  by (auto simp: findArena_def find_Some_iff)

lemma arena_registration_schema: "schema_ok d \<Longrightarrow> schema_ok (snd (handleRegisterArena ok a u d))"
  by (auto simp: handleRegisterArena_def intro!: schema_register dest: findArena_id)

lemma create_arena_schema: "schema_ok d \<Longrightarrow> schema_ok (snd (handleCreateArena ok uuid body d))"
  by (auto simp: handleCreateArena_def Let_def intro!: schema_arena split: option.splits)

lemma update_arena_schema:
  assumes "schema_ok (db w)"
  shows "schema_ok (db (snd (handleUpdateArena R ok resetOK now a body w)))"
proof -
  have "schema_ok ((db w)\<lparr>arenas := map (\<lambda>x. if ar_id x = a then updateArenaRow b x else x) (arenas (db w))\<rparr>)" for b
    by (rule schema_arena_update [OF assms]) (simp add: updateArenaRow_def)
  then show ?thesis using assms by (simp add: handleUpdateArena_def Let_def schema_rows [OF trigger_rows] split: option.splits)
qed

lemma bootstrap_schema: "schema_ok d \<Longrightarrow> schema_ok (bootstrapDefaultArena as now d)"
proof -
  have "schema_ok d \<Longrightarrow> schema_ok (bootstrapLoop xs now d)" for xs
    by (induction xs now d rule: bootstrapLoop.induct) (auto intro!: schema_arena)
  then show "schema_ok d \<Longrightarrow> schema_ok (bootstrapDefaultArena as now d)" by (simp add: bootstrapDefaultArena_def)
qed

lemma clean_schema: "schema_ok (db w) \<Longrightarrow> schema_ok (db (snd (handleCleanDB R ok w)))"
  by (auto simp: handleCleanDB_def Let_def schema_ok_def rows_ok_def sources_ok_def registrations_ok_def)

section \<open>The platform\<close>

inductive platform_step :: "'q redis_ops \<Rightarrow> 'q World \<Rightarrow> 'q World \<Rightarrow> bool" for R where
  start: "platform_step R w (w\<lparr>db := bootstrapDefaultArena as now (db w)\<rparr>)"
| submit: "platform_step R w (fst (snd (handleSubmission R Z ok now i rq form (w, objs))))"
| mock: "platform_step R w (fst (snd (handleMockSubmission R Z ok dirs now i n e sys (w, objs))))"
| build: "processMessage R A m w = Some w' \<Longrightarrow> platform_step R w w'"
| test: "processPretestMessage R B sys m w = Some w' \<Longrightarrow> platform_step R w w'"
| account: "handleRegister X dbOK now uuid body (db w) = (r, t, d) \<Longrightarrow> platform_step R w (w\<lparr>db := d\<rparr>)"
| github: "handleGitHubCallback X getenv dbOK now uuid code gh (db w) = (r, t, d) \<Longrightarrow> platform_step R w (w\<lparr>db := d\<rparr>)"
| join: "platform_step R w (w\<lparr>db := snd (handleRegisterArena ok a u (db w))\<rparr>)"
| create: "platform_step R w (w\<lparr>db := snd (handleCreateArena ok uuid ab (db w))\<rparr>)"
| update: "platform_step R w (snd (handleUpdateArena R ok resetOK now a ab w))"
| rejudge: "platform_step R w (snd (handleRejudgeArena R ok resetOK now a w))"
| clean: "platform_step R w (snd (handleCleanDB R ok w))"

lemma platform_step_schema: "platform_step R w w' \<Longrightarrow> schema_ok (db w) \<Longrightarrow> schema_ok (db w')"
proof (induction rule: platform_step.induct)
  case (build A m w w')
  then show ?case using schema_rows build_rows by blast
next
  case (test B sys m w w')
  then show ?case using schema_rows test_rows by blast
next
  case (rejudge w ok resetOK now a)
  then show ?case using schema_rows [OF trigger_rows] by (simp add: handleRejudgeArena_def)
qed (simp_all add: bootstrap_schema submission_schema mock_schema register_handler_schema github_handler_schema
    arena_registration_schema create_arena_schema update_arena_schema clean_schema)

definition emptyDB :: DB where
  "emptyDB = \<lparr>submissions = [], submission_sources = [], users = [], arenas = [], arena_registrations = []\<rparr>"

lemma emptyDB_ok: "schema_ok emptyDB"
  by (simp add: schema_ok_def rows_ok_def sources_ok_def users_ok_def registrations_ok_def emptyDB_def List.map_filter_def)




end
