(* ===== verification/Routes.thy ===== *)
theory Routes
  imports Arena
begin

text \<open>
  The routes of the gateway with the middleware in front of each handler, from \<^verbatim>\<open>main\<close> of \<^verbatim>\<open>services/gateway/main.go\<close>. A request
  reaches a handler when the whole chain lets it pass.
\<close>

datatype middleware = OptionalAuth | RequireAuth | RequireAdmin

definition routes :: "(string \<times> string \<times> middleware list \<times> string) list" where
  "routes =
     [(''POST'', ''/api/v1/auth/register'', [], ''handleRegister''),
      (''POST'', ''/api/v1/auth/login'', [], ''handleLogin''),
      (''POST'', ''/api/v1/auth/logout'', [], ''handleLogout''),
      (''GET'', ''/api/v1/auth/me'', [OptionalAuth], ''handleMe''),
      (''GET'', ''/api/v1/auth/github'', [], ''handleGitHubLogin''),
      (''GET'', ''/api/v1/auth/github/callback'', [], ''handleGitHubCallback''),
      (''GET'', ''/api/v1/profile/:id'', [], ''handleGetProfile''),
      (''GET'', ''/api/v1/arena'', [], ''handleListArenas''),
      (''GET'', ''/api/v1/arena/:id'', [], ''handleGetArena''),
      (''POST'', ''/api/v1/arena/:id/register'', [RequireAuth], ''handleRegisterArena''),
      (''GET'', ''/api/v1/arena/:id/registrations'', [RequireAuth], ''handleGetRegistrations''),
      (''POST'', ''/api/v1/submit'', [OptionalAuth], ''handleSubmission''),
      (''GET'', ''/api/v1/build/:id'', [], ''handleBuildStatus''),
      (''GET'', ''/api/v1/submissions/:id/diagnostics'', [], ''handleBuildStatus''),
      (''GET'', ''/api/v1/submissions/:id/source'', [OptionalAuth], ''handleGetSource''),
      (''GET'', ''/api/v1/builds'', [], ''handleListBuilds''),
      (''GET'', ''/api/v1/leaderboard/:arena_id'', [], ''handleGetLeaderboard''),
      (''GET'', ''/api/v1/leaderboard/:arena_id/stream'', [], ''handleGetLeaderboardStream''),
      (''POST'', ''/api/v1/admin/arena'', [RequireAuth, RequireAdmin], ''handleCreateArena''),
      (''PUT'', ''/api/v1/admin/arena/:id'', [RequireAuth, RequireAdmin], ''handleUpdateArena''),
      (''POST'', ''/api/v1/admin/arena/:id/rejudge'', [RequireAuth, RequireAdmin], ''handleRejudgeArena''),
      (''GET'', ''/api/v1/admin/workers'', [RequireAuth, RequireAdmin], ''handleGetWorkersTelemetry''),
      (''GET'', ''/dashboard'', [], ''handleDashboardPage''),
      (''GET'', ''/api/v1/dashboard/metrics'', [], ''handleDashboardMetrics''),
      (''POST'', ''/api/v1/dashboard/actions/mock-submission'', [], ''handleMockSubmission''),
      (''POST'', ''/api/v1/dashboard/actions/clean-db'', [], ''handleCleanDB'')]"

fun through :: "auth_ops \<Rightarrow> int \<Rightarrow> middleware list \<Rightarrow> Request \<Rightarrow> Request reply" where
  \<comment> \<open>the request as the handler gets it, or the answer of the middleware that stops it\<close>
  "through X now [] rq = Reply 200 rq"
| "through X now (OptionalAuth # ms) rq = through X now ms (optionalAuth X now rq)"
| "through X now (RequireAuth # ms) rq = (case requireAuth X now rq of Reply _ rq1 \<Rightarrow> through X now ms rq1 | Fail s e \<Rightarrow> Fail s e)"
| "through X now (RequireAdmin # ms) rq = (case requireAdmin rq of Reply _ rq1 \<Rightarrow> through X now ms rq1 | Fail s e \<Rightarrow> Fail s e)"

text \<open>The routes of the admin console are exactly those behind both guards.\<close>

lemma admin_routes_guarded:
  assumes "(meth, path, ms, h) \<in> set routes"
  shows "HasPrefix path ''/api/v1/admin'' \<longleftrightarrow> ms = [RequireAuth, RequireAdmin]"
  using assms by (auto simp: routes_def)

lemma through_admin: "through X now [RequireAuth, RequireAdmin] rq = adminRoute X now rq"
  by (cases "requireAuth X now rq") (simp_all add: adminRoute_def requireAdmin_def)

text \<open>The action that deletes all submissions and all queues is behind no guard.\<close>

lemma clean_db_needs_no_login:
  assumes "(meth, path, ms, ''handleCleanDB'') \<in> set routes"
  shows "through X now ms rq = Reply 200 rq \<and> submissions (db (snd (handleCleanDB R (\<lambda>c. True) w))) = []"
  using assms by (auto simp: routes_def handleCleanDB_def Let_def)

end
