(* ===== verification/Spec2Isabelle.thy ===== *)
theory Spec2Isabelle
  imports Shadow_Props Bot_Runner Fleet_Master Producer Engine_Wire Engine_Run Fleet_Launch Pretest_Fleet Rest_Adapter Schema Routes
begin

text \<open>
  Verification of IICPC-BenchGrid, a platform that compiles the matching engines of contestants, runs
  them in a sandbox, loads them with trading bots and ranks them.

  \<^bold>\<open>The program.\<close> A contestant uploads an engine to the gateway (\<^verbatim>\<open>src/services/gateway\<close>), which stores the
  archive, inserts a row into the database and queues a job on a Redis stream. The compiler
  (\<^verbatim>\<open>src/services/compiler\<close>) builds an image and queues a pretest, the test worker (\<^verbatim>\<open>src/services/testing\<close>)
  starts the engine, sends it the orders of deterministic bots over TCP, WebSocket, REST or FIX, and records a verdict. The
  bot fleet (\<^verbatim>\<open>src/bot-fleet\<close>) is the larger load generator: a master splits the bots over workers, the workers publish
  orders, acknowledgements and fills on Kafka, and a consumer feeds them to the shadow validator,
  which keeps its own order book and compares the fills of the engine with those it expects. Reference engines
  (\<^verbatim>\<open>src/test_payloads\<close>) show what a contestant is expected to write.

  \<^bold>\<open>Theories and sources.\<close> The order is that of the imports. A theory holds the definitions of its part and their lemmas.

  \<^item> \<open>BG_Prelude\<close>, \<open>Float64\<close>, \<open>Go_Strings\<close>: Go's integers with their wrap-around, maps, binary64
    rounding, and the functions of \<^verbatim>\<open>strings\<close> and \<^verbatim>\<open>strconv\<close> that the sources call.
  \<^item> \<open>Scoring\<close>: \<^verbatim>\<open>pkg/scoring/scoring.go\<close>.
  \<^item> \<open>Shadow_Book\<close> (shard and matching loops), \<open>Price_Tree\<close> (an ordered map for the tree), \<open>Shadow_Match\<close> (refinement of one pass
    over a flat list), \<open>Shadow_Validator\<close> (routing, handlers, score), \<open>Shadow_Inv\<close>, \<open>Shadow_Score\<close>,
    \<open>Shadow_Priority\<close>, \<open>Shadow_Perfect\<close>, \<open>Shadow_Props\<close> (invariants and properties): \<^verbatim>\<open>bot-fleet/shadow/validator.go\<close>.
  \<^item> \<open>Pending\<close>: \<^verbatim>\<open>bot-fleet/pending.go\<close>. \<open>Bots\<close>, \<open>Bot_Ring\<close>, \<open>Bot_Orders\<close>: \<^verbatim>\<open>bot.go\<close>. \<open>Bot_Strategy\<close>: \<^verbatim>\<open>strategy.go\<close>. \<open>Bot_Runner\<close>
    (\<^verbatim>\<open>runBot\<close>), \<open>Probe\<close>, \<open>Fleet_Launch\<close> (\<^verbatim>\<open>runFleet\<close>), \<open>Fleet_Shards\<close> (\<^verbatim>\<open>runDistributed\<close>, \<^verbatim>\<open>buildShardBots\<close>): \<^verbatim>\<open>runner.go\<close>,
    \<^verbatim>\<open>worker_node.go\<close>. \<open>Fleet_Master\<close>: \<^verbatim>\<open>bot-fleet/main.go\<close>.
  \<^item> \<open>Jitter\<close>, \<open>Telemetry\<close>, \<open>Producer\<close>: \<^verbatim>\<open>bot-fleet/telemetry\<close>, the two ends of the event stream.
  \<^item> \<open>Pretest_Bot\<close>, \<open>Pretest_Run\<close> (consumer, metrics, results), \<open>Pretest_Fleet\<close> (goroutines of \<^verbatim>\<open>RunFleet\<close>, scheduler), \<open>Fix_Codec\<close>,
    \<open>Fix_Adapter\<close>, \<open>Rest_Adapter\<close>, \<open>Proto_Wire\<close>: \<^verbatim>\<open>services/testing/runner.go\<close>. \<open>Verdict\<close>: \<^verbatim>\<open>verdict.go\<close>.
    \<open>Test_Worker\<close>: \<^verbatim>\<open>services/testing/main.go\<close>.
  \<^item> \<open>Engine\<close> (book and \<^verbatim>\<open>handleOrder\<close>), \<open>Engine_Wire\<close> (FIX, WebSocket, REST), \<open>Fill_Sync\<close> and \<open>Engine_Sim\<close> (simulation between the engine and the
    shadow book), \<open>Engine_Run\<close> (the closed system): \<^verbatim>\<open>test_payloads/go_*/main.go\<close>.
  \<^item> \<open>Platform\<close>: \<^verbatim>\<open>migrations\<close>, \<^verbatim>\<open>services/common\<close>, \<^verbatim>\<open>ratelimit.go\<close>. \<open>Compiler\<close>: \<^verbatim>\<open>services/compiler\<close>. \<open>Zip_Normalize\<close>,
    \<open>Gateway_Auth\<close>, \<open>Leaderboard\<close>, \<open>Gateway\<close>, \<open>Arena\<close>, \<open>Routes\<close>: the files of \<^verbatim>\<open>services/gateway\<close>. \<open>Pipeline\<close> (a
    submission across all services) and \<open>Schema\<close> (well-formed tables under all handlers) put them together.

  State is a record per structure of the source; a handler takes the state and returns the new one with its
  reply, and a failing statement, a panic and an early return are branches. Goroutines are step relations: one step is what
  one of them does between two points where another can run.

  \<^bold>\<open>What is shown.\<close>

  \<^item> Shadow validator: every reachable shard is well formed and sorted, its books do not cross, matching is one pass in price-time
    priority and conserves quantity, and the score of an engine that agrees with the book is 100.
  \<^item> \<open>Engine_Run\<close>: bots, reference engine, consumer and validator together give the reference engine 100 in every
    interleaving. Its matching loop is equivalent to the same single pass.
  \<^item> Fleet: orders are unique and name their bot, every order of a run is counted once, the ring buffer
    and the pending table refine a queue and a map, jobs end, runs can finish.
  \<^item> Wire formats: orders and reports survive the binary protocol and the FIX session, in any iteration order of the maps.
  \<^item> Platform: the tables stay well formed, every submission is judged after finitely many deliveries, tokens and routes
    guard the administration, sources stay private, the leaderboard shows the best submission of each contestant.
  \<^item> Defects, each as a theorem on a concrete or general run: a silent engine is accepted, an early exit blocks a test run,
    redelivered events never leave the jitter buffer, a crashed worker's message is never read again, an upload is
    read back in a format that it does not have, an anonymous submission counts for another user.

  \<^bold>\<open>Parameters.\<close> Code outside the repository is an argument, and a locale or a named predicate states what is used of it:
  \<open>price_tree\<close> (red-black trees), \<open>rng_source\<close> (\<^verbatim>\<open>math/rand\<close>), \<open>redis_streams\<close>, \<open>redis_answers\<close>, \<open>redis_keys\<close> (Redis),
  \<open>auth_services\<close> (tokens, password hashes), \<open>kafka_client\<close> (Kafka), \<open>proto3_order\<close> (Protocol Buffers), \<open>log_ok\<close> and
  \<open>log_sign\<close> (\<^verbatim>\<open>math.Log\<close>), \<open>hist_ops\<close> (histograms). The interfaces between components are \<open>rounding\<close>,
  \<open>bounded_fifo\<close>, \<open>ack_table\<close> and \<open>shard_invariant\<close>. Every locale is interpreted: on \<open>fl\<close>, \<open>ringBuf\<close>, the
  pending table and the shards of the validator, or on an executable instance of the outside code, which the witnesses use.

  \<^bold>\<open>Termination.\<close> All loops are total functions except \<open>drainJitterBuffer\<close>, which takes fuel because the code can loop without end;
  the delivery theorems give a fuel that is enough and \<open>redelivery_livelock\<close> shows when none is. The probe
  ends after at most 14 attempts. A handler that waits for a build returns \<open>None\<close> when it panics or when
  the given rounds of waiting are over.

  \<^bold>\<open>Not modelled.\<close> \<^verbatim>\<open>dashboard.go\<close> is the text of a page. The start of the servers in the \<^verbatim>\<open>main\<close> functions and the connections to
  Redis, PostgreSQL and the object store have no logic of their own; counters for Prometheus and the seccomp profile
  are not read by any decision. Starting a sandbox in Docker or Kubernetes is what the environment records \<open>RunEnv\<close> and \<open>BuildEnv\<close>
  answer. Generated code, gRPC, HTTP and WebSocket transport, and the encoding of histograms are parameters. The
  web interface, the deployment descriptions, engines in other languages and the tests are not part of the
  Go programs. Locks are left out: a handler under a lock is one step.
\<close>

section \<open>Properties that span components\<close>

definition silent :: "'t SymbolShard \<Rightarrow> int set \<Rightarrow> bool" where
  "silent s ids \<longleftrightarrow> expectedFills s = [] \<and> actualFills s = [] \<and> orderMap s = [] \<and> no_violations s \<and>
     (\<forall>i. has_key (pendingOrders s) i \<longrightarrow> i \<in> ids)"

lemma silent_new: "silent (NewSymbolShard T) {}"
  by (simp add: silent_def NewSymbolShard_def no_violations_def)

lemma silent_order:
  assumes "silent s ids" "i \<notin> ids"
  shows "silent (shardOrder i ty sd p q s) (insert i ids)"
proof -
  have "\<not> has_key (pendingOrders s) i" "\<not> has_key (orderMap s) i" using assms by (auto simp: silent_def)
  then show ?thesis using assms(1)
    by (auto simp: silent_def shardOrder_def checkCleanup_def Let_def gomap_simps no_violations_def)
qed

lemma silent_ProcessOrder:
  assumes v: "\<forall>x \<in> set (shards v). silent (snd x) ids" and i: "i \<notin> ids"
  shows "\<forall>x \<in> set (shards (ProcessOrder T i ty sd p q v)). silent (snd x) (insert i ids)"
proof -
  define w where "w = (snd (getShard T ''BTCUSD'' v))\<lparr>orderToShard := AList.update i ''BTCUSD'' (orderToShard (snd (getShard T ''BTCUSD'' v)))\<rparr>"
  have new: "silent (NewSymbolShard T) ids" using silent_new [of T] by (auto simp: silent_def)
  have w: "\<forall>x \<in> set (shards w). silent (snd x) ids"
    using v new by (auto simp: w_def getShard_def dest!: set_updateD)
  then have "silent (shardAt T ''BTCUSD'' w) ids"
    using new by (auto simp: shardAt_def get_or_def split: option.splits dest!: map_of_SomeD)
  note o = silent_order [OF this i, of ty sd p q]
  have "ProcessOrder T i ty sd p q v = onShard T ''BTCUSD'' (shardOrder i ty sd p q) w"
    by (simp add: ProcessOrder_def w_def getShard_def)
  moreover have "silent s ids \<Longrightarrow> silent s (insert i ids)" for s :: "'a SymbolShard" by (auto simp: silent_def)
  ultimately show ?thesis using w o by (auto simp: onShard_def dest!: set_updateD)
qed

lemma silent_run:
  assumes "distinct (map fst os)"
  shows "\<forall>x \<in> set (shards (vrun T (map (\<lambda>(i, ty, sd, p, q). EOrder i ty sd p q) os))). silent (snd x) (set (map fst os))"
  using assms
proof (induction os rule: rev_induct)
  case Nil
  then show ?case by (simp add: vrun_def NewValidator_def)
next
  case (snoc e os)
  obtain i ty sd p q where e: "e = (i, ty, sd, p, q)" by (cases e) auto
  have "vrun T (map (\<lambda>(i, ty, sd, p, q). EOrder i ty sd p q) (os @ [e])) =
      ProcessOrder T i ty sd p q (vrun T (map (\<lambda>(i, ty, sd, p, q). EOrder i ty sd p q) os))"
    by (simp add: vrun_def e)
  then show ?case using silent_ProcessOrder [of _ "set (map fst os)" i T ty sd p q] snoc e by simp
qed

abbreviation orders_only :: "(int \<times> string \<times> string \<times> int \<times> int) list \<Rightarrow> vevent list" where
  "orders_only os \<equiv> map (\<lambda>(i, ty, sd, p, q). EOrder i ty sd p q) os"

lemma silent_score:
  assumes "distinct (map fst os)"
  shows "fst (GetCorrectnessScore (vrun T (orders_only os))) = 100"
proof -
  let ?v = "vrun T (orders_only os)"
  have "(\<forall>i. agree (snd x) i) \<and> no_violations (snd x) \<and> counters_ok (snd x) \<and> maps_ok (snd x)" if "x \<in> set (shards ?v)" for x
    using silent_run [OF assms(1), of T] that counters.vrun_inv [OF that] maps.vrun_inv [OF that]
    by (auto simp: silent_def agree_def)
  moreover have "balanced tally0" by (simp add: balanced_def tally0_def)
  ultimately have "balanced (fst (scoreShards (shards ?v) tally0))" by (intro scoreShards_agree) auto
  then show ?thesis by (simp add: GetCorrectnessScore_def case_prod_beta scoreOf_balanced)
qed

text \<open>an engine that answers nothing passes with full marks. If every order of a run stays
  unacknowledged, the validator's correctness score is 100, and a report with no order sent and empty
  latency histograms is stored as Accepted with a composite score of 100: the failure rate divides by
  the orders acknowledged and is taken as 0 when there are none.\<close>

lemma silent_engine_is_accepted:
  assumes "distinct (map fst os)"
    and "rpCorrectnessScore rep = fst (GetCorrectnessScore (vrun T (map (\<lambda>(i, ty, sd, p, q). EOrder i ty sd p q) os)))"
    and "rpOrdersSent rep = 0" "rpP50Us rep = 0" "rpP90Us rep = 0" "rpP99Us rep = 0"
  shows "orVerdict (officialRow rep) = ''Accepted'' \<and> orComposite (officialRow rep) = 100"
proof -
  have c: "rpCorrectnessScore rep = 100" using assms(2) silent_score [OF assms(1)] by simp
  have f: "failRateOf rep = 0" using assms(3) by (simp add: failRateOf_def)
  have l: "LatencyScore 0 0 0 = 100" "ThroughputScore 0 = 100"
    using weightedLatency_ends
    by (simp_all add: LatencyScore_dynamic DynamicLatencyScore_weighted dynamicLatencyBucket_def ThroughputScore_def fsub_def fmul_def)
  have "0 \<le> fl (10 / 100)" by (simp add: fl_nonneg)
  then show ?thesis using c f l assms(4-6) CompositeScore_ends by (simp add: officialRow_def officialVerdict_def)
qed

lemma silent_engine_is_accepted_witness:
  "orComposite (officialRow (rep0\<lparr>rpOrdersSent := 0, rpOrdersFailed := 50, rpP50Us := 0, rpP90Us := 0, rpP99Us := 0,
     rpCorrectnessScore := fst (GetCorrectnessScore (vrun alist_ops [EOrder 4294967297 ''limit'' ''buy'' 100 5]))\<rparr>)) = 100"
  using silent_engine_is_accepted [of "[(4294967297, ''limit'', ''buy'', 100, 5)]"
      "rep0\<lparr>rpOrdersSent := 0, rpOrdersFailed := 50, rpP50Us := 0, rpP90Us := 0, rpP99Us := 0,
        rpCorrectnessScore := fst (GetCorrectnessScore (vrun alist_ops [EOrder 4294967297 ''limit'' ''buy'' 100 5]))\<rparr>" alist_ops]
  by simp

lemma timeouts_validator: "co_validator (timeouts st bots c) = co_validator c" "co_rttHist (timeouts st bots c) = co_rttHist c"
proof -
  have inner: "co_validator (fold (\<lambda>seq c. let sendTime = pb_SendTimes b ! nat seq in
         if sendTime > 0 \<and> \<not> get_or False (co_accepted c) (shl32 (pb_NumericID b) OR seq) then countFailure st sendTime c else c) ks c) = co_validator c"
    "co_rttHist (fold (\<lambda>seq c. let sendTime = pb_SendTimes b ! nat seq in
         if sendTime > 0 \<and> \<not> get_or False (co_accepted c) (shl32 (pb_NumericID b) OR seq) then countFailure st sendTime c else c) ks c) = co_rttHist c"
    for b :: "'b PretestBot" and ks and c :: "'a Core"
    by (induction ks arbitrary: c) (simp_all add: Let_def countFailure_def)
  show "co_validator (timeouts st bots c) = co_validator c" "co_rttHist (timeouts st bots c) = co_rttHist c"
    unfolding timeouts_def by (induction bots arbitrary: c) (simp_all add: inner)
qed

text \<open>C29: an engine that never answers passes the pretest. If all orders are written to the connection
  and none is acknowledged, the correctness is 100, the failures are 0 because only failed writes
  count, and the empty histogram gives a latency of 0; as long as the bots keep their sending rate, the verdict is
  Accepted. The timeouts only reduce the sustained throughput, which no criterion of the verdict looks at.\<close>

theorem silent_pretest_is_accepted:
  assumes "distinct (map fst os)" "co_validator c = vrun T (orders_only os)" "co_rttHist c = []" "\<forall>q. quantile [] q = 0"
    and "res = fleetResults quantile protocolStr isSystest startTime bots samples totalSent 0 c"
    and "degradation res \<le> fl (30 / 100)"
  shows "fst (EvaluateVerdict Log avgTop10 res) = Accepted"
proof -
  obtain target ceil where lt: "latencyTargets avgTop10 (res_Protocol res) = (target, ceil)" by fastforce
  have r: "res_Correctness res = 100" "res_OrdersFailed res = 0" "res_P99Us res = 0"
    using assms(3-5) silent_score [OF assms(1), of T] by (simp_all add: fleetResults_def Let_def case_prod_beta timeouts_validator assms(2) usOfNs_def)
  have "failRate res = 0" using r(2) by (simp add: failRate_def fdiv_def)
  then have "thresholdExceeded res = None" using r(2) fl64.rnd_nonneg [of "1 / 1000"] by (simp add: thresholdExceeded_def not_less)
  then have "fst (decideVerdict ceil res) = Accepted"
    using r assms(6) latencyTargets_floors [OF lt] by (simp add: decideVerdict_def not_less)
  then show ?thesis by (simp add: EvaluateVerdict_def lt case_prod_beta Let_def)
qed

theorem silent_pretest_is_accepted_witness:
  "fst (EvaluateVerdict (\<lambda>x. x - 1) None
     (fleetResults (\<lambda>h q. 0) ''TCP'' False 0 ([] :: unit PretestBot list) [] 50 0
        (core0\<lparr>co_validator := vrun alist_ops [EOrder 4294967297 ''LIMIT'' ''BUY'' 100 5]\<rparr>))) = Accepted"
proof (rule silent_pretest_is_accepted [OF _ _ _ _ refl])
  show "distinct (map fst [(4294967297 :: int, ''LIMIT'', ''BUY'', 100 :: int, 5 :: int)])" by simp
  show "co_validator (core0\<lparr>co_validator := vrun alist_ops [EOrder 4294967297 ''LIMIT'' ''BUY'' 100 5]\<rparr>) =
      vrun alist_ops (orders_only [(4294967297, ''LIMIT'', ''BUY'', 100, 5)])" by simp
  show "degradation (fleetResults (\<lambda>h q. 0) ''TCP'' False 0 ([] :: unit PretestBot list) [] 50 0
        (core0\<lparr>co_validator := vrun alist_ops [EOrder 4294967297 ''LIMIT'' ''BUY'' 100 5]\<rparr>)) \<le> fl (30 / 100)"
    by (simp add: degradation_def fleetResults_def Let_def case_prod_beta tpsOf_def fsub_def fdiv_def fl_nonneg)
qed (simp_all add: core0_def)

end
